(* ===== verification/Prelude.thy ===== *)
theory Prelude
  imports Main "HOL-Library.AList" "HOL-Library.Sublist" "HOL-Library.Char_ord"
    "HOL-Library.List_Lexorder"
begin

text \<open>
  What the components share of the Python language.  A \<open>str\<close> is a \<open>string\<close>: a list of the
  code points U+0000 to U+00FF (a \<open>char\<close> is one of 256 values), and every string method below
  is the one of CPython on that range.  A \<open>dict\<close> is an association list in insertion order:
  \<open>map_of\<close> reads it, \<open>AList.update\<close> assigns (in place for a present key, at the end otherwise),
  \<open>AList.delete\<close> pops.  An exception is the left value of a sum.
\<close>

text \<open>Which components of a state an operation leaves as they are.\<close>

named_theorems frames

subsection \<open>Characters\<close>

abbreviation dot :: char where "dot \<equiv> CHR ''.''"

abbreviation hyphen :: char where "hyphen \<equiv> CHR ''-''"

definition code_pt :: "char \<Rightarrow> nat" where
  "code_pt c = of_char c"

text \<open>\<open>str.isspace\<close> of one character, as \<open>str.strip()\<close> and \<open>str.split()\<close> use it.\<close>

definition is_space :: "char \<Rightarrow> bool" where
  "is_space c \<longleftrightarrow> (let n = code_pt c in
     (9 \<le> n \<and> n \<le> 13) \<or> (28 \<le> n \<and> n \<le> 32) \<or> n = 133 \<or> n = 160)"

definition is_ascii :: "char \<Rightarrow> bool" where
  "is_ascii c \<longleftrightarrow> code_pt c < 128"

definition is_dec :: "char \<Rightarrow> bool" where
  "is_dec c \<longleftrightarrow> 48 \<le> code_pt c \<and> code_pt c \<le> 57"

text \<open>\<open>str.lower\<close> of one character: ASCII capitals and the Latin-1 capitals but the
  multiplication sign.\<close>

definition lower_char :: "char \<Rightarrow> char" where
  "lower_char c = (let n = code_pt c in
     if (65 \<le> n \<and> n \<le> 90) \<or> (192 \<le> n \<and> n \<le> 222 \<and> n \<noteq> 215) then char_of (n + 32) else c)"

definition lower :: "string \<Rightarrow> string" where
  "lower s = map lower_char s"

definition all_ascii :: "string \<Rightarrow> bool" where
  "all_ascii s \<longleftrightarrow> list_all is_ascii s"

text \<open>The length of \<open>s.encode("utf-8")\<close>: two octets from U+0080 on.\<close>

definition utf8_len :: "string \<Rightarrow> nat" where
  "utf8_len s = sum_list (map (\<lambda>c. if is_ascii c then 1 else 2) s)"

subsection \<open>String methods\<close>

definition lstrip_of :: "(char \<Rightarrow> bool) \<Rightarrow> string \<Rightarrow> string" where
  "lstrip_of P s = dropWhile P s"

definition rstrip_of :: "(char \<Rightarrow> bool) \<Rightarrow> string \<Rightarrow> string" where
  "rstrip_of P s = rev (dropWhile P (rev s))"

definition strip_of :: "(char \<Rightarrow> bool) \<Rightarrow> string \<Rightarrow> string" where
  "strip_of P s = rstrip_of P (lstrip_of P s)"

text \<open>\<open>s.strip()\<close>, \<open>s.strip(".")\<close> and \<open>s.rstrip(".")\<close>.\<close>

abbreviation strip :: "string \<Rightarrow> string" where "strip \<equiv> strip_of is_space"

abbreviation strip_dots :: "string \<Rightarrow> string" where "strip_dots \<equiv> strip_of (\<lambda>c. c = dot)"

abbreviation rstrip_dots :: "string \<Rightarrow> string" where "rstrip_dots \<equiv> rstrip_of (\<lambda>c. c = dot)"

text \<open>\<open>s.split(c)\<close> for a one-character separator, and \<open>c.join(parts)\<close>.\<close>

fun split_on :: "char \<Rightarrow> string \<Rightarrow> string list" where
  "split_on c [] = [[]]"
| "split_on c (x # xs) =
     (if x = c then [] # split_on c xs
      else (case split_on c xs of [] \<Rightarrow> [[x]] | p # ps \<Rightarrow> (x # p) # ps))"

fun join_with :: "char \<Rightarrow> string list \<Rightarrow> string" where
  "join_with c [] = []"
| "join_with c [p] = p"
| "join_with c (p # q # ps) = p @ c # join_with c (q # ps)"

text \<open>\<open>s.partition(c)\<close> without the separator it returns, \<open>s.split(c, 1)[-1]\<close> and
  \<open>s.rsplit(c, 1)[-1]\<close>.\<close>

definition before_first :: "char \<Rightarrow> string \<Rightarrow> string" where
  "before_first c s = takeWhile (\<lambda>x. x \<noteq> c) s"

definition after_first :: "char \<Rightarrow> string \<Rightarrow> string" where
  "after_first c s = tl (dropWhile (\<lambda>x. x \<noteq> c) s)"

definition after_dot :: "string \<Rightarrow> string" where
  "after_dot s = (if dot \<in> set s then after_first dot s else s)"

definition last_label :: "string \<Rightarrow> string" where
  "last_label s = last (split_on dot s)"

definition count_dots :: "string \<Rightarrow> nat" where
  "count_dots s = length (filter (\<lambda>c. c = dot) s)"

text \<open>\<open>s.find(sub)\<close> and \<open>s.rfind(sub)\<close> (\<open>None\<close> for -1), and \<open>sub in s\<close>.\<close>

fun py_find :: "string \<Rightarrow> string \<Rightarrow> nat option" where
  "py_find p [] = (if p = [] then Some 0 else None)"
| "py_find p (x # xs) = (if prefix p (x # xs) then Some 0 else map_option Suc (py_find p xs))"

fun py_rfind :: "string \<Rightarrow> string \<Rightarrow> nat option" where
  "py_rfind p [] = (if p = [] then Some 0 else None)"
| "py_rfind p (x # xs) =
     (case py_rfind p xs of
        Some n \<Rightarrow> Some (Suc n)
      | None \<Rightarrow> if prefix p (x # xs) then Some 0 else None)"

definition occurs_in :: "string \<Rightarrow> string \<Rightarrow> bool" where
  "occurs_in p s \<longleftrightarrow> py_find p s \<noteq> None"

text \<open>\<open>s.split(None, 1)\<close>: at most two parts, around the first run of white space.\<close>

definition split_ws1 :: "string \<Rightarrow> string list" where
  "split_ws1 s = (let t = lstrip_of is_space s;
       first = takeWhile (\<lambda>c. \<not> is_space c) t;
       rest = lstrip_of is_space (dropWhile (\<lambda>c. \<not> is_space c) t) in
     if t = [] then [] else if rest = [] then [first] else [first, rest])"

text \<open>\<open>s.splitlines()\<close>: the line boundaries below U+0100, \<open>\r\n\<close> as one.\<close>

definition is_eol :: "char \<Rightarrow> bool" where
  "is_eol c \<longleftrightarrow> (let n = code_pt c in (10 \<le> n \<and> n \<le> 13) \<or> (28 \<le> n \<and> n \<le> 30) \<or> n = 133)"

fun splitlines :: "string \<Rightarrow> string list" where
  "splitlines [] = []"
| "splitlines [x] = (if is_eol x then [[]] else [[x]])"
| "splitlines (x # y # xs) =
     (if x = CHR 0x0D \<and> y = CHR 0x0A then [] # splitlines xs
      else if is_eol x then [] # splitlines (y # xs)
      else (case splitlines (y # xs) of [] \<Rightarrow> [[x]] | l # ls \<Rightarrow> (x # l) # ls))"

text \<open>The decimal number of a string of ASCII digits, as \<open>int(s)\<close> reads it.\<close>

definition dec_value :: "string \<Rightarrow> nat" where
  "dec_value s = fold (\<lambda>c n. 10 * n + (code_pt c - 48)) s 0"

definition dec_int :: "string \<Rightarrow> int" where
  "dec_int s = fold (\<lambda>c n. 10 * n + (int (code_pt c) - 48)) s 0"

text \<open>The decimal numeral of a number, as \<open>str(n)\<close> and \<open>format\<close> write it.\<close>

fun nat_text :: "nat \<Rightarrow> string" where
  "nat_text n = (if n < 10 then [char_of (48 + n)] else nat_text (n div 10) @ [char_of (48 + n mod 10)])"

declare nat_text.simps [simp del]

definition int_text :: "int \<Rightarrow> string" where
  "int_text n = (if n < 0 then CHR ''-'' # nat_text (nat (- n)) else nat_text (nat n))"

text \<open>\<open>ascii(s)\<close>: the quoted form with every character outside printable ASCII escaped.\<close>

definition hex_digit :: "nat \<Rightarrow> char" where
  "hex_digit n = (if n < 10 then char_of (48 + n) else char_of (87 + n))"

definition ascii_char :: "char \<Rightarrow> char \<Rightarrow> string" where
  "ascii_char quote c =
    (let n = code_pt c in
     if c = quote \<or> n = 92 then [CHR 0x5C, c]
     else if n = 9 then [CHR 0x5C, CHR ''t'']
     else if n = 10 then [CHR 0x5C, CHR ''n'']
     else if n = 13 then [CHR 0x5C, CHR ''r'']
     else if n < 32 \<or> n \<ge> 127 then [CHR 0x5C, CHR ''x'', hex_digit (n div 16), hex_digit (n mod 16)]
     else [c])"

definition ascii_repr :: "string \<Rightarrow> string" where
  "ascii_repr s =
    (let quote = (if CHR 0x27 \<in> set s \<and> CHR 0x22 \<notin> set s then CHR 0x22 else CHR 0x27) in
     quote # concat (map (ascii_char quote) s) @ [quote])"

subsection \<open>Exceptions\<close>

datatype py_error = ValueError string | KeyError string | NameError string | OSError string | GenerationError string

subsection \<open>Lemmas on strings\<close>

lemma split_on_ne [simp]: "split_on c s \<noteq> []"
  by (induction s) (auto split: list.splits)

lemma join_split [simp]: "join_with c (split_on c s) = s"
proof (induction s)
  case Nil
  then show ?case by simp
next
  case (Cons x xs)
  obtain p ps where sp: "split_on c xs = p # ps"
    by (cases "split_on c xs") auto
  with Cons show ?case by (cases ps) auto
qed

lemma split_on_no_sep: "p \<in> set (split_on c s) \<Longrightarrow> c \<notin> set p"
proof (induction s arbitrary: p)
  case Nil
  then show ?case by simp
next
  case (Cons x xs)
  obtain q qs where sp: "split_on c xs = q # qs"
    by (cases "split_on c xs") auto
  with Cons show ?case by (auto split: if_splits)
qed

lemma split_on_chars: "p \<in> set (split_on c s) \<Longrightarrow> set p \<subseteq> set s"
proof (induction s arbitrary: p)
  case Nil
  then show ?case by simp
next
  case (Cons x xs)
  obtain q qs where sp: "split_on c xs = q # qs"
    by (cases "split_on c xs") auto
  with Cons.IH [of q] have "set q \<subseteq> set xs" by simp
  with sp Cons show ?case by (fastforce split: if_splits)
qed

lemma split_on_single: "c \<notin> set s \<Longrightarrow> split_on c s = [s]"
  by (induction s) auto

lemma split_on_append: "c \<notin> set p \<Longrightarrow> split_on c (p @ c # s) = p # split_on c s"
  by (induction p) auto

lemma split_join:
  assumes "ps \<noteq> []" "\<And>p. p \<in> set ps \<Longrightarrow> c \<notin> set p"
  shows "split_on c (join_with c ps) = ps"
  using assms
  by (induction c ps rule: join_with.induct) (auto simp: split_on_single split_on_append)

lemma join_inj:
  assumes "join_with c ps = join_with c qs" "ps \<noteq> []" "qs \<noteq> []"
    "\<And>p. p \<in> set ps \<Longrightarrow> c \<notin> set p" "\<And>p. p \<in> set qs \<Longrightarrow> c \<notin> set p"
  shows "ps = qs"
  using assms split_join by metis

lemma length_split_on: "length (split_on c s) = Suc (length (filter (\<lambda>x. x = c) s))"
  by (induction s) (auto split: list.splits)

lemma count_dots_labels: "Suc (count_dots s) = length (split_on dot s)"
  by (simp add: length_split_on count_dots_def)

lemma set_join: "set (join_with c ps) \<subseteq> insert c (\<Union>p \<in> set ps. set p)"
  by (induction c ps rule: join_with.induct) auto

lemma join_Cons: "ps \<noteq> [] \<Longrightarrow> join_with c (p # ps) = p @ c # join_with c ps"
  by (cases ps) auto

lemma rstrip_suffix_free: "s \<noteq> [] \<Longrightarrow> \<not> P (last s) \<Longrightarrow> rstrip_of P s = s"
  by (cases s rule: rev_cases) (auto simp: rstrip_of_def)

lemma lstrip_prefix_free: "s \<noteq> [] \<Longrightarrow> \<not> P (hd s) \<Longrightarrow> lstrip_of P s = s"
  by (cases s) (auto simp: lstrip_of_def)

lemma rstrip_of_Nil [simp]: "rstrip_of P [] = []"
  by (simp add: rstrip_of_def)

lemma lstrip_of_Nil [simp]: "lstrip_of P [] = []"
  by (simp add: lstrip_of_def)

lemma strip_of_Nil [simp]: "strip_of P [] = []"
  by (simp add: strip_of_def)

lemma rstrip_prefix: "prefix (rstrip_of P s) s"
proof -
  have "s = rstrip_of P s @ rev (takeWhile P (rev s))"
    unfolding rstrip_of_def by (metis rev_append rev_rev_ident takeWhile_dropWhile_id)
  then show ?thesis by (metis prefixI)
qed

lemma lstrip_suffix: "suffix (lstrip_of P s) s"
  by (simp add: lstrip_of_def suffix_dropWhile)

lemma rstrip_last: "rstrip_of P s \<noteq> [] \<Longrightarrow> \<not> P (last (rstrip_of P s))"
  unfolding rstrip_of_def by (metis hd_dropWhile last_rev rev_is_Nil_conv)

lemma lstrip_hd: "lstrip_of P s \<noteq> [] \<Longrightarrow> \<not> P (hd (lstrip_of P s))"
  unfolding lstrip_of_def by (rule hd_dropWhile)

lemma strip_hd: "strip_of P s \<noteq> [] \<Longrightarrow> \<not> P (hd (strip_of P s))"
proof -
  assume ne: "strip_of P s \<noteq> []"
  let ?l = "lstrip_of P s"
  from rstrip_prefix [of P ?l] obtain t where t: "?l = strip_of P s @ t"
    by (auto simp: strip_of_def elim: prefixE)
  with ne have "?l \<noteq> []" "hd ?l = hd (strip_of P s)" by auto
  with lstrip_hd show ?thesis by metis
qed

lemma strip_last: "strip_of P s \<noteq> [] \<Longrightarrow> \<not> P (last (strip_of P s))"
  unfolding strip_of_def by (rule rstrip_last)

lemma strip_of_id: "s \<noteq> [] \<Longrightarrow> \<not> P (hd s) \<Longrightarrow> \<not> P (last s) \<Longrightarrow> strip_of P s = s"
  by (simp add: strip_of_def lstrip_prefix_free rstrip_suffix_free)

lemma strip_idem [simp]: "strip_of P (strip_of P s) = strip_of P s"
  by (cases "strip_of P s = []") (auto intro: strip_of_id dest: strip_hd strip_last)

lemma set_strip: "set (strip_of P s) \<subseteq> set s"
  unfolding strip_of_def using rstrip_prefix lstrip_suffix
  by (metis dual_order.trans set_mono_prefix set_mono_suffix)

lemma lower_Nil [simp]: "lower [] = []"
  by (simp add: lower_def)

lemma length_lower [simp]: "length (lower s) = length s"
  by (simp add: lower_def)

lemma lower_append [simp]: "lower (s @ t) = lower s @ lower t"
  by (simp add: lower_def)

lemma code_pt_bound: "code_pt c < 256"
  unfolding code_pt_def by (cases c) (simp add: of_char_of)

lemma char_of_code_pt [simp]: "char_of (code_pt c) = c"
  by (simp add: code_pt_def)

lemma lower_char_idem [simp]: "lower_char (lower_char c) = lower_char c"
proof -
  have "code_pt (char_of n :: char) = n" if "n < 256" for n :: nat
    using that by (simp add: code_pt_def)
  then show ?thesis by (auto simp: lower_char_def Let_def)
qed

lemma lower_idem [simp]: "lower (lower s) = lower s"
  by (simp add: lower_def)

lemma prefix_take: "prefix p s \<Longrightarrow> take (length p) s = p"
  by (auto elim: prefixE)

lemma py_find_Some: "py_find p s = Some n \<Longrightarrow> n + length p \<le> length s \<and> take (length p) (drop n s) = p"
  by (induction p s arbitrary: n rule: py_find.induct)
    (auto split: if_splits dest: prefix_length_le prefix_take)

lemma py_find_None: "py_find p s = None \<Longrightarrow> \<not> sublist p s"
proof (induction p s rule: py_find.induct)
  case (1 p)
  then show ?case by (auto split: if_splits)
next
  case (2 p x xs)
  then show ?case by (auto simp: sublist_Cons_right split: if_splits)
qed

lemma occurs_in_sublist: "occurs_in p s \<longleftrightarrow> sublist p s"
proof
  assume "occurs_in p s"
  then obtain n where n: "py_find p s = Some n" by (auto simp: occurs_in_def)
  from py_find_Some [OF n] have "s = take n s @ p @ drop (n + length p) s"
    by (metis append_take_drop_id drop_drop add.commute)
  then show "sublist p s" by (metis sublist_def)
next
  assume "sublist p s"
  then show "occurs_in p s" using py_find_None by (auto simp: occurs_in_def)
qed

lemma code_pt_inject: "code_pt c = code_pt d \<longleftrightarrow> c = d"
  by (simp add: code_pt_def)

lemma code_pt_lower_char:
  "code_pt (lower_char c) =
     (if (65 \<le> code_pt c \<and> code_pt c \<le> 90) \<or> (192 \<le> code_pt c \<and> code_pt c \<le> 222 \<and> code_pt c \<noteq> 215)
      then code_pt c + 32 else code_pt c)"
proof -
  have "code_pt (char_of n :: char) = n" if "n < 256" for n :: nat
    using that by (simp add: code_pt_def)
  then show ?thesis by (auto simp: lower_char_def Let_def)
qed

text \<open>Lower-casing neither makes nor moves a separator: the characters below \<open>A\<close> are fixed.\<close>

lemma lower_char_eq:
  assumes "code_pt d < 65"
  shows "lower_char c = d \<longleftrightarrow> c = d"
  using assms by (simp add: code_pt_lower_char flip: code_pt_inject)

lemma lower_char_dot [simp]: "lower_char c = dot \<longleftrightarrow> c = dot"
  by (rule lower_char_eq) (simp add: code_pt_def)

lemma split_on_lower: "split_on dot (lower s) = map lower (split_on dot s)"
proof (induction s)
  case Nil
  then show ?case by simp
next
  case (Cons x xs)
  then show ?case by (cases "split_on dot xs") (auto simp: lower_def)
qed

lemma set_lower: "c \<in> set (lower s) \<longleftrightarrow> (\<exists>d \<in> set s. c = lower_char d)"
  by (auto simp: lower_def)

lemma dot_in_lower [simp]: "dot \<in> set (lower s) \<longleftrightarrow> dot \<in> set s"
  by (metis lower_char_dot set_lower)

subsection \<open>Numerals\<close>

lemma code_pt_char_of [simp]: "n < 256 \<Longrightarrow> code_pt (char_of n) = n"
  by (simp add: code_pt_def)

lemma dec_value_snoc: "dec_value (s @ [c]) = 10 * dec_value s + (code_pt c - 48)"
  by (simp add: dec_value_def)

lemma dec_value_nat_text [simp]: "dec_value (nat_text n) = n"
proof (induction n rule: nat_text.induct)
  case (1 n)
  show ?case
  proof (cases "n < 10")
    case True
    then show ?thesis by (subst nat_text.simps) (simp add: dec_value_def)
  next
    case False
    with 1 show ?thesis by (subst nat_text.simps) (simp add: dec_value_snoc)
  qed
qed

lemma nat_text_inject [simp]: "nat_text m = nat_text n \<longleftrightarrow> m = n"
  by (metis dec_value_nat_text)

lemma nat_text_dec: "c \<in> set (nat_text n) \<Longrightarrow> is_dec c"
proof (induction n rule: nat_text.induct)
  case (1 n)
  show ?case
  proof (cases "n < 10")
    case True
    with 1(2) show ?thesis by (subst (asm) nat_text.simps) (simp add: is_dec_def)
  next
    case False
    with 1 show ?thesis by (subst (asm) (2) nat_text.simps) (auto simp: is_dec_def)
  qed
qed

lemma nat_text_hd: "0 < n \<Longrightarrow> nat_text n \<noteq> [] \<and> hd (nat_text n) \<noteq> CHR ''0''"
proof (induction n rule: nat_text.induct)
  case (1 n)
  show ?case
  proof (cases "n < 10")
    case True
    have "code_pt (char_of (48 + n)) \<noteq> code_pt (CHR ''0'')" using True 1(2) by (simp add: code_pt_def)
    then have "char_of (48 + n) \<noteq> CHR ''0''" by metis
    then show ?thesis using True nat_text.simps [of n] by simp
  next
    case False
    then have "nat_text (n div 10) \<noteq> []" "hd (nat_text (n div 10)) \<noteq> CHR ''0''" using 1 by auto
    then show ?thesis using False nat_text.simps [of n] by simp
  qed
qed

lemma nat_text_zero: "nat_text 0 = [CHR ''0'']"
  using nat_text.simps [of 0] by (simp add: char_of_eq_iff code_pt_def)

lemma nat_text_first: "\<exists>c ds. nat_text n = c # ds \<and> is_dec c"
proof (cases "nat_text n")
  case Nil
  then show ?thesis using nat_text_hd [of n] nat_text_zero by (cases "n = 0") auto
next
  case (Cons c ds)
  then show ?thesis using nat_text_dec [of c n] by simp
qed

lemma nat_text_length: "n < 10 ^ k \<Longrightarrow> 0 < k \<Longrightarrow> length (nat_text n) \<le> k"
proof (induction k arbitrary: n)
  case (Suc k)
  show ?case
  proof (cases "n < 10")
    case True
    then show ?thesis using nat_text.simps [of n] by simp
  next
    case False
    then have "0 < k" using Suc.prems(1) by (cases k) auto
    moreover have "n div 10 < 10 ^ k" using Suc.prems(1) by (simp add: less_mult_imp_div_less)
    ultimately show ?thesis using Suc.IH [of "n div 10"] False nat_text.simps [of n] by simp
  qed
qed simp

lemma after_last_inject:
  assumes "a @ c # s = b @ c # t" "c \<notin> set s" "c \<notin> set t"
  shows "s = t"
proof -
  have cut: "takeWhile (\<lambda>x. x \<noteq> c) (rev (a @ c # s)) = rev s" if "c \<notin> set s" for a s
    using that by (simp add: takeWhile_append)
  show ?thesis using cut [OF assms(2), of a] cut [OF assms(3), of b] assms(1) by simp
qed

end
