(* ===== verification/Psl.thy ===== *)
theory Psl
  imports Prelude
begin

text \<open>
  The public suffix list of \<open>pfb_unbound.py\<close>: \<open>PslRules\<close>, the rule parser, and the resolution
  of a name to its public suffix and registrable domain.  \<open>unicode_env\<close> stands for the
  interpreter's Unicode tables (the \<open>idna\<close> codec and \<open>unicodedata\<close>).
\<close>

subsection \<open>Data\<close>

record unicode_env =
  idna_encode :: "nat list \<Rightarrow> string option"
  idna_decode :: "string \<Rightarrow> nat list option"
  category :: "nat \<Rightarrow> string"
  char_name :: "nat \<Rightarrow> string"

type_synonym psl_sets = "string set \<times> string set \<times> string set"

text \<open>\<open>PslRules\<close>; \<open>cached_index\<close> is the \<open>_index\<close> field that \<open>index()\<close> fills on first use.\<close>

record PslRules =
  icann_exact :: "string list"
  icann_wildcard :: "string list"
  icann_exception :: "string list"
  private_exact :: "string list"
  private_wildcard :: "string list"
  private_exception :: "string list"
  cached_index :: "(psl_sets \<times> psl_sets) option"

record PslResolution =
  icann_suffix :: string
  public_suffix :: string
  registrable_domain :: string
  private_active :: bool

definition empty_rules :: PslRules where
  "empty_rules = \<lparr>icann_exact = [], icann_wildcard = [], icann_exception = [],
     private_exact = [], private_wildcard = [], private_exception = [], cached_index = None\<rparr>"

subsection \<open>Membership sets\<close>

definition psl_build_index :: "PslRules \<Rightarrow> psl_sets \<times> psl_sets" where
  "psl_build_index rules =
     ((set (icann_exact rules), set (icann_wildcard rules), set (icann_exception rules)),
      (set (icann_exact rules @ private_exact rules),
       set (icann_wildcard rules @ private_wildcard rules),
       set (icann_exception rules @ private_exception rules)))"

text \<open>\<open>PslRules.index\<close>: the sets, and the instance with the sets held on it.\<close>

definition psl_index :: "PslRules \<Rightarrow> (psl_sets \<times> psl_sets) \<times> PslRules" where
  "psl_index rules = (case cached_index rules of
       Some idx \<Rightarrow> (idx, rules)
     | None \<Rightarrow> (let idx = psl_build_index rules in (idx, rules\<lparr>cached_index := Some idx\<rparr>)))"

text \<open>No caller can construct an instance with an index of its own (\<open>init=False\<close>).\<close>

definition index_fresh :: "PslRules \<Rightarrow> bool" where
  "index_fresh rules \<longleftrightarrow>
     (case cached_index rules of None \<Rightarrow> True | Some idx \<Rightarrow> idx = psl_build_index rules)"

subsection \<open>Normalisation of a rule name\<close>

definition psl_label_chars :: "char set" where
  "psl_label_chars = set ''abcdefghijklmnopqrstuvwxyz0123456789-''"

definition psl_encode_label :: "unicode_env \<Rightarrow> string \<Rightarrow> py_error + string" where
  "psl_encode_label U label =
    (if CHR ''*'' \<in> set label \<or> CHR ''!'' \<in> set label then Inl (ValueError ''invalid DNS label'')
     else if all_ascii label \<and> \<not> prefix ''xn--'' (lower label) then Inr (lower label)
     else if list_ex (\<lambda>c. is_space c \<or> category U (code_pt c) \<in> {''Cc'', ''Cf'', ''Cn''}) label
     then Inl (ValueError ''invalid DNS label'')
     else (case idna_encode U (map code_pt label) of
         None \<Rightarrow> Inl (ValueError ''invalid IDNA label'')
       | Some e \<Rightarrow> (let encoded = lower e in
           if prefix ''xn--'' encoded then
             (case idna_decode U encoded of
                None \<Rightarrow> Inl (ValueError ''invalid IDNA label'')
              | Some d \<Rightarrow> (case idna_encode U d of
                  None \<Rightarrow> Inl (ValueError ''invalid IDNA label'')
                | Some e2 \<Rightarrow> (let canonical = lower e2 in
                    if canonical \<noteq> encoded then Inl (ValueError ''invalid IDNA label'')
                    else Inr encoded)))
           else Inr encoded)))"

definition psl_label_ok :: "string \<Rightarrow> bool" where
  "psl_label_ok encoded \<longleftrightarrow>
     \<not> (encoded = [] \<or> length encoded > 63 \<or> hd encoded = hyphen \<or> last encoded = hyphen
        \<or> \<not> list_all (\<lambda>c. c \<in> psl_label_chars) encoded)"

fun psl_normalize_labels :: "unicode_env \<Rightarrow> string list \<Rightarrow> py_error + string list" where
  "psl_normalize_labels U [] = Inr []"
| "psl_normalize_labels U (label # labels) =
     (case psl_encode_label U label of
        Inl e \<Rightarrow> Inl e
      | Inr encoded \<Rightarrow>
          if \<not> psl_label_ok encoded then Inl (ValueError ''invalid DNS label'')
          else (case psl_normalize_labels U labels of
                  Inl e \<Rightarrow> Inl e
                | Inr rest \<Rightarrow> Inr (encoded # rest)))"

definition psl_normalize_name :: "unicode_env \<Rightarrow> string \<Rightarrow> py_error + string" where
  "psl_normalize_name U name =
    (let labels = split_on dot name in
     if name = [] \<or> list_ex (\<lambda>l. l = []) labels \<or> utf8_len name > 253
     then Inl (ValueError ''invalid DNS name'')
     else (case psl_normalize_labels U labels of
         Inl e \<Rightarrow> Inl e
       | Inr normalized \<Rightarrow> (let result = join_with dot normalized in
           if length result > 253 then Inl (ValueError ''invalid DNS name'') else Inr result)))"

subsection \<open>Parsing the authority\<close>

datatype psl_kind = Exact | Wildcard | Exception

definition psl_rule_token :: "unicode_env \<Rightarrow> string \<Rightarrow> py_error + (psl_kind \<times> string)" where
  "psl_rule_token U raw =
    (let token = (if strip raw \<noteq> [] then hd (split_ws1 (strip raw)) else []) in
     if token = [] \<or> prefix ''#'' token \<or> prefix ''//'' token
     then Inl (ValueError ''not a rule'')
     else
      (let bare_bad = (CHR ''*'' \<in> set token \<or> CHR ''!'' \<in> set token);
           (kind, tok) =
             (if prefix ''!'' token then (Exception, drop 1 token)
              else if prefix ''*.'' token then (Wildcard, drop 2 token)
              else (Exact, token)) in
       if kind = Exact \<and> bare_bad then Inl (ValueError ''invalid PSL rule'')
       else if tok = [] \<or> prefix ''.'' tok \<or> suffix ''.'' tok \<or> occurs_in ''..'' tok
       then Inl (ValueError ''invalid PSL rule'')
       else (case psl_normalize_name U tok of
           Inl e \<Rightarrow> Inl e
         | Inr n \<Rightarrow> Inr (kind, n))))"

fun psl_collect ::
  "unicode_env \<Rightarrow> string list \<Rightarrow> py_error + (string list \<times> string list \<times> string list)" where
  "psl_collect U [] = Inr ([], [], [])"
| "psl_collect U (line # lines) =
     (let stripped = strip line in
      if stripped = [] \<or> prefix ''#'' stripped \<or> prefix ''//'' stripped then psl_collect U lines
      else (case psl_rule_token U stripped of
          Inl e \<Rightarrow> Inl e
        | Inr (kind, token) \<Rightarrow> (case psl_collect U lines of
            Inl e \<Rightarrow> Inl e
          | Inr (exact, wildcard, exceptn) \<Rightarrow>
              Inr (case kind of
                  Exact \<Rightarrow> (token # exact, wildcard, exceptn)
                | Wildcard \<Rightarrow> (exact, token # wildcard, exceptn)
                | Exception \<Rightarrow> (exact, wildcard, token # exceptn)))))"

definition psl_section ::
  "unicode_env \<Rightarrow> string list \<Rightarrow> py_error + (string list \<times> string list \<times> string list)" where
  "psl_section U lines = (case psl_collect U lines of
       Inl e \<Rightarrow> Inl e
     | Inr (exact, wildcard, exceptn) \<Rightarrow>
         if list_ex (\<lambda>rule. dot \<notin> set rule
              \<or> join_with dot (tl (split_on dot rule)) \<notin> set wildcard) exceptn
         then Inl (ValueError ''PSL exception has no wildcard family'')
         else Inr (exact, wildcard, exceptn))"

definition psl_markers :: "string list" where
  "psl_markers =
    [''// ===BEGIN ICANN DOMAINS==='', ''// ===END ICANN DOMAINS==='',
     ''// ===BEGIN PRIVATE DOMAINS==='', ''// ===END PRIVATE DOMAINS==='']"

definition marker_hits :: "string list \<Rightarrow> string \<Rightarrow> nat list" where
  "marker_hits lines marker = filter (\<lambda>i. strip (lines ! i) = marker) [0..<length lines]"

definition parse_psl_rules :: "unicode_env \<Rightarrow> string \<Rightarrow> py_error + PslRules" where
  "parse_psl_rules U text =
    (let lines = splitlines text; found = map (marker_hits lines) psl_markers in
     if list_ex (\<lambda>hits. length hits \<noteq> 1) found
     then Inl (ValueError ''PSL authority markers missing or duplicated'')
     else
      (let icann_begin = hd (found ! 0); icann_end = hd (found ! 1);
           private_begin = hd (found ! 2); private_end = hd (found ! 3) in
       if \<not> (icann_begin < icann_end \<and> icann_end < private_begin \<and> private_begin < private_end)
       then Inl (ValueError ''PSL authority markers out of order'')
       else (case psl_section U (take (icann_end - (icann_begin + 1)) (drop (icann_begin + 1) lines)) of
           Inl e \<Rightarrow> Inl e
         | Inr (ie, iw, ix) \<Rightarrow>
           (case psl_section U
               (take (private_end - (private_begin + 1)) (drop (private_begin + 1) lines)) of
              Inl e \<Rightarrow> Inl e
            | Inr (pe, pw, px) \<Rightarrow>
                Inr \<lparr>icann_exact = ie, icann_wildcard = iw, icann_exception = ix,
                  private_exact = pe, private_wildcard = pw, private_exception = px,
                  cached_index = None\<rparr>))))"

subsection \<open>The prevailing rule\<close>

text \<open>Every dotted suffix of the labels, longest first.\<close>

definition psl_tails :: "string list \<Rightarrow> string list" where
  "psl_tails labels =
     foldr (\<lambda>label tails. (label @ dot # hd tails) # tails) (butlast labels) [last labels]"

record psl_walk_state =
  w_icann :: "string option"
  w_public :: "string option"
  w_icann_carved :: bool
  w_public_carved :: bool

text \<open>One iteration of the walk; \<open>prev\<close> is \<open>tails[start - 1]\<close>, absent at \<open>start = 0\<close>, and \<open>carved\<close>
  is \<open>tails[start + 1]\<close>, empty at the end.\<close>

definition psl_carve :: "string set \<Rightarrow> string set \<Rightarrow> string \<Rightarrow> string \<Rightarrow> psl_walk_state \<Rightarrow> psl_walk_state"
  where
  "psl_carve icann_exc public_exc tail carved w0 =
    (if tail \<in> public_exc then
       (let w1 = (if \<not> w_public_carved w0
                  then w0\<lparr>w_public := Some carved, w_public_carved := True\<rparr> else w0) in
        if \<not> w_icann_carved w1 \<and> tail \<in> icann_exc
        then w1\<lparr>w_icann := Some carved, w_icann_carved := True\<rparr> else w1)
     else w0)"

definition psl_ordinary ::
  "string set \<Rightarrow> string set \<Rightarrow> string option \<Rightarrow> string \<Rightarrow> string option \<Rightarrow> string option" where
  "psl_ordinary exact wild prev tail found =
    (if found = None then
       (if prev \<noteq> None \<and> tail \<in> wild then prev
        else if tail \<in> exact then Some tail else found)
     else found)"

definition psl_step ::
  "psl_sets \<Rightarrow> psl_sets \<Rightarrow> string option \<Rightarrow> string \<Rightarrow> string \<Rightarrow> psl_walk_state \<Rightarrow> psl_walk_state" where
  "psl_step icann public prev tail carved w0 =
    (let (icann_ex, icann_wild, icann_exc) = icann; (public_ex, public_wild, public_exc) = public;
         w1 = psl_carve icann_exc public_exc tail carved w0;
         w2 = w1\<lparr>w_icann := psl_ordinary icann_ex icann_wild prev tail (w_icann w1)\<rparr>
     in w2\<lparr>w_public := psl_ordinary public_ex public_wild prev tail (w_public w2)\<rparr>)"

fun psl_walk ::
  "psl_sets \<Rightarrow> psl_sets \<Rightarrow> string option \<Rightarrow> string list \<Rightarrow> psl_walk_state \<Rightarrow> psl_walk_state" where
  "psl_walk icann public prev [] w = w"
| "psl_walk icann public prev (tail # rest) w =
     psl_walk icann public (Some tail) rest
       (psl_step icann public prev tail (case rest of [] \<Rightarrow> [] | t # _ \<Rightarrow> t) w)"

definition psl_prevailing :: "string list \<Rightarrow> psl_sets \<Rightarrow> psl_sets \<Rightarrow> string \<times> string" where
  "psl_prevailing labels icann_sets combined_sets =
    (let tails = psl_tails labels;
         w = psl_walk icann_sets combined_sets None tails
           \<lparr>w_icann = None, w_public = None, w_icann_carved = False, w_public_carved = False\<rparr> in
     (case w_icann w of None \<Rightarrow> last tails | Some s \<Rightarrow> s,
      case w_public w of None \<Rightarrow> last tails | Some s \<Rightarrow> s))"

text \<open>\<open>labels[-n:]\<close>.\<close>

definition last_n :: "nat \<Rightarrow> 'a list \<Rightarrow> 'a list" where
  "last_n n xs = drop (length xs - n) xs"

definition registrable_of :: "string list \<Rightarrow> string \<Rightarrow> string" where
  "registrable_of labels suffix_name =
    (let suffix_labels = split_on dot suffix_name in
     if length labels > length suffix_labels
     then join_with dot (last_n (length suffix_labels + 1) labels) else [])"

definition resolve_public_suffix :: "unicode_env \<Rightarrow> string \<Rightarrow> PslRules \<Rightarrow> py_error + PslResolution"
  where
  "resolve_public_suffix U name rules = (case psl_normalize_name U name of
       Inl e \<Rightarrow> Inl e
     | Inr normalized \<Rightarrow>
        (let labels = split_on dot normalized;
             (icann_sets, combined_sets) = fst (psl_index rules);
             (icann_s, public_s) = psl_prevailing labels icann_sets combined_sets in
         Inr \<lparr>icann_suffix = icann_s, public_suffix = public_s,
           registrable_domain = registrable_of labels public_s,
           private_active = length (split_on dot public_s) > length (split_on dot icann_s)\<rparr>))"

subsection \<open>The index held on the instance\<close>

lemma index_fresh_parse: "parse_psl_rules U text = Inr rules \<Longrightarrow> index_fresh rules"
  by (auto simp: parse_psl_rules_def Let_def index_fresh_def split: if_splits sum.splits prod.splits)

lemma index_fresh_empty [simp]: "index_fresh empty_rules"
  by (simp add: index_fresh_def empty_rules_def)

lemma psl_build_index_cached [simp]: "psl_build_index (rules\<lparr>cached_index := c\<rparr>) = psl_build_index rules"
  by (simp add: psl_build_index_def)

lemma psl_index_fresh:
  assumes "index_fresh rules"
  shows "fst (psl_index rules) = psl_build_index rules" and "index_fresh (snd (psl_index rules))"
  using assms by (auto simp: psl_index_def index_fresh_def Let_def split: option.splits)

subsection \<open>The walk against the published algorithm\<close>

text \<open>
  The algorithm of publicsuffix.org for one rule set: an exception rule wins over every other,
  and its suffix loses the rule's leftmost label; otherwise the longest match wins, a wildcard
  matching one label more than its base; with no match the last label is the suffix.
\<close>

definition suffix_at :: "string list \<Rightarrow> nat \<Rightarrow> string" where
  "suffix_at labels i = join_with dot (drop i labels)"

definition psl_reference :: "psl_sets \<Rightarrow> string list \<Rightarrow> string" where
  "psl_reference sets labels =
    (let (ex, wild, exc) = sets; n = length labels in
     case find (\<lambda>i. suffix_at labels i \<in> exc) [0..<n] of
       Some i \<Rightarrow> suffix_at labels (Suc i)
     | None \<Rightarrow>
        (case find (\<lambda>i. suffix_at labels i \<in> ex
              \<or> (Suc i < n \<and> suffix_at labels (Suc i) \<in> wild)) [0..<n] of
           Some i \<Rightarrow> suffix_at labels i
         | None \<Rightarrow> last labels))"

fun exc_hit :: "string set \<Rightarrow> string list \<Rightarrow> string option" where
  "exc_hit exc [] = None"
| "exc_hit exc (t # ts) =
     (if t \<in> exc then Some (case ts of [] \<Rightarrow> [] | u # _ \<Rightarrow> u) else exc_hit exc ts)"

fun ord_hit :: "string set \<Rightarrow> string set \<Rightarrow> string option \<Rightarrow> string list \<Rightarrow> string option" where
  "ord_hit ex wild prev [] = None"
| "ord_hit ex wild prev (t # ts) =
     (if prev \<noteq> None \<and> t \<in> wild then prev
      else if t \<in> ex then Some t
      else ord_hit ex wild (Some t) ts)"

lemma psl_carve_fields [simp]:
  "w_public (psl_carve ix px t c w) =
     (if t \<in> px \<and> \<not> w_public_carved w then Some c else w_public w)"
  "w_public_carved (psl_carve ix px t c w) \<longleftrightarrow> w_public_carved w \<or> t \<in> px"
  "w_icann (psl_carve ix px t c w) =
     (if t \<in> px \<and> t \<in> ix \<and> \<not> w_icann_carved w then Some c else w_icann w)"
  "w_icann_carved (psl_carve ix px t c w) \<longleftrightarrow> w_icann_carved w \<or> (t \<in> px \<and> t \<in> ix)"
  by (simp_all add: psl_carve_def Let_def)

lemma psl_step_public:
  "w_public (psl_step I (pe, pw, px) prev t c w) =
     psl_ordinary pe pw prev t (if t \<in> px \<and> \<not> w_public_carved w then Some c else w_public w)"
  "w_public_carved (psl_step I (pe, pw, px) prev t c w) \<longleftrightarrow> w_public_carved w \<or> t \<in> px"
  by (cases I; simp add: psl_step_def Let_def del: psl_carve_fields(3,4))+

lemma psl_step_icann:
  "w_icann (psl_step (ie, iw, ix) (pe, pw, px) prev t c w) =
     psl_ordinary ie iw prev t (if t \<in> px \<and> t \<in> ix \<and> \<not> w_icann_carved w then Some c else w_icann w)"
  "w_icann_carved (psl_step (ie, iw, ix) (pe, pw, px) prev t c w) \<longleftrightarrow>
     w_icann_carved w \<or> (t \<in> px \<and> t \<in> ix)"
  by (simp_all add: psl_step_def Let_def del: psl_carve_fields(1,2))

lemma psl_ordinary_Some [simp]: "psl_ordinary ex wild prev t (Some s) = Some s"
  by (simp add: psl_ordinary_def)

lemma psl_ordinary_None:
  "psl_ordinary ex wild prev t None = None \<Longrightarrow> ord_hit ex wild prev (t # ts) = ord_hit ex wild (Some t) ts"
  "psl_ordinary ex wild prev t None = Some s \<Longrightarrow> ord_hit ex wild prev (t # ts) = Some s"
  by (auto simp: psl_ordinary_def split: if_splits)

lemma psl_walk_public:
  "(w_public_carved w \<Longrightarrow> w_public w \<noteq> None) \<Longrightarrow>
   w_public (psl_walk I (pe, pw, px) prev ts w) =
     (if w_public_carved w then w_public w
      else (case exc_hit px ts of Some c \<Rightarrow> Some c
        | None \<Rightarrow> if w_public w \<noteq> None then w_public w else ord_hit pe pw prev ts))"
proof (induction ts arbitrary: prev w)
  case Nil
  then show ?case by auto
next
  case (Cons t ts)
  let ?w = "psl_step I (pe, pw, px) prev t (case ts of [] \<Rightarrow> [] | u # _ \<Rightarrow> u) w"
  have "w_public_carved ?w \<Longrightarrow> w_public ?w \<noteq> None"
    using Cons.prems by (auto simp: psl_step_public)
  note ih = Cons.IH [OF this, of "Some t"]
  show ?case
  proof (cases "w_public_carved w \<or> t \<in> px \<or> w_public w \<noteq> None")
    case True
    with Cons.prems ih show ?thesis
      by (cases "exc_hit px ts"; cases "w_public w"; cases "w_public_carved w"; cases "t \<in> px";
          simp add: psl_step_public)
  next
    case False
    with ih show ?thesis
      by (cases "exc_hit px ts"; cases "psl_ordinary pe pw prev t None")
        (simp_all add: psl_step_public psl_ordinary_None del: ord_hit.simps)
  qed
qed

lemma psl_walk_icann:
  "ix \<subseteq> px \<Longrightarrow> (w_icann_carved w \<Longrightarrow> w_icann w \<noteq> None) \<Longrightarrow>
   w_icann (psl_walk (ie, iw, ix) (pe, pw, px) prev ts w) =
     (if w_icann_carved w then w_icann w
      else (case exc_hit ix ts of Some c \<Rightarrow> Some c
        | None \<Rightarrow> if w_icann w \<noteq> None then w_icann w else ord_hit ie iw prev ts))"
proof (induction ts arbitrary: prev w)
  case Nil
  then show ?case by auto
next
  case (Cons t ts)
  let ?w = "psl_step (ie, iw, ix) (pe, pw, px) prev t (case ts of [] \<Rightarrow> [] | u # _ \<Rightarrow> u) w"
  have sub: "t \<in> px" if "t \<in> ix" using Cons.prems(1) that by blast
  have "w_icann_carved ?w \<Longrightarrow> w_icann ?w \<noteq> None"
    using Cons.prems by (auto simp: psl_step_icann)
  note ih = Cons.IH [OF Cons.prems(1) this, of "Some t"]
  show ?case
  proof (cases "w_icann_carved w \<or> t \<in> ix \<or> w_icann w \<noteq> None")
    case True
    with Cons.prems(2) ih sub show ?thesis
      by (cases "exc_hit ix ts"; cases "w_icann w"; cases "w_icann_carved w"; cases "t \<in> ix";
          simp add: psl_step_icann)
  next
    case False
    with ih show ?thesis
      by (cases "exc_hit ix ts"; cases "psl_ordinary ie iw prev t None")
        (simp_all add: psl_step_icann psl_ordinary_None del: ord_hit.simps)
  qed
qed

lemma psl_tails_suffixes:
  "labels \<noteq> [] \<Longrightarrow> psl_tails labels = map (suffix_at labels) [0..<length labels]"
proof (induction labels)
  case Nil
  then show ?case by simp
next
  case (Cons l ls)
  show ?case
  proof (cases ls)
    case Nil
    then show ?thesis by (simp add: psl_tails_def suffix_at_def)
  next
    case (Cons m ms)
    have shift: "map (suffix_at (l # ls)) [Suc 0..<length (l # ls)] = map (suffix_at ls) [0..<length ls]"
      by (simp add: map_upt_Suc suffix_at_def flip: map_Suc_upt del: upt_Suc)
    have "psl_tails (l # ls) = (l @ dot # hd (psl_tails ls)) # psl_tails ls"
      using Cons by (simp add: psl_tails_def)
    also have "psl_tails ls = map (suffix_at ls) [0..<length ls]"
      using Cons Cons.IH by simp
    also have "l @ dot # hd (map (suffix_at ls) [0..<length ls]) = suffix_at (l # ls) 0"
      using Cons by (simp add: suffix_at_def upt_conv_Cons join_Cons del: upt_Suc)
    finally show ?thesis
      using shift by (simp add: upt_conv_Cons del: upt_Suc)
  qed
qed

lemma exc_hit_find:
  "k \<le> length labels \<Longrightarrow>
   exc_hit exc (map (suffix_at labels) [k..<length labels]) =
   map_option (\<lambda>i. suffix_at labels (Suc i))
     (find (\<lambda>i. suffix_at labels i \<in> exc) [k..<length labels])"
proof (induction "length labels - k" arbitrary: k)
  case 0
  then show ?case by simp
next
  case (Suc d)
  then have lt: "k < length labels" by simp
  from Suc have IH: "exc_hit exc (map (suffix_at labels) [Suc k..<length labels]) =
      map_option (\<lambda>i. suffix_at labels (Suc i))
        (find (\<lambda>i. suffix_at labels i \<in> exc) [Suc k..<length labels])"
    by simp
  have nxt: "(case map (suffix_at labels) [Suc k..<length labels] of [] \<Rightarrow> [] | u # _ \<Rightarrow> u)
      = suffix_at labels (Suc k)"
    using lt by (cases "Suc k < length labels") (auto simp: upt_conv_Cons suffix_at_def)
  from lt IH nxt show ?case by (simp add: upt_conv_Cons)
qed

lemma ord_hit_find:
  "k \<le> length labels \<Longrightarrow>
   ord_hit ex wild (if k = 0 then None else Some (suffix_at labels (k - 1)))
     (map (suffix_at labels) [k..<length labels]) =
   (if 0 < k \<and> k < length labels \<and> suffix_at labels k \<in> wild then Some (suffix_at labels (k - 1))
    else map_option (suffix_at labels)
      (find (\<lambda>i. suffix_at labels i \<in> ex \<or> (Suc i < length labels \<and> suffix_at labels (Suc i) \<in> wild))
        [k..<length labels]))"
proof (induction "length labels - k" arbitrary: k)
  case 0
  then show ?case by simp
next
  case (Suc d)
  then have lt: "k < length labels" by simp
  from Suc(1) [of "Suc k"] Suc(2,3) lt show ?case by (auto simp: upt_conv_Cons)
qed

lemma psl_prevailing_reference:
  assumes ne: "labels \<noteq> []" and sub: "ix \<subseteq> px"
  shows "psl_prevailing labels (ie, iw, ix) (pe, pw, px) =
     (psl_reference (ie, iw, ix) labels, psl_reference (pe, pw, px) labels)"
proof -
  have lst: "last (psl_tails labels) = last labels"
    using ne by (cases labels rule: rev_cases) (simp_all add: psl_tails_suffixes suffix_at_def)
  let ?w0 = "\<lparr>w_icann = None, w_public = None, w_icann_carved = False, w_public_carved = False\<rparr>"
  let ?w = "psl_walk (ie, iw, ix) (pe, pw, px) None (psl_tails labels) ?w0"
  let ?t = "psl_tails labels"
  have "w_public ?w = (case exc_hit px ?t of Some c \<Rightarrow> Some c | None \<Rightarrow> ord_hit pe pw None ?t)"
    by (subst psl_walk_public) (simp_all split: option.split)
  then have pub: "(case w_public ?w of None \<Rightarrow> last ?t | Some s \<Rightarrow> s) = psl_reference (pe, pw, px) labels"
    using lst ne exc_hit_find [of 0 labels px] ord_hit_find [of 0 labels pe pw]
    by (auto simp: psl_tails_suffixes psl_reference_def Let_def split: option.split)
  have "w_icann ?w = (case exc_hit ix ?t of Some c \<Rightarrow> Some c | None \<Rightarrow> ord_hit ie iw None ?t)"
    by (subst psl_walk_icann [OF sub]) (simp_all split: option.split)
  then have ica: "(case w_icann ?w of None \<Rightarrow> last ?t | Some s \<Rightarrow> s) = psl_reference (ie, iw, ix) labels"
    using lst ne exc_hit_find [of 0 labels ix] ord_hit_find [of 0 labels ie iw]
    by (auto simp: psl_tails_suffixes psl_reference_def Let_def split: option.split)
  show ?thesis
    using pub ica by (simp add: psl_prevailing_def Let_def)
qed

subsection \<open>Normalised names\<close>

definition psl_name_valid :: "string \<Rightarrow> bool" where
  "psl_name_valid n \<longleftrightarrow> n \<noteq> [] \<and> length n \<le> 253 \<and> list_all psl_label_ok (split_on dot n)"

text \<open>What the code relies on of the interpreter: the \<open>idna\<close> codec returns an ASCII label of 1 to
  63 octets as it is, and no character of a label is a control or unassigned code point.\<close>

definition idna_ascii_identity :: "unicode_env \<Rightarrow> bool" where
  "idna_ascii_identity U \<longleftrightarrow>
     (\<forall>l. all_ascii l \<longrightarrow> l \<noteq> [] \<longrightarrow> length l \<le> 63 \<longrightarrow> idna_encode U (map code_pt l) = Some l)
     \<and> (\<forall>c \<in> psl_label_chars. category U (code_pt c) \<notin> {''Cc'', ''Cf'', ''Cn''})"

lemma psl_label_char:
  assumes "c \<in> psl_label_chars"
  shows "lower_char c = c" "is_ascii c" "c \<noteq> dot" "c \<noteq> CHR ''*''" "c \<noteq> CHR ''!''" "\<not> is_space c"
  using assms
  by (auto simp: psl_label_chars_def lower_char_def is_ascii_def is_space_def code_pt_def)

lemma psl_label_chars_lower:
  assumes "list_all (\<lambda>c. c \<in> psl_label_chars) e"
  shows "lower e = e" "all_ascii e" "dot \<notin> set e" "CHR ''*'' \<notin> set e" "CHR ''!'' \<notin> set e"
    "\<not> list_ex is_space e"
proof -
  have *: "\<And>c. c \<in> set e \<Longrightarrow> c \<in> psl_label_chars" using assms by (simp add: list_all_iff)
  show "lower e = e" unfolding lower_def by (intro map_idI psl_label_char(1) *)
  show "all_ascii e" unfolding all_ascii_def list_all_iff by (intro ballI psl_label_char(2) *)
  show "dot \<notin> set e" "CHR ''*'' \<notin> set e" "CHR ''!'' \<notin> set e"
    using * psl_label_char(3-5) by blast+
  show "\<not> list_ex is_space e" unfolding list_ex_iff using * psl_label_char(6) by blast
qed

lemma psl_label_okD:
  assumes "psl_label_ok e"
  shows "e \<noteq> []" "length e \<le> 63" "lower e = e" "all_ascii e" "dot \<notin> set e"
    "CHR ''*'' \<notin> set e" "CHR ''!'' \<notin> set e" "\<not> list_ex is_space e"
    "list_all (\<lambda>c. c \<in> psl_label_chars) e"
  using assms psl_label_chars_lower [of e] by (simp_all add: psl_label_ok_def)

lemma psl_normalize_labels_ok:
  "psl_normalize_labels U labels = Inr ns \<Longrightarrow>
     list_all psl_label_ok ns \<and> length ns = length labels"
  by (induction U labels arbitrary: ns rule: psl_normalize_labels.induct)
    (auto split: sum.splits if_splits)

lemma psl_normalize_nameD:
  assumes "psl_normalize_name U name = Inr n"
  obtains ns where "psl_normalize_labels U (split_on dot name) = Inr ns" "n = join_with dot ns"
    "split_on dot n = ns" "ns \<noteq> []" "length n \<le> 253" "list_all psl_label_ok ns"
proof -
  from assms obtain ns where ns: "psl_normalize_labels U (split_on dot name) = Inr ns"
    "n = join_with dot ns" "length n \<le> 253"
    by (auto simp: psl_normalize_name_def Let_def split: if_splits sum.splits)
  from psl_normalize_labels_ok [OF ns(1)] have ok: "list_all psl_label_ok ns" "ns \<noteq> []"
    by (simp, metis length_0_conv split_on_ne)
  then have "split_on dot n = ns"
    unfolding ns(2) by (intro split_join) (auto simp: list_all_iff dest: psl_label_okD(5))
  with ns ok show thesis by (intro that)
qed

lemma psl_normalize_valid:
  assumes "psl_normalize_name U name = Inr n"
  shows "psl_name_valid n"
  using assms
proof (rule psl_normalize_nameD)
  fix ns assume "n = join_with dot ns" "split_on dot n = ns" "length n \<le> 253" "list_all psl_label_ok ns"
    "ns \<noteq> []"
  moreover then have "n \<noteq> []" by (cases ns; cases "tl ns") (auto dest: psl_label_okD(1))
  ultimately show ?thesis by (simp add: psl_name_valid_def)
qed

lemma psl_encode_idem:
  assumes codec: "idna_ascii_identity U" and enc: "psl_encode_label U l = Inr e"
    and ok: "psl_label_ok e"
  shows "psl_encode_label U e = Inr e"
proof (cases "prefix ''xn--'' e")
  case False
  with psl_label_okD [OF ok] show ?thesis by (simp add: psl_encode_label_def)
next
  case True
  note D = psl_label_okD [OF ok]
  from enc True obtain d e2 where d: "idna_decode U e = Some d" "idna_encode U d = Some e2"
    "lower e2 = e"
    by (auto simp: psl_encode_label_def Let_def split: if_splits option.splits)
  have "idna_encode U (map code_pt e) = Some e"
    using codec D by (simp add: idna_ascii_identity_def)
  moreover have "\<not> list_ex (\<lambda>c. is_space c \<or> category U (code_pt c) \<in> {''Cc'', ''Cf'', ''Cn''}) e"
    using codec D(8,9) by (auto simp: idna_ascii_identity_def list_ex_iff list_all_iff)
  ultimately show ?thesis
    using True D d by (simp add: psl_encode_label_def)
qed

lemma psl_normalize_labels_idem:
  assumes codec: "idna_ascii_identity U"
  shows "psl_normalize_labels U ls = Inr ns \<Longrightarrow> psl_normalize_labels U ns = Inr ns"
proof (induction ls arbitrary: ns)
  case Nil
  then show ?case by simp
next
  case (Cons l ls)
  then obtain e rest where e: "psl_encode_label U l = Inr e" "psl_label_ok e"
    "psl_normalize_labels U ls = Inr rest" "ns = e # rest"
    by (auto split: sum.splits if_splits)
  with Cons.IH [OF e(3)] psl_encode_idem [OF codec e(1,2)] show ?case by simp
qed

lemma utf8_len_ascii: "all_ascii s \<Longrightarrow> utf8_len s = length s"
  by (induction s) (auto simp: utf8_len_def all_ascii_def)

lemma all_ascii_join: "list_all all_ascii ps \<Longrightarrow> all_ascii (join_with dot ps)"
  by (induction dot ps rule: join_with.induct) (auto simp: all_ascii_def is_ascii_def code_pt_def)

lemma psl_normalize_idem:
  assumes codec: "idna_ascii_identity U" and n: "psl_normalize_name U name = Inr n"
  shows "psl_normalize_name U n = Inr n"
  using n
proof (rule psl_normalize_nameD)
  fix ns
  assume ns: "psl_normalize_labels U (split_on dot name) = Inr ns" "n = join_with dot ns"
    "split_on dot n = ns" "ns \<noteq> []" "length n \<le> 253" "list_all psl_label_ok ns"
  have "n \<noteq> []" using psl_normalize_valid [OF n] by (simp add: psl_name_valid_def)
  moreover have "utf8_len n = length n"
    using ns(6) unfolding ns(2)
    by (intro utf8_len_ascii all_ascii_join) (auto simp: list_all_iff dest: psl_label_okD(4))
  moreover have "\<not> list_ex (\<lambda>l. l = []) ns"
    using ns(6) by (auto simp: list_ex_iff list_all_iff dest: psl_label_okD(1))
  moreover have "psl_normalize_labels U ns = Inr ns"
    using psl_normalize_labels_idem [OF codec ns(1)] .
  ultimately show ?thesis
    using ns by (simp add: psl_normalize_name_def)
qed

subsection \<open>The registrable domain\<close>

text \<open>Every exception rule the parser accepts names at least two labels.\<close>

definition rules_ok :: "PslRules \<Rightarrow> bool" where
  "rules_ok rules \<longleftrightarrow> index_fresh rules
     \<and> (\<forall>e \<in> set (icann_exception rules @ private_exception rules). dot \<in> set e)"

lemma psl_section_exceptions:
  "psl_section U ls = Inr (ex, wild, exc) \<Longrightarrow>
     e \<in> set exc \<Longrightarrow> dot \<in> set e \<and> join_with dot (tl (split_on dot e)) \<in> set wild"
  by (auto simp: psl_section_def list_ex_iff split: sum.splits if_splits)

lemma rules_ok_parse:
  assumes "parse_psl_rules U auth = Inr rules"
  shows "rules_ok rules"
proof -
  from assms obtain a b ie iw ix pe pw px where
    "psl_section U a = Inr (ie, iw, ix)" "psl_section U b = Inr (pe, pw, px)"
    "icann_exception rules = ix" "private_exception rules = px"
    by (auto simp: parse_psl_rules_def Let_def split: if_splits sum.splits prod.splits)
  with index_fresh_parse [OF assms] psl_section_exceptions show ?thesis
    by (auto simp: rules_ok_def)
qed

lemma rules_ok_empty [simp]: "rules_ok empty_rules"
  by (simp add: rules_ok_def) (simp add: empty_rules_def)

lemma suffix_at_dots:
  assumes nodot: "\<And>l. l \<in> set labels \<Longrightarrow> dot \<notin> set l" and has: "dot \<in> set (suffix_at labels i)"
  shows "Suc i < length labels"
proof (rule ccontr)
  assume "\<not> Suc i < length labels"
  then have le: "length (drop i labels) \<le> Suc 0" by simp
  have "\<And>l. l \<in> set (drop i labels) \<Longrightarrow> dot \<notin> set l" using nodot by (blast dest: in_set_dropD)
  with le has show False
    by (cases "drop i labels"; cases "tl (drop i labels)") (auto simp: suffix_at_def)
qed

lemma psl_reference_at:
  assumes ne: "labels \<noteq> []" and nodot: "\<And>l. l \<in> set labels \<Longrightarrow> dot \<notin> set l"
    and exc: "\<And>e. e \<in> exc \<Longrightarrow> dot \<in> set e"
  obtains i where "i < length labels" "psl_reference (ex, wild, exc) labels = suffix_at labels i"
proof (cases "find (\<lambda>i. suffix_at labels i \<in> exc) [0..<length labels]")
  case (Some i)
  then have "suffix_at labels i \<in> exc" by (auto simp: find_Some_iff)
  then have "Suc i < length labels" by (intro suffix_at_dots [OF nodot] exc)
  with Some that show thesis by (simp add: psl_reference_def)
next
  case None
  note no_exc = this
  let ?m = "\<lambda>i. suffix_at labels i \<in> ex \<or> (Suc i < length labels \<and> suffix_at labels (Suc i) \<in> wild)"
  show thesis
  proof (cases "find ?m [0..<length labels]")
    case (Some i)
    then have "i < length labels" by (auto simp: find_Some_iff)
    with Some no_exc that show thesis by (simp add: psl_reference_def)
  next
    case None
    have "last labels = suffix_at labels (length labels - 1)"
      using ne by (cases labels rule: rev_cases) (simp_all add: suffix_at_def)
    with None no_exc ne that [of "length labels - 1"] show thesis by (simp add: psl_reference_def)
  qed
qed

lemma suffix_at_pred:
  assumes "0 < i" "i < length labels"
  shows "suffix_at labels (i - 1) = labels ! (i - 1) @ dot # suffix_at labels i"
proof -
  have "drop (i - 1) labels = labels ! (i - 1) # drop i labels"
    using assms by (metis Cons_nth_drop_Suc Suc_diff_1 less_imp_diff_less)
  then show ?thesis using assms(2) by (simp add: suffix_at_def join_Cons)
qed

lemma registrable_of_suffix:
  assumes "i < length labels" "\<And>l. l \<in> set labels \<Longrightarrow> dot \<notin> set l"
  shows "registrable_of labels (suffix_at labels i) =
    (if i = 0 then [] else labels ! (i - 1) @ dot # suffix_at labels i)"
proof -
  have "split_on dot (suffix_at labels i) = drop i labels"
    unfolding suffix_at_def using assms by (intro split_join) (auto dest: in_set_dropD)
  with assms(1) suffix_at_pred [of i labels] show ?thesis
    by (auto simp: registrable_of_def last_n_def suffix_at_def)
qed

lemma resolve_unfold:
  assumes "index_fresh rules" "psl_normalize_name U name = Inr n"
  shows "resolve_public_suffix U name rules =
    (let labels = split_on dot n;
         icann_s = psl_reference (fst (psl_build_index rules)) labels;
         public_s = psl_reference (snd (psl_build_index rules)) labels in
     Inr \<lparr>icann_suffix = icann_s, public_suffix = public_s,
       registrable_domain = registrable_of labels public_s,
       private_active = length (split_on dot public_s) > length (split_on dot icann_s)\<rparr>)"
  using assms psl_prevailing_reference [OF split_on_ne, of "set (icann_exception rules)"
      "set (icann_exception rules @ private_exception rules)"]
  by (simp add: resolve_public_suffix_def psl_index_fresh psl_build_index_def Let_def)

lemma resolve_fields:
  assumes "index_fresh rules" "psl_normalize_name U name = Inr n"
    "resolve_public_suffix U name rules = Inr r"
  shows "public_suffix r = psl_reference (snd (psl_build_index rules)) (split_on dot n)"
    "registrable_domain r = registrable_of (split_on dot n) (public_suffix r)"
  using assms(3) unfolding resolve_unfold [OF assms(1,2)] Let_def sum.inject by auto

lemma resolve_errors:
  "psl_normalize_name U name = Inl e \<Longrightarrow> resolve_public_suffix U name rules = Inl e"
  by (simp add: resolve_public_suffix_def)

lemma resolve_cases:
  assumes "rules_ok rules" "resolve_public_suffix U name rules = Inr r"
  obtains n i where "psl_normalize_name U name = Inr n" "i < length (split_on dot n)"
    "public_suffix r = suffix_at (split_on dot n) i"
    "registrable_domain r = registrable_of (split_on dot n) (suffix_at (split_on dot n) i)"
proof -
  from assms(2) obtain n where n: "psl_normalize_name U name = Inr n"
    by (cases "psl_normalize_name U name") (auto simp: resolve_errors)
  have fresh: "index_fresh rules" using assms(1) by (simp add: rules_ok_def)
  have exc: "\<And>e. e \<in> set (icann_exception rules @ private_exception rules) \<Longrightarrow> dot \<in> set e"
    using assms(1) by (simp add: rules_ok_def)
  obtain i where i: "i < length (split_on dot n)"
    "psl_reference (snd (psl_build_index rules)) (split_on dot n) = suffix_at (split_on dot n) i"
    using psl_reference_at [where labels = "split_on dot n"
        and exc = "set (icann_exception rules @ private_exception rules)"
        and ex = "set (icann_exact rules @ private_exact rules)"
        and wild = "set (icann_wildcard rules @ private_wildcard rules)",
        OF split_on_ne split_on_no_sep [of _ dot n] exc]
    by (auto simp: psl_build_index_def)
  note f = resolve_fields [OF fresh n assms(2)]
  show thesis
    by (rule that [OF n i(1)]) (simp_all only: f i(2))
qed

subsection \<open>The resolver as an interface\<close>

text \<open>
  What the classifier and the suffix policy rely on: on rules the parser can produce, the
  registrable domain, when there is one, is one label in front of the public suffix.
\<close>

locale suffix_resolver =
  fixes resolve :: "PslRules \<Rightarrow> string \<Rightarrow> py_error + PslResolution"
    and good :: "PslRules \<Rightarrow> bool"
  assumes registrable_shape:
    "good rules \<Longrightarrow> resolve rules name = Inr r \<Longrightarrow> registrable_domain r \<noteq> [] \<Longrightarrow>
       \<exists>l. l \<noteq> [] \<and> dot \<notin> set l \<and> registrable_domain r = l @ dot # public_suffix r"
begin

lemma registrable_not_suffix:
  "good rules \<Longrightarrow> resolve rules name = Inr r \<Longrightarrow> registrable_domain r \<noteq> [] \<Longrightarrow>
     registrable_domain r \<noteq> public_suffix r"
  using registrable_shape [of rules name r] by auto

lemma registrable_one_more_label:
  "good rules \<Longrightarrow> resolve rules name = Inr r \<Longrightarrow> registrable_domain r \<noteq> [] \<Longrightarrow>
     length (split_on dot (registrable_domain r)) = Suc (length (split_on dot (public_suffix r)))"
  using registrable_shape [of rules name r] by (auto simp: split_on_append)

end

lemma resolve_registrable_shape:
  assumes "rules_ok rules" "resolve_public_suffix U name rules = Inr r" "registrable_domain r \<noteq> []"
  shows "\<exists>l. l \<noteq> [] \<and> dot \<notin> set l \<and> registrable_domain r = l @ dot # public_suffix r"
  using assms(1,2)
proof (rule resolve_cases)
  fix n i
  assume n: "psl_normalize_name U name = Inr n" and i: "i < length (split_on dot n)"
    and p: "public_suffix r = suffix_at (split_on dot n) i"
    and rd: "registrable_domain r = registrable_of (split_on dot n) (suffix_at (split_on dot n) i)"
  have reg: "registrable_domain r =
      (if i = 0 then [] else split_on dot n ! (i - 1) @ dot # public_suffix r)"
    using registrable_of_suffix [OF i split_on_no_sep] rd p by simp
  with assms(3) have "i \<noteq> 0" by (cases i) auto
  let ?l = "split_on dot n ! (i - 1)"
  have mem: "?l \<in> set (split_on dot n)" using i by (intro nth_mem) simp
  then have "psl_label_ok ?l"
    using psl_normalize_valid [OF n] by (simp add: psl_name_valid_def list_all_iff)
  then have "?l \<noteq> [] \<and> dot \<notin> set ?l" by (auto dest: psl_label_okD)
  with reg \<open>i \<noteq> 0\<close> show ?thesis by auto
qed

interpretation psl: suffix_resolver "\<lambda>rules name. resolve_public_suffix U name rules" rules_ok
  for U
  by unfold_locales (rule resolve_registrable_shape)

subsection \<open>Properties\<close>

text \<open>The concrete instance the witnesses use: a codec that leaves ASCII alone, and a small list
  with an ICANN wildcard family, its exception, and a private suffix.\<close>

definition plain_unicode :: unicode_env where
  "plain_unicode = \<lparr>idna_encode = (\<lambda>cps. Some (map char_of cps)), idna_decode = (\<lambda>s. Some (map code_pt s)),
     category = (\<lambda>_. ''Ll''), char_name = (\<lambda>_. [])\<rparr>"

definition sample_rules :: PslRules where
  "sample_rules = \<lparr>icann_exact = [''com'', ''ck''], icann_wildcard = [''ck''],
     icann_exception = [''www.ck''], private_exact = [''blog.com''], private_wildcard = [],
     private_exception = [], cached_index = None\<rparr>"

lemma idna_plain: "idna_ascii_identity plain_unicode"
  by (simp add: idna_ascii_identity_def plain_unicode_def comp_def)

lemma rules_ok_sample: "rules_ok sample_rules"
  by (simp add: rules_ok_def sample_rules_def index_fresh_def)

text \<open>C1. The single walk over the label tails computes, for the ICANN section and for the combined
  sections at once, exactly the suffix the published public-suffix algorithm defines (an exception
  rule wins and loses its leftmost label, else the longest exact or wildcard match, else the last
  label), for every list of labels and every rule set.\<close>

theorem psl_prevailing_is_reference:
  assumes "labels \<noteq> []" "index_fresh rules"
  shows "(case fst (psl_index rules) of (icann_sets, combined_sets) \<Rightarrow>
       psl_prevailing labels icann_sets combined_sets)
     = (psl_reference (fst (psl_build_index rules)) labels,
        psl_reference (snd (psl_build_index rules)) labels)"
  using assms psl_prevailing_reference [OF assms(1), of "set (icann_exception rules)"
      "set (icann_exception rules @ private_exception rules)"]
  by (simp add: psl_index_fresh psl_build_index_def)

theorem psl_prevailing_is_reference_witness:
  "(case fst (psl_index sample_rules) of (icann_sets, combined_sets) \<Rightarrow>
      psl_prevailing [''a'', ''www'', ''ck''] icann_sets combined_sets) = (''ck'', ''ck'')"
proof -
  have ne: "[''a'', ''www'', ''ck''] \<noteq> []" by simp
  have fr: "index_fresh sample_rules" using rules_ok_sample by (simp add: rules_ok_def)
  show ?thesis
    unfolding psl_prevailing_is_reference [OF ne fr]
    by (simp add: psl_reference_def psl_build_index_def sample_rules_def suffix_at_def)
qed

text \<open>A name that normalises is a valid DNS name (1 to 253 characters, labels of 1 to 63
  letters, digits and inner hyphens), and normalising it again changes nothing, given that the
  interpreter's IDNA codec leaves ASCII labels alone.\<close>

theorem psl_normalize_name_canonical:
  assumes "psl_normalize_name U name = Inr n" "idna_ascii_identity U"
  shows "psl_name_valid n \<and> psl_normalize_name U n = Inr n"
  using psl_normalize_valid [OF assms(1)] psl_normalize_idem [OF assms(2,1)] by simp

theorem psl_normalize_name_canonical_witness:
  "psl_normalize_name plain_unicode ''Www.Example.COM'' = Inr ''www.example.com''
   \<and> psl_name_valid ''www.example.com''"
proof -
  have n: "psl_normalize_name plain_unicode ''Www.Example.COM'' = Inr ''www.example.com''"
    by code_simp
  from psl_normalize_name_canonical [OF n idna_plain] n show ?thesis by simp
qed

text \<open>On rules that came out of the authority parser, the registrable domain of a resolved name
  is empty or exactly one label in front of the public suffix, and both are tails of the normalised
  name's label list.\<close>

theorem resolve_registrable_domain:
  assumes "parse_psl_rules U authority = Inr rules" "resolve_public_suffix U name rules = Inr r"
  shows "\<exists>n i. psl_normalize_name U name = Inr n \<and> i < length (split_on dot n)
     \<and> public_suffix r = suffix_at (split_on dot n) i
     \<and> registrable_domain r = (if i = 0 then [] else suffix_at (split_on dot n) (i - 1))"
  using rules_ok_parse [OF assms(1)] assms(2)
proof (rule resolve_cases)
  fix n i
  assume n: "psl_normalize_name U name = Inr n" and i: "i < length (split_on dot n)"
    and p: "public_suffix r = suffix_at (split_on dot n) i"
    and rd: "registrable_domain r = registrable_of (split_on dot n) (suffix_at (split_on dot n) i)"
  have "registrable_domain r = (if i = 0 then [] else suffix_at (split_on dot n) (i - 1))"
    using rd i suffix_at_pred [of i "split_on dot n"] registrable_of_suffix [OF i split_on_no_sep]
    by (cases "i = 0") simp_all
  with n i p show ?thesis by blast
qed

definition sample_authority :: string where
  "sample_authority =
     ''// ===BEGIN ICANN DOMAINS==='' @ [CHR 0x0A] @ ''com'' @ [CHR 0x0A] @ ''*.ck'' @ [CHR 0x0A]
     @ ''!www.ck'' @ [CHR 0x0A] @ ''// ===END ICANN DOMAINS==='' @ [CHR 0x0A]
     @ ''// ===BEGIN PRIVATE DOMAINS==='' @ [CHR 0x0A] @ ''blog.com'' @ [CHR 0x0A]
     @ ''// ===END PRIVATE DOMAINS==='' @ [CHR 0x0A]"

theorem resolve_registrable_domain_witness:
  "\<exists>rules r. parse_psl_rules plain_unicode sample_authority = Inr rules
     \<and> resolve_public_suffix plain_unicode ''A.B.Blog.com'' rules = Inr r
     \<and> public_suffix r = ''blog.com'' \<and> registrable_domain r = ''b.blog.com''"
proof -
  let ?rules = "\<lparr>icann_exact = [''com''], icann_wildcard = [''ck''], icann_exception = [''www.ck''],
     private_exact = [''blog.com''], private_wildcard = [], private_exception = [], cached_index = None\<rparr>"
  let ?r = "\<lparr>icann_suffix = ''com'', public_suffix = ''blog.com'', registrable_domain = ''b.blog.com'',
     private_active = True\<rparr>"
  have p: "parse_psl_rules plain_unicode sample_authority = Inr ?rules" by code_simp
  have r: "resolve_public_suffix plain_unicode ''A.B.Blog.com'' ?rules = Inr ?r" by code_simp
  from resolve_registrable_domain [OF p r] p r show ?thesis by auto
qed

end
