(* ===== verification/Domain.thy ===== *)
theory Domain
  imports Prelude
begin

text \<open>
  The domain-shape gate of the DNSBL build (\<open>_dnsbl_is_ipv4\<close>, \<open>_dnsbl_is_numeric_host\<close>,
  \<open>_dnsbl_within_wire_caps\<close>, \<open>_normalise_verdict\<close>, \<open>normalise\<close>), the per-feed reject tally, and
  the TOP1M name set.
\<close>

subsection \<open>The reject tally\<close>

datatype bucket = Shape | Wire_cap | Suffix_drop | Suffix_demote

type_synonym reject_tally = "((string \<times> string) \<times> (bucket \<times> nat) list) list"

definition tally_reject :: "reject_tally \<Rightarrow> string \<Rightarrow> string \<Rightarrow> bucket \<Rightarrow> reject_tally" where
  "tally_reject tally feed grp b =
    (let counts = (case map_of tally (feed, grp) of
                     Some row \<Rightarrow> row | None \<Rightarrow> [(Shape, 0), (Wire_cap, 0)]);
         n = (case map_of counts b of Some k \<Rightarrow> k | None \<Rightarrow> 0)
     in AList.update (feed, grp) (AList.update b (n + 1) counts) tally)"

definition tally_count :: "reject_tally \<Rightarrow> string \<Rightarrow> string \<Rightarrow> bucket \<Rightarrow> nat" where
  "tally_count tally feed grp b =
    (case map_of tally (feed, grp) of None \<Rightarrow> 0
     | Some row \<Rightarrow> (case map_of row b of None \<Rightarrow> 0 | Some n \<Rightarrow> n))"

subsection \<open>Shape of a name\<close>

definition ipv4_octet :: "string \<Rightarrow> bool" where
  "ipv4_octet p \<longleftrightarrow> \<not> (\<not> (p \<noteq> [] \<and> list_all is_dec p) \<or> length p > 3
     \<or> \<not> (dec_value p \<le> 255) \<or> (length p > 1 \<and> hd p = CHR ''0''))"

definition dnsbl_is_ipv4 :: "string \<Rightarrow> bool" where
  "dnsbl_is_ipv4 token =
    (let parts = split_on dot token in
     if length parts \<noteq> 4 then False else list_all ipv4_octet parts)"

definition hex_chars :: "char set" where
  "hex_chars = set ''0123456789abcdefABCDEF''"

definition dnsbl_is_numeric_host :: "string \<Rightarrow> bool" where
  "dnsbl_is_numeric_host token =
    (if CHR '':'' \<in> set token then False
     else
      (let parts = split_on dot token;
           parts = (if length parts > 1 \<and> last parts = [] then butlast parts else parts);
           lst = last parts in
       if lst \<noteq> [] \<and> list_all is_dec lst then True
       else lower (take 2 lst) = ''0x'' \<and> list_all (\<lambda>c. c \<in> hex_chars) (drop 2 lst)))"

definition dnsbl_within_wire_caps :: "string \<Rightarrow> bool" where
  "dnsbl_within_wire_caps host \<longleftrightarrow>
     length host \<le> 253 \<and> list_all (\<lambda>label. length label \<le> 63) (split_on dot host)"

definition dnsbl_label_chars :: "char set" where
  "dnsbl_label_chars = set ''abcdefghijklmnopqrstuvwxyz0123456789-_''"

definition label_shape_ok :: "string \<Rightarrow> bool" where
  "label_shape_ok label \<longleftrightarrow>
     \<not> (label = [] \<or> hd label = hyphen \<or> last label = hyphen)
     \<and> list_all (\<lambda>c. c \<in> dnsbl_label_chars) label"

text \<open>\<open>Inr\<close> the domain on accept, \<open>Inl\<close> the bucket on reject.\<close>

definition normalise_verdict :: "string \<Rightarrow> bool \<Rightarrow> bucket + string" where
  "normalise_verdict val single_label_ok =
    (let host = lower (strip_dots (strip val)) in
     if (dot \<notin> set host \<and> \<not> single_label_ok)
        \<or> (dnsbl_is_numeric_host host \<and> \<not> dnsbl_is_ipv4 host)
     then Inl Shape
     else if \<not> dnsbl_within_wire_caps host then Inl Wire_cap
     else if \<not> list_all label_shape_ok (split_on dot host) then Inl Shape
     else Inr host)"

definition normalise :: "string \<Rightarrow> string option" where
  "normalise val = (case normalise_verdict val False of Inl b \<Rightarrow> None | Inr d \<Rightarrow> Some d)"

subsection \<open>TOP1M\<close>

definition dnsbl_top1m_names :: "string list \<Rightarrow> string list" where
  "dnsbl_top1m_names lines = List.map_filter normalise lines"

definition top1m_listed :: "string \<Rightarrow> string list \<Rightarrow> bool" where
  "top1m_listed name top1m \<longleftrightarrow>
     name \<in> set top1m \<or> (prefix ''www.'' name \<and> drop 4 name \<in> set top1m)"

subsection \<open>Lemmas on the tally\<close>

lemma tally_count_reject:
  "tally_count (tally_reject t f g b) f' g' b' =
     (if (f', g', b') = (f, g, b) then Suc (tally_count t f g b) else tally_count t f' g' b')"
  by (auto simp: tally_count_def tally_reject_def Let_def update_conv' split: option.split)

subsection \<open>Lemmas on the gate\<close>

lemma label_char_facts:
  assumes "c \<in> dnsbl_label_chars"
  shows "lower_char c = c" "is_ascii c" "c \<noteq> dot" "\<not> is_space c"
  using assms
  by (auto simp: dnsbl_label_chars_def lower_char_def is_ascii_def is_space_def code_pt_def)

definition domain_ok :: "string \<Rightarrow> bool" where
  "domain_ok d \<longleftrightarrow> dnsbl_within_wire_caps d \<and> list_all label_shape_ok (split_on dot d)
     \<and> (dnsbl_is_numeric_host d \<longrightarrow> dnsbl_is_ipv4 d)"

lemma normalise_verdict_ok:
  "normalise_verdict v ok = Inr d \<Longrightarrow> domain_ok d \<and> (ok \<or> dot \<in> set d)"
  by (auto simp: normalise_verdict_def domain_ok_def Let_def split: if_splits)

lemma domain_ok_char:
  assumes "domain_ok d" "c \<in> set d"
  shows "c = dot \<or> c \<in> dnsbl_label_chars"
proof -
  have "c \<in> set (join_with dot (split_on dot d))" using assms(2) by simp
  then have "c = dot \<or> (\<exists>p \<in> set (split_on dot d). c \<in> set p)"
    using set_join [of dot "split_on dot d"] by blast
  then show ?thesis
    using assms(1) by (auto simp: domain_ok_def label_shape_ok_def list_all_iff)
qed

lemma domain_ok_lower:
  assumes "domain_ok d"
  shows "lower d = d"
  unfolding lower_def
proof (intro map_idI)
  fix c assume "c \<in> set d"
  with domain_ok_char [OF assms] have "c = dot \<or> c \<in> dnsbl_label_chars" .
  moreover have "lower_char dot = dot" by (simp add: lower_char_def code_pt_def)
  ultimately show "lower_char c = c" using label_char_facts(1) by blast
qed

lemma split_on_hd: "s \<noteq> [] \<Longrightarrow> hd s = c \<Longrightarrow> [] \<in> set (split_on c s)"
  by (cases s) auto

lemma split_on_snoc: "split_on c (s @ [c]) = split_on c s @ [[]]"
  by (induction s) (auto split: list.split)

lemma split_on_last: "s \<noteq> [] \<Longrightarrow> last s = c \<Longrightarrow> [] \<in> set (split_on c s)"
  by (cases s rule: rev_cases) (auto simp: split_on_snoc)

lemma domain_ok_ne: "domain_ok d \<Longrightarrow> d \<noteq> []"
  by (auto simp: domain_ok_def label_shape_ok_def)

lemma domain_ok_edges:
  assumes "domain_ok d"
  shows "hd d \<noteq> dot" "last d \<noteq> dot" "\<not> is_space (hd d)" "\<not> is_space (last d)"
proof -
  have nil: "[] \<notin> set (split_on dot d)"
    using assms by (auto simp: domain_ok_def label_shape_ok_def list_all_iff)
  then show h: "hd d \<noteq> dot" and l: "last d \<noteq> dot"
    using split_on_hd split_on_last domain_ok_ne [OF assms] by blast+
  show "\<not> is_space (hd d)" "\<not> is_space (last d)"
    using h l domain_ok_char [OF assms] domain_ok_ne [OF assms] label_char_facts(4)
    by (meson hd_in_set last_in_set)+
qed

lemma normalise_verdict_idem:
  assumes "domain_ok d" "ok \<or> dot \<in> set d"
  shows "normalise_verdict d ok = Inr d"
proof -
  have "strip d = d" "strip_dots d = d"
    using domain_ok_ne [OF assms(1)] domain_ok_edges [OF assms(1)] by (auto intro: strip_of_id)
  with assms domain_ok_lower [OF assms(1)] show ?thesis
    by (auto simp: normalise_verdict_def domain_ok_def)
qed

lemma normalise_Some: "normalise v = Some d \<longleftrightarrow> normalise_verdict v False = Inr d"
  by (auto simp: normalise_def split: sum.splits)

text \<open>A name is queryable as \<open>q_name\<close> only within the wire caps; the gate keeps them.\<close>

lemma domain_ok_caps:
  "domain_ok d \<Longrightarrow> length d \<le> 253" "domain_ok d \<Longrightarrow> l \<in> set (split_on dot d) \<Longrightarrow> length l \<le> 63"
  by (auto simp: domain_ok_def dnsbl_within_wire_caps_def list_all_iff)

subsection \<open>Dotted quads\<close>

text \<open>The decimal numeral of an octet.\<close>

definition digit_char :: "nat \<Rightarrow> char" where
  "digit_char n = char_of (48 + n)"

definition octet_text :: "nat \<Rightarrow> string" where
  "octet_text n =
    (if n < 10 then [digit_char n]
     else if n < 100 then [digit_char (n div 10), digit_char (n mod 10)]
     else [digit_char (n div 100), digit_char (n div 10 mod 10), digit_char (n mod 10)])"

lemma digit_char_code [simp]: "n < 10 \<Longrightarrow> code_pt (digit_char n) = 48 + n"
  by (simp add: digit_char_def code_pt_def)

lemma digit_char_inv: "is_dec c \<Longrightarrow> digit_char (code_pt c - 48) = c"
  by (simp add: is_dec_def digit_char_def)

lemma is_dec_digit [simp]: "n < 10 \<Longrightarrow> is_dec (digit_char n)"
  by (simp add: is_dec_def)

lemma digit_char_zero: "n < 10 \<Longrightarrow> digit_char n = CHR ''0'' \<longleftrightarrow> n = 0"
proof -
  assume n: "n < 10"
  have "digit_char n = CHR ''0'' \<longleftrightarrow> code_pt (digit_char n) = code_pt (CHR ''0'')"
    by (metis char_of_code_pt)
  moreover have "code_pt (CHR ''0'') = 48" by (simp add: code_pt_def)
  ultimately show ?thesis using n by simp
qed

lemma is_dec_zero: "is_dec c \<Longrightarrow> c \<noteq> CHR ''0'' \<Longrightarrow> code_pt c \<noteq> 48"
  by (metis char_of_code_pt digit_char_def digit_char_zero add.right_neutral zero_less_numeral)

lemma dec_digits3: "100 * (n div 100) + 10 * (n div 10 mod 10) + n mod 10 = (n :: nat)"
proof -
  have "n div 100 = n div 10 div 10" by (simp flip: div_mult2_eq)
  moreover have "10 * (n div 10 div 10) + n div 10 mod 10 = n div 10" by (rule mult_div_mod_eq)
  moreover have "10 * (n div 10) + n mod 10 = n" by (rule mult_div_mod_eq)
  ultimately show ?thesis by linarith
qed

lemma dec_digits3_inv:
  fixes x y z :: nat
  assumes "y < 10" "z < 10"
  shows "(100 * x + 10 * y + z) div 100 = x" "(100 * x + 10 * y + z) div 10 mod 10 = y"
    "(100 * x + 10 * y + z) mod 10 = z"
proof -
  have e: "100 * x + 10 * y + z = 10 * (10 * x + y) + z" by simp
  have d: "(10 * (10 * x + y) + z) div 10 = 10 * x + y" using assms by simp
  have "(100 * x + 10 * y + z) div 100 = (10 * (10 * x + y) + z) div 10 div 10"
    unfolding e by (simp flip: div_mult2_eq)
  with d assms show "(100 * x + 10 * y + z) div 100 = x" by simp
  show "(100 * x + 10 * y + z) div 10 mod 10 = y" unfolding e d using assms by simp
  show "(100 * x + 10 * y + z) mod 10 = z" unfolding e using assms by (simp only: mod_mult_self4 mod_less)
qed

lemma octet_text_octet: "n < 256 \<Longrightarrow> ipv4_octet (octet_text n) \<and> dec_value (octet_text n) = n"
  by (auto simp: octet_text_def ipv4_octet_def dec_value_def digit_char_zero dec_digits3)

lemma ipv4_octet_text:
  assumes "ipv4_octet p"
  shows "dec_value p < 256 \<and> p = octet_text (dec_value p)"
proof -
  have d: "p \<noteq> []" "list_all is_dec p" "length p \<le> 3" "dec_value p \<le> 255"
    "length p > 1 \<Longrightarrow> hd p \<noteq> CHR ''0''"
    using assms by (auto simp: ipv4_octet_def)
  then consider a where "p = [a]" | a b where "p = [a, b]" | a b c where "p = [a, b, c]"
    by (cases p; cases "tl p"; cases "tl (tl p)"; cases "tl (tl (tl p))") auto
  then show ?thesis
  proof cases
    case (1 a)
    then have "is_dec a" using d by simp
    then show ?thesis using 1 by (auto simp: octet_text_def dec_value_def digit_char_inv is_dec_def)
  next
    case (2 a b)
    then have ab: "is_dec a" "is_dec b" "code_pt a \<noteq> 48" using d is_dec_zero by auto
    define x y where "x = code_pt a - 48" and "y = code_pt b - 48"
    have xy: "x < 10" "y < 10" "x \<noteq> 0" using ab by (auto simp: is_dec_def x_def y_def)
    have "p = [digit_char x, digit_char y]" "dec_value p = 10 * x + y"
      using 2 ab by (auto simp: digit_char_inv x_def y_def dec_value_def)
    with xy show ?thesis by (auto simp: octet_text_def)
  next
    case (3 a b c)
    then have abc: "is_dec a" "is_dec b" "is_dec c" "code_pt a \<noteq> 48" using d is_dec_zero by auto
    define x y z where "x = code_pt a - 48" and "y = code_pt b - 48" and "z = code_pt c - 48"
    have xyz: "x < 10" "y < 10" "z < 10" "x \<noteq> 0" using abc by (auto simp: is_dec_def x_def y_def z_def)
    have "p = [digit_char x, digit_char y, digit_char z]" "dec_value p = 100 * x + 10 * y + z"
      using 3 abc by (auto simp: digit_char_inv x_def y_def z_def dec_value_def)
    with xyz d(4) dec_digits3_inv [of y z x] show ?thesis by (auto simp: octet_text_def)
  qed
qed

lemma ipv4_octet_no_dot: "ipv4_octet p \<Longrightarrow> dot \<notin> set p"
  by (auto simp: ipv4_octet_def list_all_iff is_dec_def code_pt_def)

lemma dnsbl_is_ipv4_numeric: "dnsbl_is_ipv4 t \<Longrightarrow> dnsbl_is_numeric_host t"
proof -
  assume q: "dnsbl_is_ipv4 t"
  let ?ps = "split_on dot t"
  from q have len: "length ?ps = 4" and oct: "list_all ipv4_octet ?ps"
    by (auto simp: dnsbl_is_ipv4_def Let_def split: if_splits)
  have "last ?ps \<in> set ?ps" by simp
  with oct have lst: "last ?ps \<noteq> []" "list_all is_dec (last ?ps)"
    by (auto simp: list_all_iff ipv4_octet_def)
  have "CHR '':'' \<notin> set t"
  proof
    assume "CHR '':'' \<in> set t"
    then have "CHR '':'' \<in> set (join_with dot ?ps)" by simp
    then obtain p where "p \<in> set ?ps" "CHR '':'' \<in> set p"
      using set_join [of dot ?ps] by blast
    with oct have "is_dec (CHR '':'')" by (auto simp: list_all_iff ipv4_octet_def)
    then show False by (simp add: is_dec_def code_pt_def)
  qed
  with lst show ?thesis by (simp add: dnsbl_is_numeric_host_def)
qed

lemma is_dec_lower [simp]: "is_dec (lower_char c) = is_dec c"
  by (auto simp: is_dec_def code_pt_lower_char)

lemma hex_code_points: "code_pt ` hex_chars = {48..<58} \<union> {65..<71} \<union> {97..<103}"
proof -
  have "code_pt ` hex_chars = set ([48..<58] @ [97..<103] @ [65..<71])"
    by (simp add: hex_chars_def code_pt_def upt_rec)
  also have "\<dots> = {48..<58} \<union> {65..<71} \<union> {97..<103}"
    by (simp only: set_append set_upt Un_commute Un_left_commute)
  finally show ?thesis .
qed

lemma hex_char_code: "c \<in> hex_chars \<longleftrightarrow> code_pt c \<in> {48..<58} \<union> {65..<71} \<union> {97..<103}"
  unfolding hex_code_points [symmetric] by (auto simp: code_pt_inject)

lemma hex_char_lower: "lower_char c \<in> hex_chars \<longleftrightarrow> c \<in> hex_chars"
proof -
  have "n + 32 \<in> {48..<58} \<union> {65..<71} \<union> {97..<103} \<longleftrightarrow> n \<in> {48..<58} \<union> {65..<71} \<union> {97..<103}"
    if "65 \<le> n \<and> n \<le> 90 \<or> 192 \<le> n" for n :: nat
    using that unfolding Un_iff atLeastLessThan_iff by presburger
  then show ?thesis unfolding hex_char_code code_pt_lower_char by (auto simp del: Un_iff)
qed

lemma lower_char_colon [simp]: "lower_char c = CHR '':'' \<longleftrightarrow> c = CHR '':''"
  by (rule lower_char_eq) (simp add: code_pt_def)

lemma numeric_host_lower: "dnsbl_is_numeric_host (lower h) = dnsbl_is_numeric_host h"
proof -
  have colon: "CHR '':'' \<in> set (lower h) \<longleftrightarrow> CHR '':'' \<in> set h"
    using lower_char_colon by (metis set_lower)
  let ?cut = "\<lambda>ps. if 1 < length ps \<and> last ps = [] then butlast ps else ps"
  have cut: "?cut (map lower ps) = map lower (?cut ps)" if "ps \<noteq> []" for ps :: "string list"
    using that by (auto simp: last_map map_butlast lower_def)
  have ne: "?cut (split_on dot h) \<noteq> []" by (cases "split_on dot h"; cases "tl (split_on dot h)") auto
  have lst: "last (?cut (split_on dot (lower h))) = lower (last (?cut (split_on dot h)))"
    unfolding split_on_lower cut [OF split_on_ne] using ne by (rule last_map)
  have dig: "list_all is_dec (lower l) = list_all is_dec l" for l
    by (simp add: lower_def list_all_iff)
  have hex: "list_all (\<lambda>c. c \<in> hex_chars) (drop 2 (lower l)) = list_all (\<lambda>c. c \<in> hex_chars) (drop 2 l)" for l
    by (simp add: lower_def list_all_iff hex_char_lower drop_map)
  have two: "lower (take 2 (lower l)) = lower (take 2 l)" for l
    by (simp add: lower_def take_map)
  have nil: "lower l = [] \<longleftrightarrow> l = []" for l by (simp add: lower_def)
  show ?thesis
    unfolding dnsbl_is_numeric_host_def Let_def colon lst dig hex two nil ..
qed

subsection \<open>Properties\<close>

text \<open>The domain-shape gate: a token is accepted as the domain \<open>d\<close> exactly when \<open>d\<close> is the
  token stripped of white space and outer dots and lower-cased, has a dot, at most 253 characters
  and only labels of 1 to 63 characters from the label alphabet with no hyphen at an edge, and is
  not a numeric host other than a canonical dotted quad; a domain the gate produced is a fixed
  point of the gate.\<close>

theorem normalise_gate:
  "(normalise v = Some d \<longleftrightarrow>
      d = lower (strip_dots (strip v)) \<and> dot \<in> set d \<and> length d \<le> 253
      \<and> list_all (\<lambda>l. l \<noteq> [] \<and> length l \<le> 63 \<and> set l \<subseteq> dnsbl_label_chars
            \<and> hd l \<noteq> hyphen \<and> last l \<noteq> hyphen) (split_on dot d)
      \<and> \<not> (dnsbl_is_numeric_host d \<and> \<not> dnsbl_is_ipv4 d))
   \<and> (case normalise v of None \<Rightarrow> True | Some e \<Rightarrow> normalise e = Some e)"
proof -
  have 1: "normalise v = Some d \<longleftrightarrow> d = lower (strip_dots (strip v)) \<and> dot \<in> set d \<and> domain_ok d"
    by (auto simp: normalise_Some normalise_verdict_def domain_ok_def Let_def)
  have 2: "domain_ok d \<longleftrightarrow> length d \<le> 253
      \<and> list_all (\<lambda>l. l \<noteq> [] \<and> length l \<le> 63 \<and> set l \<subseteq> dnsbl_label_chars
            \<and> hd l \<noteq> hyphen \<and> last l \<noteq> hyphen) (split_on dot d)
      \<and> \<not> (dnsbl_is_numeric_host d \<and> \<not> dnsbl_is_ipv4 d)"
    unfolding domain_ok_def dnsbl_within_wire_caps_def label_shape_ok_def list_all_iff by blast
  have 3: "normalise e = Some e" if "normalise v = Some e" for e
    using that normalise_verdict_ok [of v False e] normalise_verdict_idem [of e False]
    by (simp add: normalise_Some)
  show ?thesis using 1 2 3 by (auto split: option.split)
qed

text \<open>The bare-IP test accepts exactly the canonical dotted quads: four decimal numerals of 0 to
  255 without leading zeros, joined by dots.\<close>

theorem dnsbl_is_ipv4_dotted_quad:
  "dnsbl_is_ipv4 t \<longleftrightarrow>
     (\<exists>a b c d. a < 256 \<and> b < 256 \<and> c < 256 \<and> d < 256
        \<and> t = join_with dot [octet_text a, octet_text b, octet_text c, octet_text d])"
proof
  assume q: "dnsbl_is_ipv4 t"
  then have "length (split_on dot t) = 4" and oct: "list_all ipv4_octet (split_on dot t)"
    by (auto simp: dnsbl_is_ipv4_def Let_def split: if_splits)
  then obtain p1 p2 p3 p4 where ps: "split_on dot t = [p1, p2, p3, p4]"
    by (auto simp: eval_nat_numeral length_Suc_conv)
  have "t = join_with dot (split_on dot t)" by simp
  then have "t = join_with dot [p1, p2, p3, p4]" by (simp only: ps)
  moreover have "list_all (\<lambda>p. dec_value p < 256 \<and> octet_text (dec_value p) = p) [p1, p2, p3, p4]"
    using oct ipv4_octet_text unfolding ps list_all_iff by metis
  ultimately show "\<exists>a b c d. a < 256 \<and> b < 256 \<and> c < 256 \<and> d < 256
        \<and> t = join_with dot [octet_text a, octet_text b, octet_text c, octet_text d]"
    by (intro exI [of _ "dec_value p1"] exI [of _ "dec_value p2"] exI [of _ "dec_value p3"]
        exI [of _ "dec_value p4"]) simp
next
  assume "\<exists>a b c d. a < 256 \<and> b < 256 \<and> c < 256 \<and> d < 256
        \<and> t = join_with dot [octet_text a, octet_text b, octet_text c, octet_text d]"
  then obtain a b c d where lt: "a < 256" "b < 256" "c < 256" "d < 256"
    and t: "t = join_with dot [octet_text a, octet_text b, octet_text c, octet_text d]"
    by blast
  have "split_on dot t = [octet_text a, octet_text b, octet_text c, octet_text d]"
    unfolding t using lt octet_text_octet ipv4_octet_no_dot by (intro split_join) auto
  with lt octet_text_octet show "dnsbl_is_ipv4 t" by (simp add: dnsbl_is_ipv4_def)
qed

end
