(* ===== verification/Abp.thy ===== *)
theory Abp
  imports Domain "HOL-Library.Product_Lexorder"
begin

text \<open>
  Stage A of the DNSBL build: the typed \<open>Rule\<close>, the option and regex recognisers, the capture
  guard \<open>_dnsbl_is_abp_rule_line\<close>, the ABP parser \<open>parse_abp\<close>, and the plain/hosts parser \<open>parse\<close>.
\<close>

subsection \<open>Data\<close>

datatype rule_kind = Block | Allow

datatype rule_target = Target_domain | Target_regex

datatype provenance = User | Feed

record Rule =
  r_kind :: rule_kind
  r_target :: rule_target
  r_key :: string
  r_important :: bool
  r_badfilter :: bool
  r_provenance :: provenance
  r_feed :: string
  r_group :: string
  r_log :: string
  r_signature :: "string \<times> string list"
  r_wildcard :: bool

record ParsedEntry =
  p_kind :: rule_kind
  p_value :: string
  p_feed :: string
  p_group :: string
  p_log :: string

subsection \<open>Options\<close>

definition page_context_opts :: "string list" where
  "page_context_opts =
    [''third-party'', ''~third-party'', ''domain'', ''script'', ''image'', ''stylesheet'', ''object'',
     ''subdocument'', ''document'', ''xmlhttprequest'', ''websocket'', ''ping'', ''media'', ''font'',
     ''popup'', ''csp'', ''elemhide'', ''generichide'', ''genericblock'', ''rewrite'']"

definition non_dns_modifiers :: "string list" where
  "non_dns_modifiers = [''dnsrewrite'', ''dnstype'', ''client'', ''ctag'']"

definition dnsbl_opt_name :: "string \<Rightarrow> string" where
  "dnsbl_opt_name opt = strip (before_first (CHR ''='') opt)"

fun classify_loop :: "string list \<Rightarrow> string list \<Rightarrow> bool \<Rightarrow> bool \<Rightarrow> (string list \<times> bool \<times> bool) option"
  where
  "classify_loop [] kept important badfilter = Some (sort kept, important, badfilter)"
| "classify_loop (raw0 # raws) kept important badfilter =
    (let raw = strip raw0 in
     if raw = [] then classify_loop raws kept important badfilter
     else
      (let name = dnsbl_opt_name raw in
       if name \<in> set page_context_opts \<or> name \<in> set non_dns_modifiers then None
       else if name = ''important'' then classify_loop raws (kept @ [name]) True badfilter
       else if name = ''badfilter'' then classify_loop raws kept important True
       else None))"

definition dnsbl_classify_options :: "string \<Rightarrow> (string list \<times> bool \<times> bool) option" where
  "dnsbl_classify_options opts_str = classify_loop (split_on (CHR '','') opts_str) [] False False"

text \<open>The options of a rule: none when the suffix is empty.\<close>

definition rule_options :: "string \<Rightarrow> (string list \<times> bool \<times> bool) option" where
  "rule_options opts_str =
     (if opts_str \<noteq> [] then dnsbl_classify_options opts_str else Some ([], False, False))"

subsection \<open>Recognisers\<close>

definition element_hiding_markers :: "string list" where
  "element_hiding_markers = [''##'', ''#@#'', ''#?#'', ''#%#'', ''#$#'']"

definition dnsbl_parse_abp_regex :: "string \<Rightarrow> (rule_kind \<times> string \<times> string) option" where
  "dnsbl_parse_abp_regex stripped =
    (case (if prefix ''@@/'' stripped then Some (Allow, drop 2 stripped)
           else if prefix ''/'' stripped then Some (Block, stripped) else None) of
       None \<Rightarrow> None
     | Some (knd, body) \<Rightarrow>
        (case (if suffix ''/'' body then Some (butlast (drop 1 body), [])
               else (case py_rfind ''/$'' body of
                   None \<Rightarrow> None
                 | Some marker \<Rightarrow> if marker = 0 then None
                     else Some (drop 1 (take marker body), drop (marker + 2) body))) of
           None \<Rightarrow> None
         | Some (inner, opts_str) \<Rightarrow> if inner = [] then None else Some (knd, inner, opts_str)))"

definition abp_cosmetic_prefix_chars :: "char set" where
  "abp_cosmetic_prefix_chars =
     set ''ABCDEFGHIJKLMNOPQRSTUVWXYZabcdefghijklmnopqrstuvwxyz0123456789._,~*-''"

definition dnsbl_is_abp_rule_line :: "string \<Rightarrow> bool" where
  "dnsbl_is_abp_rule_line line =
    (if prefix '','' line then False
     else if prefix ''||'' line \<or> prefix ''@@'' line then True
     else if CHR ''#'' \<in> set line \<and>
       (let hits = List.map_filter
             (\<lambda>m. map_option (\<lambda>p. (p, length m)) (py_find m line)) element_hiding_markers in
        hits \<noteq> [] \<and>
        (let (first, marker_len) = fold min (tl hits) (hd hits) in
         if first = 0 then (case drop marker_len line of [] \<Rightarrow> False | c # _ \<Rightarrow> \<not> is_space c)
         else list_all (\<lambda>c. c \<in> abp_cosmetic_prefix_chars) (take first line))) then True
     else if prefix ''/'' line \<and> \<not> prefix ''//'' line then
       (if suffix ''/'' line \<and> length line > 1 then True
        else (case py_rfind ''/$'' line of None \<Rightarrow> False | Some marker \<Rightarrow> marker > 0))
     else False)"

subsection \<open>The ABP parser\<close>

text \<open>A rejected domain target is counted when the caller passed a tally.\<close>

definition tally_opt :: "reject_tally option \<Rightarrow> string \<Rightarrow> string \<Rightarrow> bucket \<Rightarrow> reject_tally option" where
  "tally_opt tally feed grp b = map_option (\<lambda>t. tally_reject t feed grp b) tally"

text \<open>The rule of a domain target: it covers the domain and its subdomains.\<close>

definition domain_rule ::
  "rule_kind \<Rightarrow> string \<Rightarrow> string list \<Rightarrow> bool \<Rightarrow> bool \<Rightarrow> provenance \<Rightarrow> string \<Rightarrow> string \<Rightarrow> string
     \<Rightarrow> Rule" where
  "domain_rule knd d opts important badfilter prov feed grp lg =
    \<lparr>r_kind = knd, r_target = Target_domain, r_key = d, r_important = important,
     r_badfilter = badfilter, r_provenance = prov, r_feed = feed, r_group = grp, r_log = lg,
     r_signature = (d, opts), r_wildcard = True\<rparr>"

definition parse_abp_regex_rule ::
  "rule_kind \<times> string \<times> string \<Rightarrow> provenance \<Rightarrow> string \<Rightarrow> string \<Rightarrow> string \<Rightarrow> Rule option" where
  "parse_abp_regex_rule hit prov feed grp lg =
    (case hit of (knd, inner, opts_str) \<Rightarrow>
      (case rule_options opts_str of
         None \<Rightarrow> None
       | Some (dns_opts, important, badfilter) \<Rightarrow>
           Some \<lparr>r_kind = knd, r_target = Target_regex, r_key = inner, r_important = important,
             r_badfilter = badfilter, r_provenance = prov, r_feed = feed, r_group = grp, r_log = lg,
             r_signature = (inner, dns_opts), r_wildcard = False\<rparr>))"

definition parse_abp_anchor ::
  "bool \<Rightarrow> string \<Rightarrow> provenance \<Rightarrow> string \<Rightarrow> string \<Rightarrow> string \<Rightarrow> reject_tally option
     \<Rightarrow> Rule option \<times> reject_tally option" where
  "parse_abp_anchor is_allow s prov feed grp lg tally =
    (let rest = (if is_allow then drop 4 s else drop 2 s);
         anchor = before_first (CHR ''$'') rest; opts_str = after_first (CHR ''$'') rest;
         host = before_first (CHR ''^'') anchor; tail = after_first (CHR ''^'') anchor in
     if CHR ''/'' \<in> set host \<or> CHR ''*'' \<in> set host \<or> CHR ''/'' \<in> set tail
        \<or> strip_of (\<lambda>c. c = CHR ''^'') tail \<noteq> [] then (None, tally)
     else if dnsbl_is_numeric_host host then (None, tally)
     else (case normalise_verdict host False of
         Inl b \<Rightarrow> (None, tally_opt tally feed grp b)
       | Inr d \<Rightarrow>
          (case rule_options opts_str of
             None \<Rightarrow> (None, tally)
           | Some (dns_opts, important, badfilter) \<Rightarrow>
               (Some (domain_rule (if is_allow then Allow else Block) d dns_opts important badfilter
                  prov feed grp lg), tally))))"

definition parse_abp_plain ::
  "string \<Rightarrow> provenance \<Rightarrow> string \<Rightarrow> string \<Rightarrow> string \<Rightarrow> reject_tally option
     \<Rightarrow> Rule option \<times> reject_tally option" where
  "parse_abp_plain target prov feed grp lg tally =
    (case normalise_verdict target False of
       Inl b \<Rightarrow> (None, tally_opt tally feed grp b)
     | Inr d \<Rightarrow> (Some (domain_rule Block d [] False False prov feed grp lg), tally))"

definition parse_abp_bare ::
  "string \<Rightarrow> provenance \<Rightarrow> string \<Rightarrow> string \<Rightarrow> string \<Rightarrow> reject_tally option
     \<Rightarrow> Rule option \<times> reject_tally option" where
  "parse_abp_bare s prov feed grp lg tally =
    (let parts = split_ws1 s in
     if length parts = 2 then
      (let first = parts ! 0; target = strip (parts ! 1) in
       if \<not> dnsbl_is_ipv4 first then (None, tally)
       else if dnsbl_is_numeric_host target then (None, tally)
       else parse_abp_plain target prov feed grp lg tally)
     else if CHR ''/'' \<in> set s \<or> CHR ''*'' \<in> set s then (None, tally)
     else parse_abp_plain s prov feed grp lg tally)"

text \<open>The lines skipped before any rule shape is tried.\<close>

definition abp_skipped :: "string \<Rightarrow> bool" where
  "abp_skipped s \<longleftrightarrow> s = [] \<or> prefix ''!'' s \<or> prefix ''['' s \<or> prefix ''#'' s
     \<or> (CHR ''#'' \<in> set s \<and> list_ex (\<lambda>marker. occurs_in marker s) element_hiding_markers)"

definition parse_abp ::
  "string \<Rightarrow> provenance \<Rightarrow> string \<Rightarrow> string \<Rightarrow> string \<Rightarrow> reject_tally option
     \<Rightarrow> Rule option \<times> reject_tally option" where
  "parse_abp line prov feed grp lg tally =
    (let s = strip line in
     if abp_skipped s then (None, tally)
     else (case dnsbl_parse_abp_regex s of
       Some hit \<Rightarrow> (parse_abp_regex_rule hit prov feed grp lg, tally)
     | None \<Rightarrow>
       (let is_allow = prefix ''@@||'' s; is_block = prefix ''||'' s in
        if is_allow \<or> is_block then parse_abp_anchor is_allow s prov feed grp lg tally
        else parse_abp_bare s prov feed grp lg tally)))"

subsection \<open>The plain and hosts parser\<close>

definition dnsbl_strip_hosts_prefix :: "string \<Rightarrow> string" where
  "dnsbl_strip_hosts_prefix line =
    (if CHR '' '' \<in> set line then
      (let first = before_first (CHR '' '') line; rest = strip (after_first (CHR '' '') line) in
       if dnsbl_is_ipv4 first then rest else first)
     else line)"

definition parse :: "string \<Rightarrow> ParsedEntry option" where
  "parse line =
    (let stripped = strip line in
     if stripped = [] then None
     else if prefix ''#'' stripped \<or> prefix ''!'' stripped then None
     else
      (let token = strip_dots (strip (dnsbl_strip_hosts_prefix stripped)) in
       if token = [] then None
       else if dnsbl_is_ipv4 token then None
       else Some \<lparr>p_kind = Block, p_value = token, p_feed = [], p_group = [], p_log = []\<rparr>))"

subsection \<open>Lemmas on options\<close>

lemma classify_loop_kept:
  "classify_loop raws kept imp bad = Some (opts, imp', bad') \<Longrightarrow>
     set kept \<subseteq> {''important''} \<Longrightarrow> (imp \<longleftrightarrow> kept \<noteq> []) \<Longrightarrow>
     set opts \<subseteq> {''important''} \<and> (imp' \<longleftrightarrow> opts \<noteq> [])"
proof (induction raws kept imp bad rule: classify_loop.induct)
  case (1 kept imp bad)
  then show ?case by (auto dest: arg_cong [where f = set])
next
  case (2 raw0 raws kept imp bad)
  then show ?case by (auto simp: Let_def split: if_splits)
qed

lemma rule_options_kept:
  "rule_options s = Some (opts, imp, bad) \<Longrightarrow> set opts \<subseteq> {''important''} \<and> (imp \<longleftrightarrow> opts \<noteq> [])"
  by (auto simp: rule_options_def dnsbl_classify_options_def dest: classify_loop_kept split: if_splits)

lemma parse_abp_regex_inner:
  "dnsbl_parse_abp_regex s = Some (k, inner, opts) \<Longrightarrow> inner \<noteq> []"
  by (auto simp: dnsbl_parse_abp_regex_def split: option.splits if_splits prod.splits)

lemma butlast_sublist: "sublist (butlast xs) xs"
  by (metis append_butlast_last_id butlast.simps(1) prefixI prefix_imp_sublist sublist_order.order_refl)

lemma take_sublist: "sublist (take n xs) xs"
  by (simp add: prefix_imp_sublist take_is_prefix)

lemma drop_sublist: "sublist (drop n xs) xs"
  by (simp add: suffix_drop suffix_imp_sublist)

lemma sublist_slices:
  "sublist body s \<Longrightarrow> sublist (butlast (drop m body)) s"
  "sublist body s \<Longrightarrow> sublist (drop m (take n body)) s"
  by (meson butlast_sublist drop_sublist take_sublist sublist_order.order_trans)+

lemma parse_abp_regex_sublist:
  assumes "dnsbl_parse_abp_regex s = Some (k, inner, opts)"
  shows "sublist inner s"
proof -
  have *: "sublist inner s"
    if "(case (if suffix ''/'' body then Some (butlast (drop 1 body), [])
               else (case py_rfind ''/$'' body of
                   None \<Rightarrow> None
                 | Some marker \<Rightarrow> if marker = 0 then None
                     else Some (drop 1 (take marker body), drop (marker + 2) body))) of
           None \<Rightarrow> None
         | Some (inner', opts_str) \<Rightarrow> if inner' = [] then None else Some (knd, inner', opts_str))
        = Some (k, inner, opts)" "sublist body s" for body knd
    using that sublist_slices [OF that(2)]
    by (cases "suffix ''/'' body"; cases "py_rfind ''/$'' body") (auto split: if_splits)
  show ?thesis
    using assms * [of _ s] * [of _ "drop 2 s"] drop_sublist [of 2 s]
    unfolding dnsbl_parse_abp_regex_def
    by (cases "prefix ''@@/'' s"; cases "prefix ''/'' s") simp_all
qed

subsection \<open>What a parsed rule looks like\<close>

definition rule_ok :: "Rule \<Rightarrow> bool" where
  "rule_ok r \<longleftrightarrow>
     fst (r_signature r) = r_key r \<and> set (snd (r_signature r)) \<subseteq> {''important''}
     \<and> (r_important r \<longleftrightarrow> snd (r_signature r) \<noteq> [])
     \<and> (case r_target r of
          Target_domain \<Rightarrow> r_wildcard r \<and> domain_ok (r_key r) \<and> dot \<in> set (r_key r)
        | Target_regex \<Rightarrow> \<not> r_wildcard r \<and> r_key r \<noteq> [])"

definition rule_from :: "provenance \<Rightarrow> string \<Rightarrow> string \<Rightarrow> string \<Rightarrow> Rule \<Rightarrow> bool" where
  "rule_from prov feed grp lg r \<longleftrightarrow>
     r_provenance r = prov \<and> r_feed r = feed \<and> r_group r = grp \<and> r_log r = lg"

lemma domain_rule_ok:
  assumes "normalise_verdict v False = Inr d" "set opts \<subseteq> {''important''}" "imp \<longleftrightarrow> opts \<noteq> []"
  shows "rule_ok (domain_rule knd d opts imp bad prov feed grp lg)"
  using assms normalise_verdict_ok [of v False d] by (simp add: rule_ok_def domain_rule_def)

lemma domain_rule_from [simp]: "rule_from prov feed grp lg (domain_rule knd d opts imp bad prov feed grp lg)"
  by (simp add: rule_from_def domain_rule_def)

lemma parse_abp_regex_rule_ok:
  assumes "dnsbl_parse_abp_regex s = Some hit" "parse_abp_regex_rule hit prov feed grp lg = Some r"
  shows "rule_ok r \<and> rule_from prov feed grp lg r \<and> r_target r = Target_regex \<and> sublist (r_key r) s"
proof -
  obtain knd inner opts_str where hit: "hit = (knd, inner, opts_str)" by (cases hit)
  have inner: "inner \<noteq> []" "sublist inner s"
    using assms(1) parse_abp_regex_inner parse_abp_regex_sublist unfolding hit by blast+
  obtain opts imp bad where o: "rule_options opts_str = Some (opts, imp, bad)"
    using assms(2) by (auto simp: parse_abp_regex_rule_def hit split: option.splits)
  have "r = \<lparr>r_kind = knd, r_target = Target_regex, r_key = inner, r_important = imp,
             r_badfilter = bad, r_provenance = prov, r_feed = feed, r_group = grp, r_log = lg,
             r_signature = (inner, opts), r_wildcard = False\<rparr>"
    using assms(2) by (simp add: parse_abp_regex_rule_def hit o)
  then show ?thesis using inner rule_options_kept [OF o] by (simp add: rule_ok_def rule_from_def)
qed

lemma parse_abp_plain_ok:
  assumes "parse_abp_plain t prov feed grp lg tally = (Some r, tally')"
  shows "rule_ok r \<and> rule_from prov feed grp lg r \<and> tally' = tally
    \<and> (\<exists>d. normalise_verdict t False = Inr d \<and> r = domain_rule Block d [] False False prov feed grp lg)"
  using assms by (auto simp: parse_abp_plain_def intro: domain_rule_ok split: sum.splits)

lemma parse_abp_bare_ok:
  assumes "parse_abp_bare s prov feed grp lg tally = (Some r, tally')"
  shows "\<exists>t. parse_abp_plain t prov feed grp lg tally = (Some r, tally')"
  using assms by (auto simp: parse_abp_bare_def Let_def split: if_splits)

lemma parse_abp_anchor_shape:
  assumes "parse_abp_anchor al s prov feed grp lg tally = (Some r, tally')"
  shows "tally' = tally \<and> (\<exists>host d os opts imp bad. normalise_verdict host False = Inr d
    \<and> \<not> dnsbl_is_numeric_host host \<and> rule_options os = Some (opts, imp, bad)
    \<and> r = domain_rule (if al then Allow else Block) d opts imp bad prov feed grp lg)"
  using assms
  by (simp add: parse_abp_anchor_def Let_def split: if_splits sum.splits option.splits prod.splits) blast+

lemma parse_abp_anchor_ok:
  assumes "parse_abp_anchor al s prov feed grp lg tally = (Some r, tally')"
  shows "rule_ok r \<and> rule_from prov feed grp lg r \<and> tally' = tally \<and> r_target r = Target_domain
    \<and> r_kind r = (if al then Allow else Block)"
proof -
  obtain host d os opts imp bad where h: "tally' = tally" "normalise_verdict host False = Inr d"
    "rule_options os = Some (opts, imp, bad)"
    and r: "r = domain_rule (if al then Allow else Block) d opts imp bad prov feed grp lg"
    using parse_abp_anchor_shape [OF assms] by blast
  have "rule_ok r" unfolding r using domain_rule_ok [OF h(2)] rule_options_kept [OF h(3)] by blast
  then show ?thesis using h(1) unfolding r by (simp add: domain_rule_def rule_from_def)
qed

subsection \<open>The capture guard and the parser\<close>

lemma regex_hit_captured:
  assumes "dnsbl_parse_abp_regex s = Some hit" "\<not> prefix ''//'' s"
  shows "dnsbl_is_abp_rule_line s"
proof (cases "prefix ''@@'' s")
  case True
  then have "\<not> prefix '','' s" by (auto elim!: prefixE)
  with True show ?thesis by (simp add: dnsbl_is_abp_rule_line_def)
next
  case False
  then have "\<not> prefix ''@@/'' s" by (auto elim!: prefixE simp: prefix_def)
  with assms have sl: "prefix ''/'' s" by (auto simp: dnsbl_parse_abp_regex_def split: if_splits)
  then have "\<not> prefix '','' s" by (auto elim!: prefixE)
  moreover have "(suffix ''/'' s \<and> length s > 1) \<or> (\<exists>m. py_rfind ''/$'' s = Some m \<and> m > 0)"
  proof (cases "suffix ''/'' s")
    case True
    then have "butlast (drop 1 s) \<noteq> []"
      using assms(1) sl \<open>\<not> prefix ''@@/'' s\<close>
      by (auto simp: dnsbl_parse_abp_regex_def split: if_splits)
    then have "length (butlast (drop 1 s)) > 0" by blast
    then have "length s > 1" by simp
    with True show ?thesis by simp
  next
    case False
    then show ?thesis
      using assms(1) sl \<open>\<not> prefix ''@@/'' s\<close>
      by (auto simp: dnsbl_parse_abp_regex_def split: if_splits option.splits)
  qed
  ultimately show ?thesis using sl assms(2)
    by (auto simp: dnsbl_is_abp_rule_line_def)
qed

lemma anchor_captured:
  assumes "prefix ''@@||'' s \<or> prefix ''||'' s"
  shows "dnsbl_is_abp_rule_line s"
proof -
  have "\<not> prefix '','' s" "prefix ''||'' s \<or> prefix ''@@'' s"
    using assms by (auto elim!: prefixE simp: prefix_def)
  then show ?thesis by (simp add: dnsbl_is_abp_rule_line_def)
qed

lemma parse_abp_rule:
  assumes "parse_abp line prov feed grp lg tally = (Some r, tally')"
  shows "rule_ok r \<and> rule_from prov feed grp lg r \<and> tally' = tally"
proof -
  let ?s = "strip line"
  have sk: "\<not> abp_skipped ?s" using assms by (auto simp: parse_abp_def Let_def)
  show ?thesis
  proof (cases "dnsbl_parse_abp_regex ?s")
    case (Some hit)
    with sk assms have "parse_abp_regex_rule hit prov feed grp lg = Some r" "tally' = tally"
      by (auto simp: parse_abp_def Let_def)
    with parse_abp_regex_rule_ok [OF Some] show ?thesis by blast
  next
    case None
    with sk assms have "(\<exists>al. parse_abp_anchor al ?s prov feed grp lg tally = (Some r, tally'))
      \<or> parse_abp_bare ?s prov feed grp lg tally = (Some r, tally')"
      by (auto simp: parse_abp_def Let_def split: if_splits)
    then consider al where "parse_abp_anchor al ?s prov feed grp lg tally = (Some r, tally')"
      | t where "parse_abp_plain t prov feed grp lg tally = (Some r, tally')"
      using parse_abp_bare_ok by blast
    then show ?thesis
      by cases (simp_all add: parse_abp_anchor_ok parse_abp_plain_ok)
  qed
qed

subsection \<open>Properties\<close>

text \<open>Every rule the ABP parser returns is well formed: its signature is its target with the
  kept options, only \<open>$important\<close> is ever kept and exactly when the rule is important, a domain
  target is a dotted name that passes the shape gate and covers its subdomains, a regex target is a
  non-empty pattern, the row's labels are carried through, and the reject tally is untouched.\<close>

theorem parse_abp_well_formed:
  assumes "parse_abp line prov feed grp lg tally = (Some r, tally')"
  shows "fst (r_signature r) = r_key r
    \<and> (r_important r \<longleftrightarrow> snd (r_signature r) \<noteq> []) \<and> set (snd (r_signature r)) \<subseteq> {''important''}
    \<and> (case r_target r of
         Target_domain \<Rightarrow> r_wildcard r \<and> normalise (r_key r) = Some (r_key r)
       | Target_regex \<Rightarrow> \<not> r_wildcard r \<and> r_key r \<noteq> [])
    \<and> r_provenance r = prov \<and> r_feed r = feed \<and> r_group r = grp \<and> r_log r = lg
    \<and> tally' = tally"
  using parse_abp_rule [OF assms] normalise_verdict_idem [of "r_key r" False]
  by (auto simp: rule_ok_def rule_from_def normalise_Some split: rule_target.splits)

theorem parse_abp_well_formed_witness:
  "fst (r_signature \<lparr>r_kind = Allow, r_target = Target_domain, r_key = ''a.com'', r_important = True,
     r_badfilter = False, r_provenance = User, r_feed = ''f'', r_group = ''g'', r_log = ''l'',
     r_signature = (''a.com'', [''important'']), r_wildcard = True\<rparr>) = ''a.com''"
proof -
  have "parse_abp '' @@||A.com^$important'' User ''f'' ''g'' ''l'' None =
     (Some \<lparr>r_kind = Allow, r_target = Target_domain, r_key = ''a.com'', r_important = True,
        r_badfilter = False, r_provenance = User, r_feed = ''f'', r_group = ''g'', r_log = ''l'',
        r_signature = (''a.com'', [''important'']), r_wildcard = True\<rparr>, None)"
    by code_simp
  from parse_abp_well_formed [OF this] show ?thesis by simp
qed



text \<open>An IP-valued anchor can leak into the domain rules: the anchor's numeric test reads the
  host before it is stripped, so an address followed by a dot pair or a blank passes it and becomes
  a blocking domain rule whose key is the dotted quad, while the plain spelling is skipped.\<close>

theorem parse_abp_ip_anchor_leak:
  "fst (parse_abp ''||1.2.3.4^'' Feed f g l None) = None
   \<and> map_option r_key (fst (parse_abp ''||1.2.3.4..^'' Feed f g l None)) = Some ''1.2.3.4''
   \<and> map_option r_key (fst (parse_abp ''||1.2.3.4 ^'' Feed f g l None)) = Some ''1.2.3.4''
   \<and> dnsbl_is_ipv4 ''1.2.3.4''"
proof -
  have "fst (parse_abp ''||1.2.3.4^'' Feed f g l None) = None" by code_simp
  moreover have "map_option r_key (fst (parse_abp ''||1.2.3.4..^'' Feed f g l None)) = Some ''1.2.3.4''"
    by code_simp
  moreover have "map_option r_key (fst (parse_abp ''||1.2.3.4 ^'' Feed f g l None)) = Some ''1.2.3.4''"
    by code_simp
  moreover have "dnsbl_is_ipv4 ''1.2.3.4''" by code_simp
  ultimately show ?thesis by blast
qed

end
