(* ===== verification/Lookup.thy ===== *)
theory Lookup
  imports Domain
begin

text \<open>
  The containers a query reads and the lookups over them: the priority bands
  (\<open>PRIO_*\<close>, \<open>_block_priority\<close>, \<open>_allow_priority\<close>), the block payloads and the TOP1M yield of
  a zone, the whitelist values and their lookups, the suffix walks (\<open>iter_domain_suffixes\<close>,
  \<open>find_zone_match\<close>, \<open>find_noaaaa_wildcard_parent\<close>, \<open>hsts_check_domain\<close>), and the reference
  notion they implement: the label tails of a name.
\<close>

subsection \<open>Priority bands\<close>

definition prio_feed_block :: nat where "prio_feed_block = 1"
definition prio_feed_allow :: nat where "prio_feed_allow = 2"
definition prio_feed_block_important :: nat where "prio_feed_block_important = 3"
definition prio_feed_allow_important :: nat where "prio_feed_allow_important = 4"
definition prio_user_block :: nat where "prio_user_block = 5"
definition prio_user_allow :: nat where "prio_user_allow = 6"

lemmas prio_defs = prio_feed_block_def prio_feed_allow_def prio_feed_block_important_def
  prio_feed_allow_important_def prio_user_block_def prio_user_allow_def

definition block_priority :: "bool \<Rightarrow> bool \<Rightarrow> nat" where
  "block_priority important user =
    (if user then prio_user_block
     else if important then prio_feed_block_important else prio_feed_block)"

definition allow_priority :: "bool \<Rightarrow> bool \<Rightarrow> nat" where
  "allow_priority important user =
    (if user then prio_user_allow
     else if important then prio_feed_allow_important else prio_feed_allow)"

subsection \<open>Payloads\<close>

text \<open>The value of \<open>dataDB\<close>; a \<open>zoneDB\<close> value may also hold the TOP1M name set it yields to and
  the payload it yields with.\<close>

record payload =
  pl_log :: string
  pl_index :: nat
  pl_important :: bool
  pl_band :: nat

record zone_payload = payload +
  z_top1m :: "string list option"
  z_fallback :: "payload option"

type_synonym data_db = "(string \<times> payload) list"
type_synonym zone_db = "(string \<times> zone_payload) list"

definition block_entry_band :: "'a payload_scheme \<Rightarrow> nat" where
  "block_entry_band entry = pl_band entry"

text \<open>A \<open>whiteDB\<close> value: a bare \<open>bool\<close> of the legacy shape, or a dict whose keys may be absent.\<close>

record white_row =
  wr_wildcard :: "bool option"
  wr_important :: "bool option"
  wr_band :: "nat option"
  wr_index :: "nat option"

datatype white_entry = White_bool bool | White_dict white_row

type_synonym white_db = "(string \<times> white_entry) list"

definition white_new :: "bool \<Rightarrow> bool \<Rightarrow> nat \<Rightarrow> white_entry" where
  "white_new wildcard important band = White_dict \<lparr>wr_wildcard = Some wildcard,
     wr_important = Some important, wr_band = Some band, wr_index = None\<rparr>"

definition dict_get :: "'a option \<Rightarrow> 'a \<Rightarrow> 'a" where
  "dict_get v d = (case v of None \<Rightarrow> d | Some x \<Rightarrow> x)"

definition white_entry_wildcard :: "white_entry \<Rightarrow> bool" where
  "white_entry_wildcard entry =
    (case entry of White_dict e \<Rightarrow> dict_get (wr_wildcard e) False | White_bool b \<Rightarrow> b)"

definition white_entry_important :: "white_entry \<Rightarrow> bool" where
  "white_entry_important entry =
    (case entry of White_dict e \<Rightarrow> dict_get (wr_important e) False | White_bool b \<Rightarrow> False)"

definition white_entry_band :: "white_entry \<Rightarrow> nat" where
  "white_entry_band entry =
    (case entry of
       White_dict e \<Rightarrow> (case wr_band e of
           Some band \<Rightarrow> band
         | None \<Rightarrow> if dict_get (wr_important e) False then prio_user_allow else prio_feed_allow)
     | White_bool b \<Rightarrow> prio_feed_allow)"

definition white_widen_entry :: "white_entry \<Rightarrow> white_entry \<Rightarrow> white_entry" where
  "white_widen_entry existing new = white_new
     (white_entry_wildcard existing \<or> white_entry_wildcard new)
     (white_entry_important existing \<or> white_entry_important new)
     (max (white_entry_band existing) (white_entry_band new))"

subsection \<open>The user whitelist\<close>

text \<open>One line of \<open>_dnsbl_normalise_whitelist\<close>: the domain it names with its wildcard flag, or the
  bucket of its rejection.\<close>

definition whitelist_line :: "string \<Rightarrow> bucket + (string \<times> bool)" where
  "whitelist_line line =
    (let www = lower (take 4 line) = ''www.'';
         body = (if www then drop 4 line else line) in
     case normalise_verdict body (prefix ''.'' body) of
       Inr d \<Rightarrow> Inr (d, prefix ''.'' body)
     | Inl b \<Rightarrow>
        (if www then (case normalise_verdict line False of
             Inr d \<Rightarrow> Inr (d, prefix ''.'' line)
           | Inl b' \<Rightarrow> Inl b')
         else Inl b))"

definition whitelist_step ::
  "string \<Rightarrow> string \<Rightarrow> white_db \<times> reject_tally option \<Rightarrow> white_db \<times> reject_tally option" where
  "whitelist_step source raw st =
    (let (white, tally) = st; line = strip raw in
     if line = [] then (white, tally)
     else (case whitelist_line line of
         Inl b \<Rightarrow> (white, map_option (\<lambda>t. tally_reject t source ''DNSBL'' b) tally)
       | Inr (d, wildcard) \<Rightarrow>
          (let new = white_new wildcard True prio_user_allow in
           (case map_of white d of
              None \<Rightarrow> (AList.update d new white, tally)
            | Some existing \<Rightarrow> (AList.update d (white_widen_entry existing new) white, tally)))))"

definition dnsbl_normalise_whitelist ::
  "string list \<Rightarrow> reject_tally option \<Rightarrow> string \<Rightarrow> white_db \<times> reject_tally option" where
  "dnsbl_normalise_whitelist lines tally source = fold (whitelist_step source) lines ([], tally)"

subsection \<open>Suffix walks\<close>

text \<open>\<open>for _ in range(n, 0, -1): yield q; q = q.split(".", 1)[-1]\<close>\<close>

fun suffix_steps :: "nat \<Rightarrow> string \<Rightarrow> string list" where
  "suffix_steps 0 q = []"
| "suffix_steps (Suc n) q = q # suffix_steps n (after_dot q)"

definition iter_domain_suffixes :: "string \<Rightarrow> string list" where
  "iter_domain_suffixes name = suffix_steps (count_dots name + 1) name"

definition zone_entry_for :: "string \<Rightarrow> zone_payload \<Rightarrow> payload option" where
  "zone_entry_for q_name entry =
    (case z_top1m entry of
       Some top1m \<Rightarrow> if top1m_listed q_name top1m then z_fallback entry
                     else Some (payload.truncate entry)
     | None \<Rightarrow> Some (payload.truncate entry))"

fun zone_walk :: "string \<Rightarrow> zone_db \<Rightarrow> string list \<Rightarrow> (string \<times> payload) option" where
  "zone_walk q_name zone [] = None"
| "zone_walk q_name zone (q # qs) =
    (case map_of zone q of
       None \<Rightarrow> zone_walk q_name zone qs
     | Some entry \<Rightarrow> (case zone_entry_for q_name entry of
           Some p \<Rightarrow> Some (q, p)
         | None \<Rightarrow> zone_walk q_name zone qs))"

definition find_zone_match :: "string \<Rightarrow> zone_db \<Rightarrow> (string \<times> payload) option" where
  "find_zone_match q_name zone = zone_walk q_name zone (iter_domain_suffixes q_name)"

definition find_noaaaa_wildcard_parent :: "string \<Rightarrow> (string \<times> bool) list \<Rightarrow> string option" where
  "find_noaaaa_wildcard_parent q_name noaaaa =
    (let q = after_dot q_name in
     find (\<lambda>s. map_of noaaaa s = Some True) (suffix_steps (count_dots q) q))"

definition evaluate_noaaaa :: "string \<Rightarrow> (string \<times> bool) list \<Rightarrow> bool" where
  "evaluate_noaaaa q_name noaaaa =
    (if map_of noaaaa q_name \<noteq> None then True
     else find_noaaaa_wildcard_parent q_name noaaaa \<noteq> None)"

fun white_walk :: "white_db \<Rightarrow> nat \<Rightarrow> nat \<Rightarrow> string \<Rightarrow> bool \<times> bool" where
  "white_walk white tld_seg 0 q = (False, False)"
| "white_walk white tld_seg (Suc x) q =
    (if Suc x \<ge> tld_seg then
       (case map_of white q of
          Some entry \<Rightarrow> if white_entry_wildcard entry then (True, white_entry_important entry)
                        else white_walk white tld_seg x (after_dot q)
        | None \<Rightarrow> white_walk white tld_seg x (after_dot q))
     else white_walk white tld_seg x (after_dot q))"

definition whitelist_lookup_domain :: "string \<Rightarrow> white_db \<Rightarrow> nat \<Rightarrow> bool \<times> bool" where
  "whitelist_lookup_domain name white tld_seg =
    (case map_of white name of
       Some entry \<Rightarrow> (True, white_entry_important entry)
     | None \<Rightarrow>
        (case (if prefix ''www.'' name then map_of white (drop 4 name) else None) of
           Some entry \<Rightarrow> (True, white_entry_important entry)
         | None \<Rightarrow>
            (let q = after_dot name in white_walk white tld_seg (count_dots q + 1) q)))"

definition whitelist_check_domain :: "string \<Rightarrow> white_db \<Rightarrow> nat \<Rightarrow> bool" where
  "whitelist_check_domain name white tld_seg = fst (whitelist_lookup_domain name white tld_seg)"

fun white_band_walk :: "white_db \<Rightarrow> nat \<Rightarrow> nat \<Rightarrow> string \<Rightarrow> nat \<Rightarrow> nat" where
  "white_band_walk white tld_seg 0 q best = best"
| "white_band_walk white tld_seg (Suc x) q best =
    (let best' = (if Suc x \<ge> tld_seg then
           (case map_of white q of
              Some entry \<Rightarrow> if white_entry_wildcard entry then max best (white_entry_band entry) else best
            | None \<Rightarrow> best)
         else best) in
     white_band_walk white tld_seg x (after_dot q) best')"

definition whitelist_lookup_band :: "string \<Rightarrow> white_db \<Rightarrow> nat \<Rightarrow> nat" where
  "whitelist_lookup_band name white tld_seg =
    (let best1 = (case map_of white name of Some entry \<Rightarrow> white_entry_band entry | None \<Rightarrow> 0) in
     if map_of white name \<noteq> None \<and> best1 = prio_user_allow then best1
     else
      (let www = (if prefix ''www.'' name then map_of white (drop 4 name) else None);
           best2 = (case www of Some entry \<Rightarrow> max best1 (white_entry_band entry) | None \<Rightarrow> best1) in
       if www \<noteq> None \<and> best2 = prio_user_allow then best2
       else
        (let q = after_dot name in white_band_walk white tld_seg (count_dots q + 1) q best2)))"

subsection \<open>Feed labels and HSTS\<close>

type_synonym feed_group_index = "(nat \<times> (string \<times> string)) list"

definition resolve_feed_group :: "nat \<Rightarrow> feed_group_index \<Rightarrow> string \<times> string" where
  "resolve_feed_group idx db =
    (case map_of db idx of Some (feed, grp) \<Rightarrow> (feed, grp) | None \<Rightarrow> (''Unknown'', ''Unknown''))"

definition hsts_check_domain :: "string \<Rightarrow> string list \<Rightarrow> string list \<Rightarrow> string \<Rightarrow> bool \<times> string" where
  "hsts_check_domain name hsts hsts_tlds tld =
    (if tld \<in> set hsts_tlds then (True, ''HSTS_TLD'')
     else if list_ex (\<lambda>q. q \<in> set hsts) (suffix_steps (count_dots name + 1) name) then (True, ''HSTS'')
     else (False, ''Python''))"

subsection \<open>The label tails of a name\<close>

definition tail_at :: "string \<Rightarrow> nat \<Rightarrow> string" where
  "tail_at name i = join_with dot (drop i (split_on dot name))"

definition label_tails :: "string \<Rightarrow> string list" where
  "label_tails name = map (tail_at name) [0..<length (split_on dot name)]"

lemma after_dot_join: "dot \<notin> set l \<Longrightarrow> ls \<noteq> [] \<Longrightarrow> after_dot (join_with dot (l # ls)) = join_with dot ls"
  by (induction l) (auto simp: after_dot_def after_first_def join_Cons)

lemma suffix_steps_labels:
  assumes "ls \<noteq> []" "\<And>l. l \<in> set ls \<Longrightarrow> dot \<notin> set l"
  shows "suffix_steps (length ls) (join_with dot ls) = map (\<lambda>i. join_with dot (drop i ls)) [0..<length ls]"
  using assms
proof (induction ls)
  case Nil
  then show ?case by simp
next
  case (Cons l ls)
  show ?case
  proof (cases "ls = []")
    case True
    then show ?thesis by simp
  next
    case False
    with Cons have "after_dot (join_with dot (l # ls)) = join_with dot ls"
      by (intro after_dot_join) auto
    with Cons False show ?thesis
      by (simp add: map_upt_Suc del: upt_Suc join_with.simps)
  qed
qed

lemma count_dots_Suc: "count_dots name + 1 = length (split_on dot name)"
  using count_dots_labels [of name] by simp

lemma iter_domain_suffixes_tails: "iter_domain_suffixes name = label_tails name"
  using suffix_steps_labels [OF split_on_ne split_on_no_sep, of dot name]
  by (simp add: iter_domain_suffixes_def label_tails_def tail_at_def count_dots_Suc [unfolded Suc_eq_plus1 [symmetric]])

lemma tail_at_0 [simp]: "tail_at name 0 = name"
  by (simp add: tail_at_def)

lemma length_label_tails: "length (label_tails name) = length (split_on dot name)"
  by (simp add: label_tails_def)

lemma tail_at_Suc:
  assumes "Suc i < length (split_on dot name)"
  shows "tail_at name (Suc i) = after_dot (tail_at name i)"
proof -
  have "drop i (split_on dot name) = split_on dot name ! i # drop (Suc i) (split_on dot name)"
    using assms by (simp add: Cons_nth_drop_Suc)
  moreover have "dot \<notin> set (split_on dot name ! i)"
    using assms split_on_no_sep [of _ dot name] by simp
  moreover have "drop (Suc i) (split_on dot name) \<noteq> []" using assms by simp
  ultimately show ?thesis using after_dot_join by (simp add: tail_at_def)
qed

subsection \<open>The zone walk\<close>

lemma zone_walk_first:
  "zone_walk q zone ts = Some (k, p) \<longleftrightarrow>
     (\<exists>i < length ts. k = ts ! i \<and> Option.bind (map_of zone k) (zone_entry_for q) = Some p
        \<and> (\<forall>j < i. Option.bind (map_of zone (ts ! j)) (zone_entry_for q) = None))"
proof (induction ts)
  case Nil
  then show ?case by simp
next
  case (Cons t ts)
  let ?m = "\<lambda>t. Option.bind (map_of zone t) (zone_entry_for q)"
  show ?case
  proof (cases "?m t")
    case None
    then have "zone_walk q zone (t # ts) = zone_walk q zone ts"
      by (auto split: option.splits)
    with Cons None show ?thesis
      by (auto simp add: Ex_less_Suc2 All_less_Suc2 simp del: zone_walk.simps)
  next
    case (Some p')
    then have "zone_walk q zone (t # ts) = Some (t, p')"
      by (cases "map_of zone t") auto
    with Some show ?thesis by (auto simp: Ex_less_Suc2 All_less_Suc2 simp del: zone_walk.simps)
  qed
qed

subsection \<open>The whitelist walks\<close>

text \<open>The whitelist entries that match a name: the exact one, the one without \<open>www.\<close>, and the
  wildcard ones at the tails with at least \<open>tld_seg\<close> labels.\<close>

definition white_tail_entries :: "white_db \<Rightarrow> nat \<Rightarrow> string \<Rightarrow> white_entry list" where
  "white_tail_entries white tld_seg q =
    filter white_entry_wildcard (List.map_filter (map_of white)
      (filter (\<lambda>t. tld_seg \<le> length (split_on dot t)) (label_tails q)))"

definition white_matches :: "string \<Rightarrow> white_db \<Rightarrow> nat \<Rightarrow> white_entry list" where
  "white_matches name white tld_seg =
    List.map_filter (map_of white) ([name] @ (if prefix ''www.'' name then [drop 4 name] else []))
      @ white_tail_entries white tld_seg (after_dot name)"

lemma join_nonempty_count:
  assumes "ls \<noteq> []" "\<And>l. l \<in> set ls \<Longrightarrow> dot \<notin> set l"
  shows "length (split_on dot (join_with dot ls)) = length ls"
  by (simp add: split_join [OF assms])

lemma label_tails_Cons:
  assumes "ls \<noteq> []" "\<And>x. x \<in> set (l # ls) \<Longrightarrow> dot \<notin> set x"
  shows "label_tails (join_with dot (l # ls)) = join_with dot (l # ls) # label_tails (join_with dot ls)"
proof -
  have "split_on dot (join_with dot (l # ls)) = l # ls" "split_on dot (join_with dot ls) = ls"
    using assms by (auto intro: split_join simp del: join_with.simps)
  then show ?thesis
    by (simp add: label_tails_def tail_at_def map_upt_Suc del: upt_Suc join_with.simps)
qed

lemma label_tails_single: "dot \<notin> set l \<Longrightarrow> label_tails l = [l]"
  by (simp add: label_tails_def split_on_single)

lemma white_walk_entries:
  assumes "ls \<noteq> []" "\<And>l. l \<in> set ls \<Longrightarrow> dot \<notin> set l"
  shows "white_walk white seg (length ls) (join_with dot ls) =
    (case white_tail_entries white seg (join_with dot ls) of
       [] \<Rightarrow> (False, False) | e # _ \<Rightarrow> (True, white_entry_important e))"
  using assms
proof (induction ls)
  case Nil
  then show ?case by simp
next
  case (Cons l ls)
  show ?case
  proof (cases "ls = []")
    case True
    with Cons.prems show ?thesis
      by (auto simp: white_tail_entries_def label_tails_single split_on_single map_filter_simps
          split: option.splits)
  next
    case False
    then have ad: "after_dot (join_with dot (l # ls)) = join_with dot ls"
      using Cons.prems by (intro after_dot_join) auto
    have len: "length (split_on dot (join_with dot (l # ls))) = Suc (length ls)"
      using join_nonempty_count [OF Cons.prems] by simp
    have lt: "label_tails (join_with dot (l # ls)) = join_with dot (l # ls) # label_tails (join_with dot ls)"
      using False Cons.prems by (intro label_tails_Cons) auto
    have ih: "white_walk white seg (length ls) (join_with dot ls) =
      (case white_tail_entries white seg (join_with dot ls) of
         [] \<Rightarrow> (False, False) | e # _ \<Rightarrow> (True, white_entry_important e))"
      using Cons False by simp
    show ?thesis
      unfolding length_Cons white_walk.simps ad ih
      unfolding white_tail_entries_def lt
      by (auto simp: len map_filter_simps simp del: join_with.simps split: option.split)
  qed
qed

lemma white_band_walk_entries:
  assumes "ls \<noteq> []" "\<And>l. l \<in> set ls \<Longrightarrow> dot \<notin> set l"
  shows "white_band_walk white seg (length ls) (join_with dot ls) best =
    fold max (map white_entry_band (white_tail_entries white seg (join_with dot ls))) best"
  using assms
proof (induction ls arbitrary: best)
  case Nil
  then show ?case by simp
next
  case (Cons l ls)
  show ?case
  proof (cases "ls = []")
    case True
    with Cons.prems show ?thesis
      by (auto simp: white_tail_entries_def label_tails_single split_on_single map_filter_simps max.commute
          split: option.splits)
  next
    case False
    then have ad: "after_dot (join_with dot (l # ls)) = join_with dot ls"
      using Cons.prems by (intro after_dot_join) auto
    have len: "length (split_on dot (join_with dot (l # ls))) = Suc (length ls)"
      using join_nonempty_count [OF Cons.prems] by simp
    have lt: "label_tails (join_with dot (l # ls)) = join_with dot (l # ls) # label_tails (join_with dot ls)"
      using False Cons.prems by (intro label_tails_Cons) auto
    have ih: "\<And>best. white_band_walk white seg (length ls) (join_with dot ls) best =
      fold max (map white_entry_band (white_tail_entries white seg (join_with dot ls))) best"
      using Cons False by simp
    show ?thesis
      unfolding length_Cons white_band_walk.simps ad ih Let_def
      unfolding white_tail_entries_def lt
      by (auto simp: len map_filter_simps max.commute simp del: join_with.simps split: option.split)
  qed
qed

lemma white_matches_walk:
  "white_walk white seg (count_dots q + 1) q =
    (case white_tail_entries white seg q of [] \<Rightarrow> (False, False) | e # _ \<Rightarrow> (True, white_entry_important e))"
  "white_band_walk white seg (count_dots q + 1) q best =
    fold max (map white_entry_band (white_tail_entries white seg q)) best"
  using white_walk_entries [where ls = "split_on dot q" and white = white and seg = seg,
      OF split_on_ne split_on_no_sep]
    white_band_walk_entries [where ls = "split_on dot q" and white = white and seg = seg and best = best,
      OF split_on_ne split_on_no_sep]
  unfolding count_dots_Suc join_split by (simp_all only:)

lemma lookup_domain_matches:
  "whitelist_lookup_domain name white seg =
    (case white_matches name white seg of [] \<Rightarrow> (False, False) | e # _ \<Rightarrow> (True, white_entry_important e))"
  unfolding whitelist_lookup_domain_def Let_def white_matches_walk white_matches_def
  by (auto simp: map_filter_simps split: option.splits)

lemma fold_max_ge: "(b :: nat) \<le> fold max xs b"
  by (induction xs arbitrary: b) (auto intro: order_trans [OF max.cobounded2])

lemma fold_max_le: "(b :: nat) \<le> c \<Longrightarrow> \<forall>x \<in> set xs. x \<le> c \<Longrightarrow> fold max xs b \<le> c"
  by (induction xs arbitrary: b) auto

lemma fold_max_top: "\<forall>x \<in> set xs. x \<le> (b :: nat) \<Longrightarrow> fold max xs b = b"
  by (simp add: fold_max_ge fold_max_le le_antisym)

text \<open>The bands the build assigns.\<close>

definition white_ok :: "white_db \<Rightarrow> bool" where
  "white_ok white \<longleftrightarrow> (\<forall>e \<in> snd ` set white. 1 \<le> white_entry_band e \<and> white_entry_band e \<le> prio_user_allow)"

lemma white_ok_get: "white_ok white \<Longrightarrow> map_of white k = Some e \<Longrightarrow>
    1 \<le> white_entry_band e \<and> white_entry_band e \<le> prio_user_allow"
  by (force simp: white_ok_def dest: map_of_SomeD)

lemma white_matches_get:
  "e \<in> set (white_matches name white seg) \<Longrightarrow> \<exists>k. map_of white k = Some e"
  by (auto simp: white_matches_def white_tail_entries_def map_filter_def split: if_splits)

lemma lookup_band_matches:
  assumes "white_ok white"
  shows "whitelist_lookup_band name white seg = fold max (map white_entry_band (white_matches name white seg)) 0"
proof -
  have top: "fold max (map white_entry_band (white_tail_entries white seg q)) prio_user_allow = prio_user_allow" for q
  proof (rule fold_max_top, clarify)
    fix x assume "x \<in> set (map white_entry_band (white_tail_entries white seg q))"
    then obtain e k where "x = white_entry_band e" "map_of white k = Some e"
      by (auto simp: white_tail_entries_def map_filter_def)
    with white_ok_get [OF assms] show "x \<le> prio_user_allow" by blast
  qed
  have mx: "max prio_user_allow (white_entry_band e) = prio_user_allow" if "map_of white k = Some e" for k e
    using white_ok_get [OF assms that] by (simp add: max_def)
  show ?thesis
    unfolding whitelist_lookup_band_def white_matches_walk Let_def white_matches_def
    by (cases "map_of white name"; cases "prefix ''www.'' name"; cases "map_of white (drop 4 name)")
      (auto simp: map_filter_simps max.commute top mx dest: mx)
qed

subsection \<open>The user whitelist\<close>

definition white_step_of :: "string \<Rightarrow> (string \<times> bool) option" where
  "white_step_of raw = (if strip raw = [] then None
     else (case whitelist_line (strip raw) of Inl _ \<Rightarrow> None | Inr p \<Rightarrow> Some p))"

lemma map_of_whitelist_step:
  "map_of (fst (whitelist_step source raw (white, tally))) d =
     (case white_step_of raw of
        Some (d', w) \<Rightarrow> if d' = d
          then Some (case map_of white d of None \<Rightarrow> white_new w True prio_user_allow
                 | Some e \<Rightarrow> white_widen_entry e (white_new w True prio_user_allow))
          else map_of white d
      | None \<Rightarrow> map_of white d)"
  by (auto simp: whitelist_step_def white_step_of_def Let_def update_conv' split: sum.split option.split)

lemma white_new_fields [simp]:
  "white_entry_wildcard (white_new w i b) = w" "white_entry_important (white_new w i b) = i"
  "white_entry_band (white_new w i b) = b"
  by (simp_all add: white_new_def white_entry_wildcard_def white_entry_important_def white_entry_band_def
      dict_get_def)

lemma whitelist_fold:
  "map_of (fst (fold (whitelist_step source) lines (white, tally))) d =
    (if \<exists>w. Some (d, w) \<in> white_step_of ` set lines
     then Some (case map_of white d of
         None \<Rightarrow> white_new (Some (d, True) \<in> white_step_of ` set lines) True prio_user_allow
       | Some e \<Rightarrow> white_widen_entry e (white_new (Some (d, True) \<in> white_step_of ` set lines) True prio_user_allow))
     else map_of white d)"
proof (induction lines arbitrary: white tally)
  case Nil
  then show ?case by simp
next
  case (Cons raw lines)
  obtain white' tally' where st: "whitelist_step source raw (white, tally) = (white', tally')"
    by (cases "whitelist_step source raw (white, tally)")
  note step = map_of_whitelist_step [of source raw white tally d, unfolded st fst_conv]
  have "map_of (fst (fold (whitelist_step source) (raw # lines) (white, tally))) d =
      map_of (fst (fold (whitelist_step source) lines (white', tally'))) d"
    by (simp add: st)
  also note Cons.IH
  finally show ?case
    unfolding step
    by (cases "white_step_of raw"; cases "map_of white d")
      (auto simp: white_widen_entry_def split: if_splits)
qed

subsection \<open>Properties\<close>

text \<open>The zone walk finds the nearest enclosing zone that blocks the name: the longest label
  tail of the queried name whose zone entry does not yield it to TOP1M, with the payload that
  entry gives the name.\<close>

theorem find_zone_match_nearest:
  "find_zone_match q zone = Some (k, p) \<longleftrightarrow>
     (\<exists>i < length (split_on dot q). k = tail_at q i
        \<and> Option.bind (map_of zone k) (zone_entry_for q) = Some p
        \<and> (\<forall>j < i. Option.bind (map_of zone (tail_at q j)) (zone_entry_for q) = None))"
  unfolding find_zone_match_def iter_domain_suffixes_tails zone_walk_first length_label_tails
  by (rule ex_cong1) (auto simp: label_tails_def)

theorem find_zone_match_nearest_witness:
  "find_zone_match ''a.b.c'' [(''b.c'', \<lparr>pl_log = ''1'', pl_index = 0, pl_important = False, pl_band = 1,
       z_top1m = None, z_fallback = None\<rparr>)]
     = Some (''b.c'', \<lparr>pl_log = ''1'', pl_index = 0, pl_important = False, pl_band = 1\<rparr>)"
  unfolding find_zone_match_nearest
proof (intro exI [of _ "1 :: nat"] conjI allI impI)
  show "1 < length (split_on dot ''a.b.c'')" by code_simp
  show "''b.c'' = tail_at ''a.b.c'' 1" by code_simp
  show "Option.bind (map_of [(''b.c'', \<lparr>pl_log = ''1'', pl_index = 0, pl_important = False, pl_band = 1,
       z_top1m = None, z_fallback = None\<rparr>)] ''b.c'') (zone_entry_for ''a.b.c'')
     = Some \<lparr>pl_log = ''1'', pl_index = 0, pl_important = False, pl_band = 1\<rparr>" by code_simp
  fix j :: nat assume "j < 1"
  then have "j = 0" by simp
  then show "Option.bind (map_of [(''b.c'', \<lparr>pl_log = ''1'', pl_index = 0, pl_important = False, pl_band = 1,
       z_top1m = None, z_fallback = None\<rparr>)] (tail_at ''a.b.c'' j)) (zone_entry_for ''a.b.c'') = None" by simp
qed

text \<open>The two whitelist lookups read the same matches: the boolean lookup reports the first
  match and the band lookup the highest band over all of them, its early return on a user allow
  included; so a name has a positive band exactly when the boolean lookup whitelists it.\<close>

theorem whitelist_lookups_agree:
  assumes "white_ok white"
  shows "whitelist_lookup_band name white seg
      = fold max (map white_entry_band (white_matches name white seg)) 0
    \<and> whitelist_check_domain name white seg = (white_matches name white seg \<noteq> [])
    \<and> (whitelist_lookup_band name white seg > 0) = whitelist_check_domain name white seg
    \<and> whitelist_lookup_band name white seg \<le> prio_user_allow"
proof -
  let ?ms = "white_matches name white seg"
  have b: "whitelist_lookup_band name white seg = fold max (map white_entry_band ?ms) 0"
    by (rule lookup_band_matches [OF assms])
  have c: "whitelist_check_domain name white seg = (?ms \<noteq> [])"
    by (simp add: whitelist_check_domain_def lookup_domain_matches split: list.split)
  have r: "1 \<le> white_entry_band e \<and> white_entry_band e \<le> prio_user_allow" if "e \<in> set ?ms" for e
    using white_matches_get [OF that] white_ok_get [OF assms] by blast
  have pos: "0 < fold max (map white_entry_band ?ms) 0 \<longleftrightarrow> ?ms \<noteq> []"
  proof (cases ?ms)
    case Nil
    then show ?thesis by simp
  next
    case (Cons e es)
    with r [of e] fold_max_ge [of "white_entry_band e" "map white_entry_band es"] show ?thesis by simp
  qed
  have "fold max (map white_entry_band ?ms) 0 \<le> prio_user_allow"
    using r by (intro fold_max_le) auto
  with b c pos show ?thesis by simp
qed

theorem whitelist_lookups_agree_witness:
  "whitelist_lookup_band ''www.a.example.com''
      [(''a.example.com'', white_new False False 2), (''example.com'', white_new True True 6)] 2 = 6
   \<and> whitelist_check_domain ''www.a.example.com''
      [(''a.example.com'', white_new False False 2), (''example.com'', white_new True True 6)] 2"
proof -
  let ?w = "[(''a.example.com'', white_new False False 2), (''example.com'', white_new True True 6)]"
  have ok: "white_ok ?w" by (simp add: white_ok_def prio_user_allow_def)
  have m: "white_matches ''www.a.example.com'' ?w 2
      = [white_new False False 2, white_new True True 6]" by code_simp
  show ?thesis using whitelist_lookups_agree [OF ok, of "''www.a.example.com''" 2] unfolding m by simp
qed

text \<open>Reading the user whitelist is independent of the order and the repetition of its lines: a
  domain is listed exactly when some line names it, always as a user allow of the highest band, and
  it covers its subdomains exactly when some line names it with a leading dot.\<close>

theorem normalise_whitelist_spec:
  "map_of (fst (dnsbl_normalise_whitelist lines tally source)) d =
    (if \<exists>w. Some (d, w) \<in> white_step_of ` set lines
     then Some (white_new (Some (d, True) \<in> white_step_of ` set lines) True prio_user_allow)
     else None)"
  unfolding dnsbl_normalise_whitelist_def whitelist_fold by simp

end
