(* ===== verification/Reconcile.thy ===== *)
theory Reconcile
  imports Psl Abp Lookup
begin

text \<open>
  Stage B of the DNSBL build: \<open>tld_wildcard_classify\<close> and the suffix policy over the public
  suffix resolver, the regex reduction, the priority band of a rule, and \<open>reconcile\<close>.
\<close>

subsection \<open>Data or zone\<close>

datatype dnsbl_class = Class_data | Class_zone

definition psl_rules_empty :: "PslRules \<Rightarrow> bool" where
  "psl_rules_empty rules \<longleftrightarrow> icann_exact rules = [] \<and> icann_wildcard rules = []
     \<and> icann_exception rules = [] \<and> private_exact rules = [] \<and> private_wildcard rules = []
     \<and> private_exception rules = []"

definition tld_wildcard_classify ::
  "unicode_env \<Rightarrow> string \<Rightarrow> PslRules \<Rightarrow> string set \<Rightarrow> bool \<Rightarrow> string set \<Rightarrow> dnsbl_class \<times> string" where
  "tld_wildcard_classify U d rules exclusion include_private blacklist =
    (if psl_rules_empty rules then (Class_data, d)
     else (case resolve_public_suffix U d rules of
       Inl _ \<Rightarrow> (Class_data, d)
     | Inr resolution \<Rightarrow>
        (let suff = (if include_private then public_suffix resolution else icann_suffix resolution);
             root = last_label suff in
         if suff \<in> blacklist \<or> root \<in> blacklist \<or> suff \<in> exclusion \<or> root \<in> exclusion
            \<or> d \<in> exclusion then (Class_data, d)
         else
          (let labels = split_on dot d; suffix_labels = split_on dot suff;
               registrable = (if length labels > length suffix_labels
                 then join_with dot (last_n (length suffix_labels + 1) labels) else []) in
           if d = suff \<or> registrable = [] then (Class_data, d)
           else if d = registrable then (Class_zone, d)
           else (Class_data, d)))))"

definition dnsbl_suffix_feed_policy ::
  "unicode_env \<Rightarrow> string \<Rightarrow> PslRules \<Rightarrow> string \<Rightarrow> string \<Rightarrow> string option" where
  "dnsbl_suffix_feed_policy U name rules private_policy icann_policy =
    (case resolve_public_suffix U name rules of
       Inl _ \<Rightarrow> None
     | Inr resolution \<Rightarrow>
         if name \<noteq> public_suffix resolution then None
         else Some (if private_active resolution then private_policy else icann_policy))"

subsection \<open>Regex reduction\<close>

abbreviation bsl :: char where "bsl \<equiv> CHR 0x5C"

definition rx_label_chars :: "char set" where
  "rx_label_chars = set ''ABCDEFGHIJKLMNOPQRSTUVWXYZabcdefghijklmnopqrstuvwxyz0123456789_-''"

text \<open>\<open>_DNSBL_RX_DOMAIN_LITERAL.match\<close>: runs of label characters joined by escaped dots, at least
  two of them; \<open>$\<close> also matches before a final line feed.\<close>

fun rx_domain_runs :: "bool \<Rightarrow> nat \<Rightarrow> string \<Rightarrow> bool" where
  "rx_domain_runs ne joins [] = (ne \<and> joins \<ge> 1)"
| "rx_domain_runs ne joins (c # cs) =
    (if c \<in> rx_label_chars then rx_domain_runs True joins cs
     else if c = bsl then
       (case cs of [] \<Rightarrow> False
        | e # es \<Rightarrow> if e = dot \<and> ne then rx_domain_runs False (joins + 1) es else False)
     else c = CHR 0x0A \<and> cs = [] \<and> ne \<and> joins \<ge> 1)"

definition rx_domain_literal :: "string \<Rightarrow> bool" where
  "rx_domain_literal lit = rx_domain_runs False 0 lit"

text \<open>\<open>lit.replace("\\.", ".")\<close>\<close>

fun unescape_dots :: "string \<Rightarrow> string" where
  "unescape_dots [] = []"
| "unescape_dots [c] = [c]"
| "unescape_dots (c # e # cs) =
     (if c = bsl \<and> e = dot then dot # unescape_dots cs else c # unescape_dots (e # cs))"

definition rx_wildcard_prefixes :: "string list" where
  "rx_wildcard_prefixes =
    [''^(.+'' @ [bsl] @ ''.)?'', ''(^|'' @ [bsl] @ ''.)'', ''^(?:.+'' @ [bsl] @ ''.)?'']"

definition rx_www_opt :: string where
  "rx_www_opt = ''(www'' @ [bsl] @ ''.)?''"

definition dnsbl_reduce_regex :: "string \<Rightarrow> (bool \<times> string) option" where
  "dnsbl_reduce_regex inner =
    (if \<not> suffix ''$'' inner then None
     else
      (let body = butlast inner in
       case find (\<lambda>pre. prefix pre body) rx_wildcard_prefixes of
         Some pre \<Rightarrow>
          (let lit = drop (length pre) body in
           if rx_domain_literal lit then Some (True, lower (unescape_dots lit)) else None)
       | None \<Rightarrow>
          (if prefix ''^'' body then
            (let lit = drop 1 body;
                 lit = (if lower (take (length rx_www_opt) lit) = rx_www_opt
                        then drop (length rx_www_opt) lit else lit) in
             if rx_domain_literal lit then Some (False, lower (unescape_dots lit)) else None)
           else None)))"

subsection \<open>The emitted rules\<close>

definition dnsbl_rule_band :: "Rule \<Rightarrow> nat" where
  "dnsbl_rule_band rule =
    (let user = (r_provenance rule = User) in
     if r_kind rule = Allow then allow_priority (r_important rule) user
     else block_priority (r_important rule) user)"

record BlockDomainRule =
  bd_cls :: dnsbl_class
  bd_key :: string
  bd_band :: nat
  bd_important :: bool
  bd_provenance :: provenance
  bd_feed :: string
  bd_group :: string
  bd_log :: string

record AllowDomainRule =
  ad_domain :: string
  ad_wildcard :: bool
  ad_band :: nat
  ad_important :: bool
  ad_provenance :: provenance

record RegexRule =
  rx_pattern :: string
  rx_kind :: rule_kind
  rx_band :: nat
  rx_important :: bool
  rx_provenance :: provenance
  rx_feed :: string
  rx_group :: string
  rx_log :: string

record ReconcileResult =
  block_domains :: "BlockDomainRule list"
  allow_domains :: "AllowDomainRule list"
  block_regex_irreducible :: "RegexRule list"
  allow_regex_irreducible :: "RegexRule list"
  important_rules :: bool
  pruned :: nat
  reduced :: nat
  skipped_badfilter :: nat

definition empty_result :: ReconcileResult where
  "empty_result = \<lparr>block_domains = [], allow_domains = [], block_regex_irreducible = [],
     allow_regex_irreducible = [], important_rules = False, pruned = 0, reduced = 0,
     skipped_badfilter = 0\<rparr>"

subsection \<open>reconcile\<close>

definition bad_sigs :: "Rule list \<Rightarrow> (string \<times> string list) set" where
  "bad_sigs rules = r_signature ` set (filter (\<lambda>r. r_badfilter r \<and> r_provenance r = Feed) rules)"

text \<open>Step 1, one rule: the result's counters and the survivors so far.\<close>

definition prune_step ::
  "(string \<times> string list) set \<Rightarrow> Rule \<Rightarrow> ReconcileResult \<times> Rule list \<Rightarrow> ReconcileResult \<times> Rule list" where
  "prune_step bad r st =
    (let (result, survivors) = st in
     if r_badfilter r then (result\<lparr>skipped_badfilter := skipped_badfilter result + 1\<rparr>, survivors)
     else if r_provenance r = Feed \<and> r_signature r \<in> bad then
       (result\<lparr>pruned := pruned result + 1\<rparr>, survivors)
     else (result, survivors @ [r]))"

definition regex_rule_of :: "Rule \<Rightarrow> RegexRule" where
  "regex_rule_of r = \<lparr>rx_pattern = r_key r, rx_kind = r_kind r, rx_band = dnsbl_rule_band r,
     rx_important = r_important r, rx_provenance = r_provenance r, rx_feed = r_feed r,
     rx_group = r_group r, rx_log = r_log r\<rparr>"

definition emit_regex :: "Rule \<Rightarrow> ReconcileResult \<Rightarrow> ReconcileResult" where
  "emit_regex r result =
    (let result = (if r_provenance r = Feed then result\<lparr>important_rules := True\<rparr> else result) in
     if r_kind r = Allow
     then result\<lparr>allow_regex_irreducible := allow_regex_irreducible result @ [regex_rule_of r]\<rparr>
     else result\<lparr>block_regex_irreducible := block_regex_irreducible result @ [regex_rule_of r]\<rparr>)"

definition emit_domain :: "string set \<Rightarrow> Rule \<Rightarrow> bool \<Rightarrow> string \<Rightarrow> ReconcileResult \<Rightarrow> ReconcileResult" where
  "emit_domain exclusion r wildcard d result =
    (let band = dnsbl_rule_band r in
     if r_kind r = Allow then
       result\<lparr>allow_domains := allow_domains result @
         [\<lparr>ad_domain = d, ad_wildcard = wildcard, ad_band = band, ad_important = r_important r,
           ad_provenance = r_provenance r\<rparr>]\<rparr>
     else
       (let cls = (if wildcard \<and> d \<notin> exclusion then Class_zone else Class_data) in
        result\<lparr>block_domains := block_domains result @
          [\<lparr>bd_cls = cls, bd_key = d, bd_band = band, bd_important = r_important r,
            bd_provenance = r_provenance r, bd_feed = r_feed r, bd_group = r_group r,
            bd_log = r_log r\<rparr>]\<rparr>))"

text \<open>Steps 2 to 4, one survivor.\<close>

definition emit_step ::
  "string set \<Rightarrow> Rule \<Rightarrow> ReconcileResult \<times> reject_tally option \<Rightarrow> ReconcileResult \<times> reject_tally option"
  where
  "emit_step exclusion r st =
    (let (result, tally) = st;
         result = (if r_important r \<or> (r_provenance r = Feed \<and> r_kind r = Allow)
                   then result\<lparr>important_rules := True\<rparr> else result) in
     case r_target r of
       Target_regex \<Rightarrow>
        (case dnsbl_reduce_regex (r_key r) of
           None \<Rightarrow> (emit_regex r result, tally)
         | Some (wildcard, d) \<Rightarrow>
             if \<not> dnsbl_within_wire_caps d
             then (result, tally_opt tally (r_feed r) (r_group r) Wire_cap)
             else (emit_domain exclusion r wildcard d (result\<lparr>reduced := reduced result + 1\<rparr>), tally))
     | Target_domain \<Rightarrow> (emit_domain exclusion r (r_wildcard r) (r_key r) result, tally))"

definition reconcile ::
  "Rule list \<Rightarrow> string set \<Rightarrow> reject_tally option \<Rightarrow> ReconcileResult \<times> reject_tally option" where
  "reconcile rules exclusion tally =
    (let (result, survivors) = fold (prune_step (bad_sigs rules)) rules (empty_result, []) in
     fold (emit_step exclusion) survivors (result, tally))"

subsection \<open>What reconcile emits, rule by rule\<close>

definition survivors_of :: "Rule list \<Rightarrow> Rule list" where
  "survivors_of rules = filter (\<lambda>r. \<not> r_badfilter r
     \<and> \<not> (r_provenance r = Feed
          \<and> (\<exists>b \<in> set rules. r_badfilter b \<and> r_provenance b = Feed \<and> r_signature b = r_signature r))) rules"

text \<open>The domain a rule stands for after reduction, with its wildcard flag.\<close>

definition rule_domain :: "Rule \<Rightarrow> (bool \<times> string) option" where
  "rule_domain r = (case r_target r of
       Target_domain \<Rightarrow> Some (r_wildcard r, r_key r)
     | Target_regex \<Rightarrow> (case dnsbl_reduce_regex (r_key r) of
           None \<Rightarrow> None
         | Some (w, d) \<Rightarrow> if dnsbl_within_wire_caps d then Some (w, d) else None))"

definition irreducible :: "Rule \<Rightarrow> bool" where
  "irreducible r \<longleftrightarrow> r_target r = Target_regex \<and> dnsbl_reduce_regex (r_key r) = None"

definition block_rule_of :: "string set \<Rightarrow> Rule \<Rightarrow> bool \<times> string \<Rightarrow> BlockDomainRule" where
  "block_rule_of exclusion r wd =
    \<lparr>bd_cls = (if fst wd \<and> snd wd \<notin> exclusion then Class_zone else Class_data), bd_key = snd wd,
     bd_band = dnsbl_rule_band r, bd_important = r_important r, bd_provenance = r_provenance r,
     bd_feed = r_feed r, bd_group = r_group r, bd_log = r_log r\<rparr>"

definition allow_rule_of :: "Rule \<Rightarrow> bool \<times> string \<Rightarrow> AllowDomainRule" where
  "allow_rule_of r wd = \<lparr>ad_domain = snd wd, ad_wildcard = fst wd, ad_band = dnsbl_rule_band r,
     ad_important = r_important r, ad_provenance = r_provenance r\<rparr>"

definition engages :: "Rule \<Rightarrow> bool" where
  "engages r \<longleftrightarrow> r_important r \<or> (r_provenance r = Feed \<and> (r_kind r = Allow \<or> irreducible r))"

definition emit_of :: "string set \<Rightarrow> Rule list \<Rightarrow> ReconcileResult \<Rightarrow> ReconcileResult" where
  "emit_of exclusion rs result =
    \<lparr>block_domains = block_domains result @ List.map_filter
       (\<lambda>r. if r_kind r = Block then map_option (block_rule_of exclusion r) (rule_domain r) else None) rs,
     allow_domains = allow_domains result @ List.map_filter
       (\<lambda>r. if r_kind r = Allow then map_option (allow_rule_of r) (rule_domain r) else None) rs,
     block_regex_irreducible = block_regex_irreducible result @
       map regex_rule_of (filter (\<lambda>r. irreducible r \<and> r_kind r = Block) rs),
     allow_regex_irreducible = allow_regex_irreducible result @
       map regex_rule_of (filter (\<lambda>r. irreducible r \<and> r_kind r = Allow) rs),
     important_rules = (important_rules result \<or> list_ex engages rs),
     pruned = pruned result,
     reduced = reduced result + length (filter (\<lambda>r. r_target r = Target_regex \<and> rule_domain r \<noteq> None) rs),
     skipped_badfilter = skipped_badfilter result\<rparr>"

lemma emit_of_Nil [simp]: "emit_of ex [] result = result"
  by (simp add: emit_of_def map_filter_simps)

lemma emit_of_append: "emit_of ex (rs @ qs) result = emit_of ex qs (emit_of ex rs result)"
  by (simp add: emit_of_def map_filter_def)

lemma kind_cases: "r_kind r = Block \<or> r_kind r = Allow"
  by (cases "r_kind r") auto

lemmas emit_defs = emit_step_def emit_domain_def emit_regex_def emit_of_def rule_domain_def
  irreducible_def engages_def block_rule_of_def allow_rule_of_def map_filter_simps Let_def

lemma emit_step_of: "fst (emit_step ex r (result, tally)) = emit_of ex [r] result"
proof (cases "r_target r")
  case Target_domain
  then show ?thesis
    by (cases "r_kind r"; cases "r_provenance r"; cases "r_important r") (simp_all add: emit_defs)
next
  case Target_regex
  show ?thesis
  proof (cases "dnsbl_reduce_regex (r_key r)")
    case None
    with Target_regex show ?thesis
      by (cases "r_kind r"; cases "r_provenance r"; cases "r_important r") (simp_all add: emit_defs)
  next
    case (Some wd)
    obtain w d where wd: "wd = (w, d)" by (cases wd)
    show ?thesis
    proof (cases "dnsbl_within_wire_caps d")
      case True
      with Target_regex Some wd show ?thesis
        by (cases "r_kind r"; cases "r_provenance r"; cases "r_important r") (simp_all add: emit_defs)
    next
      case False
      with Target_regex Some wd show ?thesis
        by (cases "r_kind r"; cases "r_provenance r"; cases "r_important r") (simp_all add: emit_defs)
    qed
  qed
qed

lemma fold_emit: "fst (fold (emit_step ex) rs (result, tally)) = emit_of ex rs result"
proof (induction rs arbitrary: result tally)
  case Nil
  then show ?case by simp
next
  case (Cons r rs)
  obtain result' tally' where st: "emit_step ex r (result, tally) = (result', tally')"
    by (cases "emit_step ex r (result, tally)")
  with emit_step_of [of ex r result tally] have "result' = emit_of ex [r] result" by simp
  with Cons st emit_of_append [of ex "[r]" rs result] show ?case by simp
qed

lemma bad_sigs_mem:
  "sg \<in> bad_sigs rules \<longleftrightarrow> (\<exists>b \<in> set rules. r_badfilter b \<and> r_provenance b = Feed \<and> r_signature b = sg)"
  by (auto simp: bad_sigs_def)

lemma fold_prune:
  "fold (prune_step bad) rs (result, acc) =
    (result\<lparr>skipped_badfilter := skipped_badfilter result + length (filter r_badfilter rs),
       pruned := pruned result + length (filter
         (\<lambda>r. \<not> r_badfilter r \<and> r_provenance r = Feed \<and> r_signature r \<in> bad) rs)\<rparr>,
     acc @ filter (\<lambda>r. \<not> r_badfilter r \<and> \<not> (r_provenance r = Feed \<and> r_signature r \<in> bad)) rs)"
  by (induction rs arbitrary: result acc) (auto simp: prune_step_def)

lemma reconcile_emit_of:
  "fst (reconcile rules ex tally) = emit_of ex (survivors_of rules)
     (empty_result\<lparr>skipped_badfilter := length (filter r_badfilter rules),
       pruned := length (filter
         (\<lambda>r. \<not> r_badfilter r \<and> r_provenance r = Feed \<and> r_signature r \<in> bad_sigs rules) rules)\<rparr>)"
  unfolding reconcile_def fold_prune Let_def prod.case fold_emit
  by (simp add: survivors_of_def bad_sigs_mem empty_result_def)

lemma map_filter_mem: "y \<in> set (List.map_filter f xs) \<longleftrightarrow> (\<exists>x \<in> set xs. f x = Some y)"
  by (force simp: map_filter_def)

lemma rule_band_values:
  "r_kind r = Block \<Longrightarrow> dnsbl_rule_band r = (if r_provenance r = User then 5 else if r_important r then 3 else 1)"
  "r_kind r = Allow \<Longrightarrow> dnsbl_rule_band r = (if r_provenance r = User then 6 else if r_important r then 4 else 2)"
  by (auto simp: dnsbl_rule_band_def allow_priority_def block_priority_def prio_defs)

subsection \<open>Lemmas on the reduction\<close>

text \<open>A domain literal as a pattern author writes it: the labels joined by escaped dots.\<close>

definition escaped_literal :: "string list \<Rightarrow> string" where
  "escaped_literal ls = concat (map (\<lambda>l. l @ [bsl, dot]) (butlast ls)) @ last ls"

lemma rx_label_char: "c \<in> rx_label_chars \<Longrightarrow> c \<noteq> bsl \<and> c \<noteq> dot"
  by (auto simp: rx_label_chars_def)

lemma rx_runs_label:
  "set l \<subseteq> rx_label_chars \<Longrightarrow> rx_domain_runs ne n (l @ s) = rx_domain_runs (ne \<or> l \<noteq> []) n s"
proof (induction l arbitrary: ne)
  case Nil
  then show ?case by simp
next
  case (Cons c l)
  then show ?case by simp
qed

lemma rx_bsl_not_label: "bsl \<notin> rx_label_chars"
  by (simp add: rx_label_chars_def)

lemma rx_runs_escaped:
  assumes "ls \<noteq> []" "\<And>l. l \<in> set ls \<Longrightarrow> l \<noteq> [] \<and> set l \<subseteq> rx_label_chars"
  shows "rx_domain_runs False n (escaped_literal ls) = (length ls + n \<ge> 2)"
  using assms
proof (induction ls arbitrary: n)
  case Nil
  then show ?case by simp
next
  case (Cons l ls)
  have l: "l \<noteq> []" "set l \<subseteq> rx_label_chars" using Cons.prems(2) by auto
  show ?case
  proof (cases "ls = []")
    case True
    then show ?thesis using rx_runs_label [OF l(2), of False n "[]"] l(1) by (auto simp: escaped_literal_def)
  next
    case False
    then have e: "escaped_literal (l # ls) = l @ bsl # dot # escaped_literal ls"
      by (simp add: escaped_literal_def)
    have ih: "rx_domain_runs False (Suc n) (escaped_literal ls) = (length ls + Suc n \<ge> 2)"
      using Cons False by simp
    show ?thesis
      unfolding e rx_runs_label [OF l(2)] using l(1) ih rx_bsl_not_label False by (auto simp: Suc_le_eq)
  qed
qed

lemma unescape_label:
  "bsl \<notin> set l \<Longrightarrow> unescape_dots (l @ s) = l @ unescape_dots s"
proof (induction l)
  case Nil
  then show ?case by simp
next
  case (Cons c l)
  then show ?case by (cases "l @ s") auto
qed

lemma unescape_escaped:
  assumes "ls \<noteq> []" "\<And>l. l \<in> set ls \<Longrightarrow> bsl \<notin> set l"
  shows "unescape_dots (escaped_literal ls) = join_with dot ls"
  using assms
proof (induction ls)
  case Nil
  then show ?case by simp
next
  case (Cons l ls)
  have l: "bsl \<notin> set l" using Cons.prems(2) by auto
  show ?case
  proof (cases "ls = []")
    case True
    then show ?thesis using unescape_label [OF l, of "[]"] by (simp add: escaped_literal_def)
  next
    case False
    then have "escaped_literal (l # ls) = l @ bsl # dot # escaped_literal ls"
      by (simp add: escaped_literal_def)
    with unescape_label [OF l] Cons False show ?thesis by (simp add: join_Cons)
  qed
qed

lemma rx_label_no_bsl: "set l \<subseteq> rx_label_chars \<Longrightarrow> bsl \<notin> set l"
  using rx_bsl_not_label by blast

lemma escaped_literal_head:
  assumes "ls \<noteq> []" "\<And>l. l \<in> set ls \<Longrightarrow> l \<noteq> [] \<and> set l \<subseteq> rx_label_chars"
  shows "\<exists>c cs. escaped_literal ls = c # cs \<and> c \<in> rx_label_chars"
proof -
  obtain l rest where ls: "ls = l # rest" using assms(1) by (cases ls) auto
  then obtain c cs where l: "l = c # cs" "c \<in> rx_label_chars" using assms(2) [of l] by (cases l) auto
  then show ?thesis unfolding ls by (cases rest) (auto simp: escaped_literal_def)
qed

lemma rx_prefix_find:
  "find (\<lambda>pre. prefix pre (''^(.+'' @ [bsl] @ ''.)?'' @ s)) rx_wildcard_prefixes = Some (''^(.+'' @ [bsl] @ ''.)?'')"
  "find (\<lambda>pre. prefix pre (''(^|'' @ [bsl] @ ''.)'' @ s)) rx_wildcard_prefixes = Some (''(^|'' @ [bsl] @ ''.)'')"
  "find (\<lambda>pre. prefix pre (''^(?:.+'' @ [bsl] @ ''.)?'' @ s)) rx_wildcard_prefixes
     = Some (''^(?:.+'' @ [bsl] @ ''.)?'')"
  by (simp_all add: rx_wildcard_prefixes_def)

lemma rx_prefix_find_exact:
  assumes "c \<in> rx_label_chars"
  shows "find (\<lambda>pre. prefix pre (''^'' @ c # cs)) rx_wildcard_prefixes = None"
proof -
  have "c \<noteq> CHR ''(''" using assms by (auto simp: rx_label_chars_def)
  then show ?thesis by (simp add: rx_wildcard_prefixes_def)
qed

lemma rx_literal_ok:
  assumes "length ls \<ge> 2" "\<And>l. l \<in> set ls \<Longrightarrow> l \<noteq> [] \<and> set l \<subseteq> rx_label_chars"
  shows "rx_domain_literal (escaped_literal ls)"
    "lower (unescape_dots (escaped_literal ls)) = lower (join_with dot ls)"
proof -
  have ne: "ls \<noteq> []" using assms(1) by auto
  show "rx_domain_literal (escaped_literal ls)"
    using rx_runs_escaped [OF ne assms(2), of 0] assms(1) by (simp add: rx_domain_literal_def)
  show "lower (unescape_dots (escaped_literal ls)) = lower (join_with dot ls)"
    using unescape_escaped [OF ne] assms(2) rx_label_no_bsl by metis
qed

lemma reduce_wildcard:
  assumes "find (\<lambda>pre. prefix pre (p @ lit)) rx_wildcard_prefixes = Some p" "rx_domain_literal lit"
  shows "dnsbl_reduce_regex (p @ lit @ ''$'') = Some (True, lower (unescape_dots lit))"
proof -
  have b: "butlast (p @ lit @ ''$'') = p @ lit" by (simp add: butlast_append)
  have s: "suffix ''$'' (p @ lit @ ''$'')" by (simp add: suffix_def)
  show ?thesis using assms unfolding dnsbl_reduce_regex_def Let_def b by (simp add: s)
qed

lemma reduce_exact:
  assumes "rx_domain_literal (c # cs)" "c \<in> rx_label_chars"
  shows "dnsbl_reduce_regex (''^'' @ (c # cs) @ ''$'') = Some (False, lower (unescape_dots (c # cs)))"
proof -
  have b: "butlast (''^'' @ (c # cs) @ ''$'') = ''^'' @ c # cs" by (simp add: butlast_append)
  have s: "suffix ''$'' (''^'' @ (c # cs) @ ''$'')" by (simp add: suffix_def)
  have "code_pt c \<noteq> 40" "lower_char c = CHR ''('' \<Longrightarrow> c = CHR ''(''"
    using assms(2) lower_char_eq [of "CHR ''(''" c] by (auto simp: rx_label_chars_def code_pt_def)
  then have "lower (take (length rx_www_opt) (c # cs)) \<noteq> rx_www_opt"
    using assms(2) by (auto simp: rx_www_opt_def lower_def rx_label_chars_def)
  then show ?thesis
    using assms(1) rx_prefix_find_exact [OF assms(2), of cs] s
    unfolding dnsbl_reduce_regex_def Let_def b by simp
qed

subsection \<open>Properties\<close>


text \<open>C4. User sovereignty: a user's domain rule that is not itself a \<open>$badfilter\<close> reaches the
  result whatever else the stream holds, a feed \<open>$badfilter\<close> of its own signature included, at band
  5 for a block and 6 for an allow.\<close>

theorem reconcile_user_sovereign:
  assumes "r \<in> set rules" "r_provenance r = User" "\<not> r_badfilter r" "r_target r = Target_domain"
  shows "case r_kind r of
      Block \<Rightarrow> \<exists>b \<in> set (block_domains (fst (reconcile rules exclusion tally))).
        bd_key b = r_key r \<and> bd_band b = prio_user_block \<and> bd_provenance b = User
    | Allow \<Rightarrow> \<exists>a \<in> set (allow_domains (fst (reconcile rules exclusion tally))).
        ad_domain a = r_key r \<and> ad_band a = prio_user_allow \<and> ad_wildcard a = r_wildcard r"
proof -
  have k: "r \<in> set (survivors_of rules)" using assms by (simp add: survivors_of_def)
  have d: "rule_domain r = Some (r_wildcard r, r_key r)" using assms(4) by (simp add: rule_domain_def)
  show ?thesis
  proof (cases "r_kind r")
    case Block
    then have "block_rule_of exclusion r (r_wildcard r, r_key r)
        \<in> set (block_domains (fst (reconcile rules exclusion tally)))"
      using k d by (force simp: reconcile_emit_of emit_of_def empty_result_def map_filter_mem)
    with Block assms(2) rule_band_values(1) [OF Block] show ?thesis
      by (force simp: block_rule_of_def prio_defs)
  next
    case Allow
    then have "allow_rule_of r (r_wildcard r, r_key r)
        \<in> set (allow_domains (fst (reconcile rules exclusion tally)))"
      using k d by (force simp: reconcile_emit_of emit_of_def empty_result_def map_filter_mem)
    with Allow assms(2) rule_band_values(2) [OF Allow] show ?thesis
      by (force simp: allow_rule_of_def prio_defs)
  qed
qed

theorem reconcile_user_sovereign_witness:
  "\<exists>b \<in> set (block_domains (fst (reconcile
       [domain_rule Block ''a.com'' [] False False User ''f'' ''g'' ''1'',
        domain_rule Block ''a.com'' [] False True Feed ''f'' ''g'' ''1''] {} None))).
     bd_key b = ''a.com'' \<and> bd_band b = prio_user_block \<and> bd_provenance b = User"
proof -
  let ?r = "domain_rule Block ''a.com'' [] False False User ''f'' ''g'' ''1''"
  let ?rs = "[?r, domain_rule Block ''a.com'' [] False True Feed ''f'' ''g'' ''1'']"
  have "?r \<in> set ?rs" "r_provenance ?r = User" "\<not> r_badfilter ?r" "r_target ?r = Target_domain"
    by (simp_all add: domain_rule_def)
  from reconcile_user_sovereign [OF this, of "{}" None] show ?thesis by (simp add: domain_rule_def)
qed

text \<open>A literal domain written as a regex folds to that domain: for every list of two or more
  non-empty labels, each subdomain spelling of the pattern gives the wildcard rule of the
  lower-cased domain, and the exact spelling gives the exact rule.\<close>

theorem reduce_regex_roundtrip:
  assumes "length ls \<ge> 2" "\<And>l. l \<in> set ls \<Longrightarrow> l \<noteq> [] \<and> set l \<subseteq> rx_label_chars"
  shows "dnsbl_reduce_regex (''^(.+'' @ [bsl] @ ''.)?'' @ escaped_literal ls @ ''$'')
      = Some (True, lower (join_with dot ls))
    \<and> dnsbl_reduce_regex (''(^|'' @ [bsl] @ ''.)'' @ escaped_literal ls @ ''$'')
      = Some (True, lower (join_with dot ls))
    \<and> dnsbl_reduce_regex (''^(?:.+'' @ [bsl] @ ''.)?'' @ escaped_literal ls @ ''$'')
      = Some (True, lower (join_with dot ls))
    \<and> dnsbl_reduce_regex (''^'' @ escaped_literal ls @ ''$'') = Some (False, lower (join_with dot ls))"
proof -
  note ok = rx_literal_ok [OF assms]
  have ne: "ls \<noteq> []" using assms(1) by auto
  obtain c cs where lit: "escaped_literal ls = c # cs" "c \<in> rx_label_chars"
    using escaped_literal_head [OF ne assms(2)] by blast
  have ex: "dnsbl_reduce_regex (''^'' @ escaped_literal ls @ ''$'') = Some (False, lower (join_with dot ls))"
    using reduce_exact [of c cs] lit ok by simp
  have w: "dnsbl_reduce_regex (p @ escaped_literal ls @ ''$'') = Some (True, lower (join_with dot ls))"
    if "find (\<lambda>pre. prefix pre (p @ escaped_literal ls)) rx_wildcard_prefixes = Some p" for p
    using reduce_wildcard [OF that ok(1)] ok(2) by simp
  show ?thesis
    using w [of "''^(.+'' @ [bsl] @ ''.)?''"] w [of "''(^|'' @ [bsl] @ ''.)''"]
      w [of "''^(?:.+'' @ [bsl] @ ''.)?''"] rx_prefix_find ex by simp
qed

theorem reduce_regex_roundtrip_witness:
  "dnsbl_reduce_regex (''^Ads'' @ [bsl] @ ''.Example'' @ [bsl] @ ''.com$'') = Some (False, ''ads.example.com'')"
proof -
  let ?ls = "[''Ads'', ''Example'', ''com'']"
  have len: "length ?ls \<ge> 2" by simp
  have ok: "\<And>l. l \<in> set ?ls \<Longrightarrow> l \<noteq> [] \<and> set l \<subseteq> rx_label_chars"
    by (auto simp: rx_label_chars_def)
  have lw: "lower (join_with dot ?ls) = ''ads.example.com''" by code_simp
  from reduce_regex_roundtrip [OF len ok, unfolded lw] show ?thesis
    by (simp add: escaped_literal_def)
qed

text \<open>The plain path makes a whole zone of a domain only at a registrable boundary: with
  private suffixes recognised, a zone's key is the domain itself and the registrable domain that
  the public suffix list gives it, one label in front of its suffix, and neither the domain nor its
  suffix is excluded or a blocked top level domain.\<close>

theorem tld_wildcard_zone_registrable:
  assumes "tld_wildcard_classify U d rules exclusion True blacklist = (Class_zone, k)"
    "rules_ok rules" "psl_normalize_name U d = Inr d"
  shows "k = d \<and> (\<exists>r. resolve_public_suffix U d rules = Inr r \<and> registrable_domain r = d
     \<and> length (split_on dot d) = Suc (length (split_on dot (public_suffix r)))
     \<and> d \<notin> exclusion \<and> public_suffix r \<notin> exclusion \<and> public_suffix r \<notin> blacklist)"
proof -
  obtain r where r: "resolve_public_suffix U d rules = Inr r"
    using assms(1) by (auto simp: tld_wildcard_classify_def split: if_splits sum.splits)
  have fr: "index_fresh rules" using assms(2) by (simp add: rules_ok_def)
  have reg: "registrable_domain r = registrable_of (split_on dot d) (public_suffix r)"
    by (rule resolve_fields(2) [OF fr assms(3) r])
  have z: "k = d" "registrable_of (split_on dot d) (public_suffix r) = d"
    "registrable_of (split_on dot d) (public_suffix r) \<noteq> []"
    "d \<notin> exclusion" "public_suffix r \<notin> exclusion" "public_suffix r \<notin> blacklist"
    using assms(1) r by (auto simp: tld_wildcard_classify_def registrable_of_def Let_def split: if_splits)
  have "length (split_on dot d) = Suc (length (split_on dot (public_suffix r)))"
    using psl.registrable_one_more_label [OF assms(2) r] z(2,3) reg by simp
  with z reg r show ?thesis by auto
qed

theorem tld_wildcard_zone_registrable_witness:
  "tld_wildcard_classify plain_unicode ''a.blog.com'' sample_rules {} True {} = (Class_zone, ''a.blog.com'')
   \<and> (\<exists>r. resolve_public_suffix plain_unicode ''a.blog.com'' sample_rules = Inr r
        \<and> registrable_domain r = ''a.blog.com'')"
proof -
  have z: "tld_wildcard_classify plain_unicode ''a.blog.com'' sample_rules {} True {}
      = (Class_zone, ''a.blog.com'')" by code_simp
  have n: "psl_normalize_name plain_unicode ''a.blog.com'' = Inr ''a.blog.com''" by code_simp
  from tld_wildcard_zone_registrable [OF z rules_ok_sample n] z show ?thesis by auto
qed

end
