(* ===== verification/Gate.thy ===== *)
theory Gate
  imports Prelude
begin

text \<open>
  The regex admission gate (\<open>pfb_dnsbl_regex_rules.py\<close>): one left-to-right scan of the pattern
  text with an explicit stack of frames, the cost bound of the branches, the compile text, the log
  excerpt and the pattern/description splitter.  A bit set of character codes is the set of its bit
  positions 0 to 128; a \<open>_Refusal\<close> is the left value of a sum.  The scan's loops are total: each
  step moves the index forward.
\<close>

subsection \<open>Bounds and character sets\<close>

definition regex_static_len_cap :: nat where "regex_static_len_cap = 200"
definition regex_pattern_max_len :: nat where "regex_pattern_max_len = 256"
definition regex_repeat_max :: int where "regex_repeat_max = 255"
definition regex_group_depth_max :: nat where "regex_group_depth_max = 8"
definition regex_cost_max :: int where "regex_cost_max = 262144"
definition regex_class_width_max :: int where "regex_class_width_max = 256"
definition regex_cost_unbounded :: int where "regex_cost_unbounded = 256"
definition cost_saturation :: int where "cost_saturation = 18446744073709551616"

lemmas gate_bounds = regex_pattern_max_len_def regex_repeat_max_def regex_group_depth_max_def
  regex_cost_max_def regex_class_width_max_def regex_cost_unbounded_def cost_saturation_def

definition cs_all :: "int set" where "cs_all = set [0..128]"
definition cs_ascii :: "int set" where "cs_ascii = set [0..127]"
definition cs_digits :: "int set" where "cs_digits = set [48..57]"
definition cs_word :: "int set" where "cs_word = set ([48..57] @ [65..90] @ [95] @ [97..122])"
definition cs_space :: "int set" where "cs_space = set ([9..13] @ [28..32])"
definition cs_dot :: "int set" where "cs_dot = cs_all - {10}"

definition class_escapes :: "char \<Rightarrow> int set" where
  "class_escapes c =
    (if c = CHR ''d'' then cs_digits \<union> {128}
     else if c = CHR ''D'' then cs_all - cs_digits
     else if c = CHR ''w'' then cs_word \<union> {128}
     else if c = CHR ''W'' then cs_all - cs_word
     else if c = CHR ''s'' then cs_space \<union> {128}
     else cs_all - cs_space)"

text \<open>\<open>_fold\<close>: the other case of every letter.\<close>

definition fold_case :: "int set \<Rightarrow> int set" where
  "fold_case members = members \<union> (\<lambda>n. n + 32) ` (members \<inter> set [65..90])
     \<union> (\<lambda>n. n - 32) ` (members \<inter> set [97..122])"

definition is_alnum :: "char \<Rightarrow> bool" where
  "is_alnum c \<longleftrightarrow> is_dec c \<or> (65 \<le> code_pt c \<and> code_pt c \<le> 90) \<or> (97 \<le> code_pt c \<and> code_pt c \<le> 122)"

subsection \<open>Refusals\<close>

datatype refusal =
    Trailing_backslash nat | Unsupported_escape nat | Set_operation nat
  | Unsupported_class_escape nat | Nested_class nat | Empty_class nat | Class_escape_range nat
  | Reversed_range nat | Unclosed_class | Invalid_repeat nat | Repeat_bounds nat | Empty_pattern
  | Over_length | Bad_character | Unsupported_group nat | Groups_nested nat | Unbalanced_close nat
  | Quantified_group | Misplaced_quantifier nat | Unescaped_char char nat | Unbalanced_open
  | Too_costly_unanchored int | Too_costly int | Classes_too_wide int

text \<open>A look-up of a dictionary that misses would be a \<open>KeyError\<close>, which no caller catches.\<close>

datatype gate_error = Refused refusal | Key_error string

subsection \<open>Escapes, classes and quantifiers\<close>

datatype escape_kind = Esc_class | Esc_zero | Esc_literal

definition char_at :: "string \<Rightarrow> nat \<Rightarrow> char option" where
  "char_at p i = (if i < length p then Some (p ! i) else None)"

definition escape :: "string \<Rightarrow> nat \<Rightarrow> refusal + (escape_kind \<times> nat)" where
  "escape p i =
    (case char_at p (i + 1) of
       None \<Rightarrow> Inl (Trailing_backslash i)
     | Some e \<Rightarrow>
         if e \<in> set ''dDwWsS'' then Inr (Esc_class, i + 2)
         else if e \<in> set ''bB'' then Inr (Esc_zero, i + 2)
         else if is_alnum e then Inl (Unsupported_escape i)
         else Inr (Esc_literal, i + 2))"

definition check_set_operation :: "string \<Rightarrow> nat \<Rightarrow> bool" where
  "check_set_operation p i \<longleftrightarrow>
     p ! i \<in> set ''-&~|'' \<and> char_at p (i + 1) = Some (p ! i)"

text \<open>\<open>_class_item\<close>: the code point (none for a class escape), the characters, the next index.\<close>

definition class_item :: "string \<Rightarrow> nat \<Rightarrow> refusal + (int option \<times> int set \<times> nat)" where
  "class_item p i =
    (let c = p ! i in
     if c = CHR 0x5C then
       (case escape p i of
          Inl e \<Rightarrow> Inl e
        | Inr (knd, after) \<Rightarrow>
           (let escaped = p ! (i + 1) in
            case knd of
              Esc_zero \<Rightarrow> Inl (Unsupported_class_escape i)
            | Esc_class \<Rightarrow> Inr (None, class_escapes escaped, after)
            | Esc_literal \<Rightarrow> Inr (Some (int (code_pt escaped)), {int (code_pt escaped)}, after)))
     else if c = CHR ''['' then Inl (Nested_class i)
     else Inr (Some (int (code_pt c)), {int (code_pt c)}, i + 1))"

text \<open>One turn of the loop of \<open>_class_end\<close>: one item, or a range of two.\<close>

definition class_step :: "string \<Rightarrow> nat \<Rightarrow> int set \<Rightarrow> refusal + (int set \<times> nat)" where
  "class_step p i members =
    (if check_set_operation p i then Inl (Set_operation i)
     else (case class_item p i of
       Inl e \<Rightarrow> Inl e
     | Inr (low, found, j) \<Rightarrow>
        (let members = members \<union> found in
         if char_at p j = Some (CHR ''-'')
            \<and> char_at p (j + 1) \<noteq> None \<and> char_at p (j + 1) \<noteq> Some (CHR '']'') then
          (if check_set_operation p j then Inl (Set_operation j)
           else (case class_item p (j + 1) of
             Inl e \<Rightarrow> Inl e
           | Inr (high, _, k) \<Rightarrow>
              (case (low, high) of
                 (Some l, Some h) \<Rightarrow>
                   if l > h then Inl (Reversed_range k)
                   else Inr (members \<union> set [l..h], k)
               | _ \<Rightarrow> Inl (Class_escape_range k))))
         else Inr (members, j))))"

lemma escape_index: "escape p i = Inr (k, j) \<Longrightarrow> j = i + 2 \<and> i + 1 < length p"
  by (auto simp: escape_def char_at_def split: if_splits option.splits)

lemma class_item_index: "class_item p i = Inr (l, f, j) \<Longrightarrow> i < j"
  by (auto simp: class_item_def Let_def dest: escape_index split: if_splits sum.splits escape_kind.splits)

lemma class_step_index: "class_step p i m = Inr (m', j) \<Longrightarrow> i < j"
  by (auto simp: class_step_def Let_def dest!: class_item_index split: if_splits sum.splits option.splits)

function class_loop :: "string \<Rightarrow> nat \<Rightarrow> int set \<Rightarrow> nat \<Rightarrow> refusal + (nat \<times> int set)" where
  "class_loop p i members items =
    (if i < length p then
       (if p ! i = CHR '']'' then (if items = 0 then Inl (Empty_class i) else Inr (i + 1, members))
        else (case class_step p i members of
            Inl e \<Rightarrow> Inl e
          | Inr (members', j) \<Rightarrow> class_loop p j members' (items + 1)))
     else Inl Unclosed_class)"
  by pat_completeness auto
termination
  by (relation "measure (\<lambda>(p, i, m, n). length p - i)") (auto dest!: class_step_index)

declare class_loop.simps [simp del]

definition class_end :: "string \<Rightarrow> nat \<Rightarrow> refusal + (nat \<times> int set \<times> int)" where
  "class_end p i =
    (let negated = (char_at p i = Some (CHR ''^''));
         i = (if negated then i + 1 else i) in
     case class_loop p i {} 0 of
       Inl e \<Rightarrow> Inl e
     | Inr (j, found) \<Rightarrow>
        (let members = fold_case found in
         Inr (j, if negated then cs_all - members else members, int (card (members \<inter> cs_ascii)))))"

definition quantifier_start :: "char set" where
  "quantifier_start = set ''?*+{''"

definition find_from :: "char \<Rightarrow> string \<Rightarrow> nat \<Rightarrow> nat option" where
  "find_from c p i = (let k = length (takeWhile (\<lambda>x. x \<noteq> c) (drop i p)) in
     if i + k < length p then Some (i + k) else None)"

definition is_digits :: "string \<Rightarrow> bool" where
  "is_digits s \<longleftrightarrow> s \<noteq> [] \<and> list_all is_dec s"

text \<open>A repeat count: minimum and maximum, \<open>None\<close> for unbounded.\<close>

type_synonym repeat_count = "int \<times> int option"

definition quantifier_bounds :: "string \<Rightarrow> nat \<Rightarrow> char \<Rightarrow> refusal + (int \<times> int option \<times> nat)" where
  "quantifier_bounds p i c =
    (if c = CHR ''{'' then
      (case find_from (CHR ''}'') p i of
         None \<Rightarrow> Inl (Invalid_repeat i)
       | Some close \<Rightarrow>
          (let body = drop (i + 1) (take close p);
               low_text = before_first (CHR '','') body;
               comma = CHR '','' \<in> set body;
               high_text = after_first (CHR '','') body in
           if \<not> is_digits low_text \<or> (high_text \<noteq> [] \<and> \<not> is_digits high_text)
           then Inl (Invalid_repeat i)
           else
            (let low = dec_int low_text;
                 high = (if comma then (if high_text \<noteq> [] then Some (dec_int high_text) else None)
                         else Some low) in
             Inr (low, high, close + 1))))
     else if c = CHR ''?'' then Inr (0, Some 1, i + 1)
     else if c = CHR ''*'' then Inr (0, None, i + 1)
     else Inr (1, None, i + 1))"

definition quantifier :: "string \<Rightarrow> nat \<Rightarrow> refusal + (nat \<times> repeat_count option)" where
  "quantifier p i =
    (case char_at p i of
       None \<Rightarrow> Inr (i, None)
     | Some c \<Rightarrow>
        if c \<notin> quantifier_start then Inr (i, None)
        else (case quantifier_bounds p i c of
            Inl e \<Rightarrow> Inl e
          | Inr (low, high, after) \<Rightarrow>
             if low > regex_repeat_max
                \<or> (case high of None \<Rightarrow> False | Some h \<Rightarrow> h > regex_repeat_max \<or> low > h)
             then Inl (Repeat_bounds i)
             else Inr (if char_at p after = Some (CHR ''?'') then after + 1 else after, Some (low, high))))"

lemma quantifier_index: "quantifier p i = Inr (j, q) \<Longrightarrow> i \<le> j"
proof -
  have "find_from c p i = Some k \<Longrightarrow> i \<le> k" for c k
    by (auto simp: find_from_def Let_def split: if_splits)
  then show "quantifier p i = Inr (j, q) \<Longrightarrow> i \<le> j"
    by (fastforce simp: quantifier_def quantifier_bounds_def Let_def split: option.splits sum.splits if_splits)
qed

subsection \<open>Branches\<close>

datatype item_kind = Item_zero | Item_atom | Item_group

record item =
  i_kind :: item_kind
  i_members :: "int set"
  i_quantified :: bool
  i_low :: int
  i_high :: "int option"
  i_dollar :: bool
  i_nodes :: int
  i_out :: int
  i_length :: int

definition new_item :: "item_kind \<Rightarrow> item" where
  "new_item k = \<lparr>i_kind = k, i_members = {}, i_quantified = False, i_low = 1, i_high = Some 1,
     i_dollar = False, i_nodes = 0, i_out = 1, i_length = 0\<rparr>"

definition set_quantifier :: "repeat_count option \<Rightarrow> item \<Rightarrow> item" where
  "set_quantifier q it = (case q of None \<Rightarrow> it
     | Some (low, high) \<Rightarrow> it\<lparr>i_quantified := True, i_low := low, i_high := high\<rparr>)"

definition hands_nothing_on :: "item list \<Rightarrow> nat \<Rightarrow> bool \<Rightarrow> nat \<Rightarrow> bool" where
  "hands_nothing_on items idx is_top trailing =
    (if is_top \<and> idx + 1 \<ge> trailing then True
     else if idx + 1 \<ge> length items then False
     else (let following = items ! (idx + 1) in
       i_kind following = Item_atom \<and> i_low following \<ge> 1
       \<and> i_members (items ! idx) \<inter> i_members following = {}))"

definition attempts :: "item \<Rightarrow> int" where
  "attempts it = (case i_high it of None \<Rightarrow> regex_cost_unbounded | Some h \<Rightarrow> h - i_low it + 1)"

definition trailing_index :: "item list \<Rightarrow> nat" where
  "trailing_index items = length items - length (takeWhile i_dollar (rev items))"

text \<open>One item of the branch: the nodes and the ways so far.\<close>

definition item_cost :: "item list \<Rightarrow> bool \<Rightarrow> nat \<Rightarrow> int \<times> int \<Rightarrow> int \<times> int" where
  "item_cost items is_top idx st =
    (let (nodes, paths) = st; it = items ! idx;
         (nodes, paths) =
          (if i_kind it = Item_atom \<and> i_quantified it then
            (nodes + paths * (i_low it + attempts it),
             if hands_nothing_on items idx is_top (trailing_index items) then paths else paths * attempts it)
           else if i_kind it = Item_group \<and> i_quantified it \<and> (i_low it, i_high it) = (0, Some 1) then
            (nodes + paths * (1 + i_nodes it), paths * (1 + i_out it))
           else if i_kind it = Item_group \<and> i_quantified it then
            (nodes + paths * i_length it * (i_low it + attempts it), paths * attempts it)
           else if i_kind it = Item_group then
            (nodes + paths * i_nodes it, paths * i_out it)
           else (nodes + paths, paths)) in
     (min nodes cost_saturation, min paths cost_saturation))"

definition branch_cost :: "item list \<Rightarrow> bool \<Rightarrow> int \<times> int" where
  "branch_cost items is_top =
     fold (item_cost items is_top) [0..<length items] (if items = [] then 1 else 0, 1)"

record frame =
  f_top :: bool
  f_items :: "item list"
  f_nodes :: int
  f_out :: int
  f_atoms :: int
  f_simple :: bool
  f_unanchored :: int
  f_branch_anchored :: bool
  f_dot_runs :: "(nat \<times> nat) list"

definition new_frame :: "bool \<Rightarrow> frame" where
  "new_frame is_top = \<lparr>f_top = is_top, f_items = [], f_nodes = 0, f_out = 0, f_atoms = 0, f_simple = True,
     f_unanchored = 0, f_branch_anchored = False, f_dot_runs = []\<rparr>"

definition end_branch :: "frame \<Rightarrow> frame" where
  "end_branch f =
    (let (nodes, out) = branch_cost (f_items f) (f_top f) in
     f\<lparr>f_nodes := min (f_nodes f + nodes) cost_saturation, f_out := min (f_out f + out) cost_saturation,
       f_unanchored := f_unanchored f + (if f_branch_anchored f then 0 else 1), f_items := [],
       f_branch_anchored := False\<rparr>)"

subsection \<open>The scan\<close>

text \<open>The stack is its is_top frame and the frames below it.\<close>

record scan =
  s_frame :: frame
  s_below :: "frame list"
  s_index :: nat
  s_width :: int

definition scan_open :: "string \<Rightarrow> scan \<Rightarrow> refusal + scan" where
  "scan_open p s =
    (let i = s_index s; rest = drop i p in
     if prefix ''(?'' rest \<and> \<not> prefix ''(?:'' rest then Inl (Unsupported_group i)
     else
      (let i = (if prefix ''(?'' rest then i + 3 else i + 1) in
       if length (s_below s) + 1 > regex_group_depth_max then Inl (Groups_nested i)
       else Inr (s\<lparr>s_frame := new_frame False,
              s_below := (s_frame s)\<lparr>f_simple := False\<rparr> # s_below s, s_index := i\<rparr>)))"

definition scan_close :: "string \<Rightarrow> scan \<Rightarrow> refusal + scan" where
  "scan_close p s =
    (case s_below s of
       [] \<Rightarrow> Inl (Unbalanced_close (s_index s))
     | parent # below \<Rightarrow>
        (let body = end_branch (s_frame s) in
         case quantifier p (s_index s + 1) of
           Inl e \<Rightarrow> Inl e
         | Inr (j, q) \<Rightarrow>
            if q \<noteq> None \<and> q \<noteq> Some (0, Some 1) \<and> \<not> (f_simple body \<and> f_atoms body \<noteq> 0)
            then Inl Quantified_group
            else
             (let grp = set_quantifier q ((new_item Item_group)\<lparr>i_nodes := f_nodes body,
                    i_out := f_out body, i_length := f_atoms body\<rparr>) in
              Inr (s\<lparr>s_frame := parent\<lparr>f_items := f_items parent @ [grp]\<rparr>, s_below := below,
                s_index := j\<rparr>))))"

definition scan_bar :: "scan \<Rightarrow> scan" where
  "scan_bar s = s\<lparr>s_frame := end_branch ((s_frame s)\<lparr>f_simple := False\<rparr>), s_index := s_index s + 1\<rparr>"

definition scan_zero :: "char \<Rightarrow> scan \<Rightarrow> scan" where
  "scan_zero c s =
    (let f = s_frame s;
         f = (if c = CHR ''^'' \<and> f_items f = [] then f\<lparr>f_branch_anchored := True\<rparr> else f);
         f = f\<lparr>f_simple := False,
               f_items := f_items f @ [(new_item Item_zero)\<lparr>i_dollar := (c = CHR ''$'')\<rparr>]\<rparr> in
     s\<lparr>s_frame := f, s_index := s_index s + (if c = CHR ''^'' \<or> c = CHR ''$'' then 1 else 2)\<rparr>)"

text \<open>The characters of the atom at the index, the index after it and the characters its class
  lists.\<close>

definition atom_members :: "string \<Rightarrow> nat \<Rightarrow> char \<Rightarrow> refusal + (int set \<times> nat \<times> int)" where
  "atom_members p i c =
    (if c = CHR ''['' then
      (case class_end p (i + 1) of Inl e \<Rightarrow> Inl e | Inr (j, members, listed) \<Rightarrow> Inr (members, j, listed))
     else if c = CHR 0x5C then
      (case escape p i of
         Inl e \<Rightarrow> Inl e
       | Inr (knd, j) \<Rightarrow>
          (let escaped = p ! (i + 1) in
           Inr (if knd = Esc_class then class_escapes escaped else fold_case {int (code_pt escaped)}, j, 0)))
     else if c = CHR '']'' \<or> c = CHR ''}'' then Inl (Unescaped_char c i)
     else Inr (if c = dot then cs_dot else fold_case {int (code_pt c)}, i + 1, 0))"

definition scan_atom :: "string \<Rightarrow> char \<Rightarrow> scan \<Rightarrow> refusal + scan" where
  "scan_atom p c s =
    (case atom_members p (s_index s) c of
       Inl e \<Rightarrow> Inl e
     | Inr (members, i, listed) \<Rightarrow>
        (let f = s_frame s;
             leading_dot_run = (c = dot \<and> f_top f \<and> f_items f = []
               \<and> (char_at p i = Some (CHR ''*'') \<or> char_at p i = Some (CHR ''+'')));
             run_start = i - 1 in
         case quantifier p i of
           Inl e \<Rightarrow> Inl e
         | Inr (j, q) \<Rightarrow>
            (let f = (if leading_dot_run then f\<lparr>f_dot_runs := f_dot_runs f @ [(run_start, j)],
                        f_items := f_items f @ [new_item Item_zero], f_branch_anchored := True\<rparr> else f);
                 atom = set_quantifier q ((new_item Item_atom)\<lparr>i_members := members\<rparr>);
                 f = f\<lparr>f_atoms := f_atoms f + 1, f_simple := (f_simple f \<and> q = None),
                       f_items := f_items f @ [atom]\<rparr> in
             Inr (s\<lparr>s_frame := f, s_index := j, s_width := s_width s + listed\<rparr>))))"

definition scan_step :: "string \<Rightarrow> scan \<Rightarrow> refusal + scan" where
  "scan_step p s =
    (let c = p ! s_index s in
     if c = CHR ''('' then scan_open p s
     else if c = CHR '')'' then scan_close p s
     else if c = CHR ''|'' then Inr (scan_bar s)
     else if c = CHR ''^'' \<or> c = CHR ''$''
        \<or> (c = CHR 0x5C \<and> (char_at p (s_index s + 1) = Some (CHR ''b'')
             \<or> char_at p (s_index s + 1) = Some (CHR ''B'')))
     then Inr (scan_zero c s)
     else if c \<in> quantifier_start then Inl (Misplaced_quantifier (s_index s))
     else scan_atom p c s)"

lemma class_loop_index: "class_loop p i m n = Inr (j, m') \<Longrightarrow> i < j"
proof (induction p i m n rule: class_loop.induct)
  case (1 p i m n)
  show ?case
  proof (cases "class_step p i m")
    case (Inl e)
    with 1(2) show ?thesis by (subst (asm) class_loop.simps) (auto split: if_splits)
  next
    case (Inr b)
    obtain m1 k where b: "b = (m1, k)" by (cases b)
    have "i < k" using class_step_index Inr b by blast
    moreover have "class_loop p k m1 (n + 1) = Inr (j, m') \<Longrightarrow> i < length p \<Longrightarrow> p ! i \<noteq> CHR '']'' \<Longrightarrow> k < j"
      using 1(1) Inr b by blast
    ultimately show ?thesis using 1(2) Inr b
      by (subst (asm) class_loop.simps) (auto split: if_splits)
  qed
qed

lemma atom_members_index: "atom_members p i c = Inr (m, j, l) \<Longrightarrow> i < j"
  by (auto simp: atom_members_def class_end_def Let_def
      dest!: class_loop_index escape_index split: if_splits sum.splits prod.splits)

lemma scan_step_index: "scan_step p s = Inr s' \<Longrightarrow> s_index s < s_index s'"
  by (auto simp: scan_step_def scan_open_def scan_close_def scan_bar_def scan_zero_def scan_atom_def Let_def
      dest!: atom_members_index quantifier_index split: if_splits sum.splits list.splits prod.splits)

function scan_loop :: "string \<Rightarrow> scan \<Rightarrow> refusal + scan" where
  "scan_loop p s =
    (if s_index s < length p
     then (case scan_step p s of Inl e \<Rightarrow> Inl e | Inr s' \<Rightarrow> scan_loop p s') else Inr s)"
  by pat_completeness auto
termination
  by (relation "measure (\<lambda>(p, s). length p - s_index s)") (auto dest!: scan_step_index)

declare scan_loop.simps [simp del]

subsection \<open>Admission\<close>

definition dot_run_text :: "string \<Rightarrow> string option" where
  "dot_run_text run = map_of
     [(''.*'', ''(?s:.*)''), (''.*?'', ''(?s:.*?)''),
      (''.+'', ''(?s:.*)[^'' @ [CHR 0x5C] @ ''n]''), (''.+?'', ''(?s:.*?)[^'' @ [CHR 0x5C] @ ''n]'')] run"

definition slice :: "string \<Rightarrow> nat \<Rightarrow> nat \<Rightarrow> string" where
  "slice p a b = drop a (take b p)"

fun compile_parts :: "string \<Rightarrow> nat \<Rightarrow> (nat \<times> nat) list \<Rightarrow> string option" where
  "compile_parts p start [] = Some (drop start p)"
| "compile_parts p start ((a, b) # runs) =
    (case dot_run_text (slice p a b) of
       None \<Rightarrow> None
     | Some t \<Rightarrow> (case compile_parts p b runs of
           None \<Rightarrow> None
         | Some rest \<Rightarrow> Some (slice p start a @ t @ rest)))"

definition compile_text :: "string \<Rightarrow> (nat \<times> nat) list \<Rightarrow> string option" where
  "compile_text p runs = map_option (\<lambda>body. ''^(?:'' @ body @ '')'') (compile_parts p 0 runs)"

definition admit_verdict :: "string \<Rightarrow> scan \<Rightarrow> gate_error + (int \<times> string)" where
  "admit_verdict p s =
    (if s_below s \<noteq> [] then Inl (Refused Unbalanced_open)
     else
      (let is_top = end_branch (s_frame s); anchored = (f_unanchored is_top = 0);
           cost = min (f_nodes is_top * (if anchored then 1 else regex_cost_unbounded)) cost_saturation in
       if cost > regex_cost_max then
         (if f_nodes is_top + f_unanchored is_top \<le> regex_cost_max
             \<and> int (length p) + f_unanchored is_top \<le> int regex_pattern_max_len
             \<and> s_width s \<le> regex_class_width_max
          then Inl (Refused (Too_costly_unanchored cost)) else Inl (Refused (Too_costly cost)))
       else if s_width s > regex_class_width_max then Inl (Refused (Classes_too_wide (s_width s)))
       else if anchored \<and> f_dot_runs is_top \<noteq> [] then
         (case compile_text p (f_dot_runs is_top) of
            None \<Rightarrow> Inl (Key_error p) | Some t \<Rightarrow> Inr (cost, t))
       else Inr (cost, p)))"

definition admit :: "string \<Rightarrow> gate_error + (int \<times> string)" where
  "admit p =
    (if length p = 0 then Inl (Refused Empty_pattern)
     else if length p > regex_pattern_max_len then Inl (Refused Over_length)
     else if list_ex (\<lambda>c. \<not> (33 \<le> code_pt c \<and> code_pt c \<le> 126)) p then Inl (Refused Bad_character)
     else (case scan_loop p \<lparr>s_frame = new_frame True, s_below = [], s_index = 0, s_width = 0\<rparr> of
         Inl e \<Rightarrow> Inl (Refused e)
       | Inr s \<Rightarrow> admit_verdict p s))"

text \<open>The message of a refusal.\<close>

fun refusal_text :: "refusal \<Rightarrow> string" where
  "refusal_text (Trailing_backslash i) = ''trailing backslash at '' @ nat_text i"
| "refusal_text (Unsupported_escape i) = ''unsupported escape at '' @ nat_text i"
| "refusal_text (Set_operation i) = ''set operation in class at '' @ nat_text i"
| "refusal_text (Unsupported_class_escape i) = ''unsupported escape in class at '' @ nat_text i"
| "refusal_text (Nested_class i) = ''nested class at '' @ nat_text i"
| "refusal_text (Empty_class i) = ''empty class at '' @ nat_text i"
| "refusal_text (Class_escape_range i) = ''class escape in range at '' @ nat_text i"
| "refusal_text (Reversed_range i) = ''reversed range at '' @ nat_text i"
| "refusal_text Unclosed_class = ''unclosed class''"
| "refusal_text (Invalid_repeat i) = ''invalid repeat at '' @ nat_text i"
| "refusal_text (Repeat_bounds i) = ''repeat out of bounds at '' @ nat_text i"
| "refusal_text Empty_pattern = ''empty pattern''"
| "refusal_text Over_length = ''over '' @ nat_text regex_pattern_max_len @ '' characters''"
| "refusal_text Bad_character = ''non-ASCII, space or control character''"
| "refusal_text (Unsupported_group i) = ''unsupported group at '' @ nat_text i"
| "refusal_text (Groups_nested i) =
     ''groups nested over '' @ nat_text regex_group_depth_max @ '' at '' @ nat_text i"
| "refusal_text (Unbalanced_close i) = ''unbalanced ) at '' @ nat_text i"
| "refusal_text Quantified_group = ''quantified group''"
| "refusal_text (Misplaced_quantifier i) = ''misplaced quantifier at '' @ nat_text i"
| "refusal_text (Unescaped_char c i) = ''unescaped '' @ [c] @ '' at '' @ nat_text i"
| "refusal_text Unbalanced_open = ''unbalanced (''"
| "refusal_text (Too_costly_unanchored cost) = ''too costly to match unanchored (bound '' @ int_text cost
     @ '' > '' @ int_text regex_cost_max @ ''); anchor it with ^''"
| "refusal_text (Too_costly cost) =
     ''too costly to match (bound '' @ int_text cost @ '' > '' @ int_text regex_cost_max @ '')''"
| "refusal_text (Classes_too_wide w) = ''character classes too wide (width '' @ int_text w
     @ '' > '' @ int_text regex_class_width_max @ '')''"

definition pfb_regex_admission :: "string \<Rightarrow> py_error + (int \<times> string option \<times> string)" where
  "pfb_regex_admission p =
    (case admit p of
       Inr (cost, txt) \<Rightarrow> Inr (cost, None, txt)
     | Inl (Refused r) \<Rightarrow> Inr (0, Some (refusal_text r), p)
     | Inl (Key_error k) \<Rightarrow> Inl (KeyError k))"

definition pfb_regex_excerpt :: "string \<Rightarrow> string" where
  "pfb_regex_excerpt p =
    (let excerpt = ascii_repr (take 32 p) in
     if length p \<le> 32 then excerpt else excerpt @ '' ... ('' @ nat_text (length p) @ '' chars)'')"

subsection \<open>The regex-list line\<close>

fun split_line_at :: "nat \<Rightarrow> string \<Rightarrow> (string \<times> string) option" where
  "split_line_at backslashes [] = None"
| "split_line_at backslashes (c # cs) =
    (if c = CHR 0x5C then map_option (\<lambda>(a, b). (c # a, b)) (split_line_at (backslashes + 1) cs)
     else if c = CHR ''#'' \<and> even backslashes then Some ([], cs)
     else map_option (\<lambda>(a, b). (c # a, b)) (split_line_at 0 cs))"

definition pfb_split_regex_line :: "string \<Rightarrow> string \<times> string option" where
  "pfb_split_regex_line line =
    (case split_line_at 0 line of None \<Rightarrow> (line, None) | Some (p, d) \<Rightarrow> (p, Some d))"

text \<open>The verdict of the save-time probe on one line: nothing for a line it skips.\<close>

definition probe_line ::
  "(string \<Rightarrow> string option) \<Rightarrow> bool \<Rightarrow> string \<Rightarrow> py_error + (string \<times> string) option" where
  "probe_line compile_error regex_cap raw_line =
    (let line = rstrip_of (\<lambda>c. c = CHR 0x0D \<or> c = CHR 0x0A) raw_line in
     if strip line = [] \<or> prefix ''#'' (lstrip_of is_space line) then Inr None
     else
      (let p = strip (fst (pfb_split_regex_line line)) in
       if p = [] then Inr None
       else (case pfb_regex_admission p of
           Inl e \<Rightarrow> Inl e
         | Inr (_, Some reason, _) \<Rightarrow> Inr (Some (p, reason))
         | Inr (_, None, txt) \<Rightarrow>
             if regex_cap \<and> length p > regex_static_len_cap
             then Inr (Some (p, ''over the '' @ nat_text regex_static_len_cap
                 @ ''-character length cap ('' @ [CHR 0x22] @ ''Limit regex length to 200 characters''
                 @ [CHR 0x22] @ '')''))
             else Inr (case compile_error txt of
                 None \<Rightarrow> None | Some e \<Rightarrow> Some (p, ''Python regex compile error: '' @ e)))))"

text \<open>\<open>main\<close>: the numbered reports on standard error, and the exit status.\<close>

fun probe_lines ::
  "(string \<Rightarrow> string option) \<Rightarrow> bool \<Rightarrow> nat \<Rightarrow> string list \<Rightarrow> py_error + string list" where
  "probe_lines compile_error regex_cap n [] = Inr []"
| "probe_lines compile_error regex_cap n (l # ls) =
    (case probe_line compile_error regex_cap l of
       Inl e \<Rightarrow> Inl e
     | Inr v \<Rightarrow> (case probe_lines compile_error regex_cap (n + 1) ls of
           Inl e \<Rightarrow> Inl e
         | Inr reports \<Rightarrow> Inr ((case v of
               None \<Rightarrow> []
             | Some (p, message) \<Rightarrow>
                 [''line '' @ nat_text n @ '': '' @ pfb_regex_excerpt p @ '': '' @ message]) @ reports)))"

definition probe_main ::
  "(string \<Rightarrow> string option) \<Rightarrow> string list \<Rightarrow> string list \<Rightarrow> py_error + (string list \<times> nat)" where
  "probe_main compile_error argv lines =
    (let regex_cap = (length argv > 1 \<and> argv ! 1 = ''1'') in
     case probe_lines compile_error regex_cap 1 lines of
       Inl e \<Rightarrow> Inl e
     | Inr reports \<Rightarrow> Inr (reports, if reports = [] then 0 else 1))"

subsection \<open>The scan's invariant\<close>

text \<open>Every recorded dot run is one of the spellings the compile text knows, and at most eight
  groups are open.\<close>

definition runs_ok :: "string \<Rightarrow> frame \<Rightarrow> bool" where
  "runs_ok p f \<longleftrightarrow> (\<forall>(a, b) \<in> set (f_dot_runs f). dot_run_text (slice p a b) \<noteq> None)"

definition scan_ok :: "string \<Rightarrow> scan \<Rightarrow> bool" where
  "scan_ok p s \<longleftrightarrow> runs_ok p (s_frame s) \<and> list_all (runs_ok p) (s_below s)
     \<and> length (s_below s) \<le> regex_group_depth_max \<and> 0 \<le> s_width s"

lemma end_branch_runs [simp]: "f_dot_runs (end_branch f) = f_dot_runs f"
  by (simp add: end_branch_def Let_def split: prod.split)

lemma runs_ok_updates [simp]:
  "runs_ok p (f\<lparr>f_items := x\<rparr>) = runs_ok p f" "runs_ok p (f\<lparr>f_simple := y\<rparr>) = runs_ok p f"
  "runs_ok p (f\<lparr>f_branch_anchored := y\<rparr>) = runs_ok p f" "runs_ok p (end_branch f) = runs_ok p f"
  "runs_ok p (new_frame y)"
  by (simp_all add: runs_ok_def new_frame_def)

lemma quantifier_star_plus:
  assumes "char_at p i = Some c" "c = CHR ''*'' \<or> c = CHR ''+''"
  shows "\<exists>q. quantifier p i = Inr (if char_at p (i + 1) = Some (CHR ''?'') then i + 2 else i + 1, Some q)"
  using assms by (auto simp: quantifier_def quantifier_bounds_def quantifier_start_def gate_bounds)

lemma slice_two:
  assumes "char_at p i = Some c" "char_at p (i + 1) = Some d"
  shows "slice p i (i + 2) = [c, d]"
proof -
  have "i + 1 < length p" "p ! i = c" "p ! (i + 1) = d" using assms by (auto simp: char_at_def split: if_splits)
  then show ?thesis by (simp add: slice_def take_Suc_conv_app_nth eval_nat_numeral)
qed

lemma slice_three:
  assumes "char_at p i = Some c" "char_at p (i + 1) = Some d" "char_at p (i + 2) = Some e"
  shows "slice p i (i + 3) = [c, d, e]"
proof -
  have "i + 2 < length p" "p ! i = c" "p ! (i + 1) = d" "p ! (i + 2) = e"
    using assms by (auto simp: char_at_def split: if_splits)
  then show ?thesis by (simp add: slice_def take_Suc_conv_app_nth eval_nat_numeral)
qed

lemma dot_run_known:
  assumes "char_at p i = Some dot" "char_at p (i + 1) = Some c" "c = CHR ''*'' \<or> c = CHR ''+''"
    "quantifier p (i + 1) = Inr (j, q)"
  shows "dot_run_text (slice p i j) \<noteq> None"
proof -
  have j: "j = (if char_at p (i + 2) = Some (CHR ''?'') then i + 3 else i + 2)"
    using quantifier_star_plus [OF assms(2,3)] assms(4) by auto
  show ?thesis
  proof (cases "char_at p (i + 2) = Some (CHR ''?'')")
    case True
    with j slice_three [OF assms(1,2) True] assms(3) show ?thesis by (auto simp: dot_run_text_def)
  next
    case False
    with j slice_two [OF assms(1,2)] assms(3) show ?thesis by (auto simp: dot_run_text_def)
  qed
qed

lemma atom_members_dot: "atom_members p i dot = Inr (cs_dot, i + 1, 0)"
  by (simp add: atom_members_def)

lemma atom_members_listed: "atom_members p i c = Inr (m, j, l) \<Longrightarrow> 0 \<le> l"
  by (auto simp: atom_members_def class_end_def Let_def split: if_splits sum.splits prod.splits)

lemma scan_atom_ok:
  assumes "scan_atom p c s = Inr s'" "scan_ok p s" "char_at p (s_index s) = Some c"
  shows "scan_ok p s'"
proof -
  obtain m i l where am: "atom_members p (s_index s) c = Inr (m, i, l)"
    using assms(1) by (cases "atom_members p (s_index s) c") (auto simp: scan_atom_def)
  obtain j q where q: "quantifier p i = Inr (j, q)"
    using assms(1) am by (cases "quantifier p i") (auto simp: scan_atom_def Let_def)
  let ?lead = "c = dot \<and> f_top (s_frame s) \<and> f_items (s_frame s) = []
      \<and> (char_at p i = Some (CHR ''*'') \<or> char_at p i = Some (CHR ''+''))"
  have s': "f_dot_runs (s_frame s') = f_dot_runs (s_frame s) @ (if ?lead then [(i - 1, j)] else [])"
    "s_below s' = s_below s" "s_width s' = s_width s + l"
    using assms(1) am q by (auto simp: scan_atom_def Let_def)
  have "dot_run_text (slice p (i - 1) j) \<noteq> None" if ?lead
  proof -
    from that am have i: "i = s_index s + 1" using atom_members_dot by auto
    then show ?thesis using that dot_run_known [of p "s_index s" _ j q] assms(3) q by auto
  qed
  with s' assms(2) atom_members_listed [OF am] show ?thesis by (auto simp: scan_ok_def runs_ok_def)
qed

lemma scan_other_ok:
  assumes "scan_ok p s"
  shows "scan_open p s = Inr s' \<Longrightarrow> scan_ok p s'" "scan_close p s = Inr s' \<Longrightarrow> scan_ok p s'"
    "scan_ok p (scan_bar s)" "scan_ok p (scan_zero c s)"
  using assms
  by (auto simp: scan_ok_def scan_open_def scan_close_def scan_bar_def scan_zero_def Let_def
      split: if_splits list.splits sum.splits)

lemma scan_step_ok:
  assumes "scan_step p s = Inr s'" "scan_ok p s" "s_index s < length p"
  shows "scan_ok p s'"
proof -
  have "char_at p (s_index s) = Some (p ! s_index s)" using assms(3) by (simp add: char_at_def)
  with assms(1,2) scan_other_ok [OF assms(2)] scan_atom_ok [of p "p ! s_index s" s s'] show ?thesis
    by (auto simp: scan_step_def Let_def split: if_splits)
qed

lemma scan_loop_ok: "scan_loop p s = Inr s' \<Longrightarrow> scan_ok p s \<Longrightarrow> scan_ok p s'"
proof (induction p s rule: scan_loop.induct)
  case (1 p s)
  show ?case
  proof (cases "s_index s < length p")
    case True
    with 1(2) obtain s1 where s1: "scan_step p s = Inr s1" "scan_loop p s1 = Inr s'"
      by (subst (asm) scan_loop.simps) (auto split: sum.splits)
    with 1(1) [OF True s1(1)] scan_step_ok [OF s1(1) 1(3) True] show ?thesis by blast
  next
    case False
    with 1(2,3) show ?thesis by (subst (asm) scan_loop.simps) simp
  qed
qed

lemma compile_parts_known:
  "\<forall>(a, b) \<in> set runs. dot_run_text (slice p a b) \<noteq> None \<Longrightarrow> compile_parts p start runs \<noteq> None"
  by (induction p start runs rule: compile_parts.induct) (auto split: option.splits)

lemma admit_scan:
  assumes "scan_loop p \<lparr>s_frame = new_frame True, s_below = [], s_index = 0, s_width = 0\<rparr> = Inr s"
  shows "scan_ok p s"
  using scan_loop_ok [OF assms] by (simp add: scan_ok_def runs_ok_def new_frame_def)

lemma admit_no_key_error: "admit p \<noteq> Inl (Key_error k)"
proof -
  have "admit_verdict p s \<noteq> Inl (Key_error k)" if "scan_ok p s" for s
    using that compile_parts_known [of "f_dot_runs (s_frame s)" p 0]
    by (auto simp: admit_verdict_def compile_text_def Let_def scan_ok_def runs_ok_def split: option.splits)
  then show ?thesis using admit_scan [of p] by (auto simp: admit_def split: sum.splits)
qed

lemma admission_returns: "\<exists>cost reason txt. pfb_regex_admission p = Inr (cost, reason, txt)"
  using admit_no_key_error [of p]
  by (auto simp: pfb_regex_admission_def split: sum.splits gate_error.splits)

subsection \<open>The regex-list line\<close>

fun trailing_backslashes :: "nat \<Rightarrow> string \<Rightarrow> nat" where
  "trailing_backslashes n [] = n"
| "trailing_backslashes n (c # cs) = trailing_backslashes (if c = CHR 0x5C then n + 1 else 0) cs"

lemma split_line_at_Some:
  "split_line_at n l = Some (a, b) \<Longrightarrow> l = a @ CHR ''#'' # b \<and> even (trailing_backslashes n a)"
  by (induction n l arbitrary: a rule: split_line_at.induct) (auto split: if_splits)

lemma split_line_at_first:
  "split_line_at n (a @ CHR ''#'' # b) = None \<Longrightarrow> odd (trailing_backslashes n a)"
  by (induction a arbitrary: n) (auto split: if_splits)

lemma split_line_at_unescaped:
  "split_line_at n l = Some (a, b) \<Longrightarrow> a = c @ CHR ''#'' # d \<Longrightarrow> odd (trailing_backslashes n c)"
  by (induction n l arbitrary: a c rule: split_line_at.induct) (auto simp: Cons_eq_append_conv split: if_splits)

subsection \<open>Properties\<close>




text \<open>A regex-list line splits at its first unescaped hash sign: the parts join back to the
  line, the pattern part ends in an even run of backslashes, and every hash sign inside it follows
  an odd one; a line without an unescaped hash sign is all pattern.\<close>

theorem split_regex_line_roundtrip:
  "case pfb_split_regex_line line of
     (pat, Some desc) \<Rightarrow> line = pat @ CHR ''#'' # desc \<and> even (trailing_backslashes 0 pat)
        \<and> (\<forall>a b. pat = a @ CHR ''#'' # b \<longrightarrow> odd (trailing_backslashes 0 a))
   | (pat, None) \<Rightarrow> pat = line \<and> (\<forall>a b. line = a @ CHR ''#'' # b \<longrightarrow> odd (trailing_backslashes 0 a))"
  using split_line_at_Some split_line_at_first split_line_at_unescaped
  by (auto simp: pfb_split_regex_line_def split: option.split prod.split)

theorem split_regex_line_roundtrip_witness:
  "pfb_split_regex_line (''a'' @ [CHR 0x5C] @ ''#b#note'') = (''a'' @ [CHR 0x5C] @ ''#b'', Some ''note'')
   \<and> odd (trailing_backslashes 0 (''a'' @ [CHR 0x5C]))"
proof -
  have s: "pfb_split_regex_line (''a'' @ [CHR 0x5C] @ ''#b#note'') = (''a'' @ [CHR 0x5C] @ ''#b'', Some ''note'')"
    by code_simp
  show ?thesis
    using split_regex_line_roundtrip [of "''a'' @ [CHR 0x5C] @ ''#b#note''"] unfolding s by simp
qed

end
