(* ===== verification/RegexList.thy ===== *)
theory RegexList
  imports Reconcile Gate
begin

text \<open>
  The regex lists: compiling admitted rules (\<open>_dnsbl_compile_regex_rules\<close>,
  \<open>_dnsbl_compile_user_regex\<close>, \<open>_RefusalLog\<close>), the literal prefilter (\<open>_required_literal\<close>,
  \<open>_build_regex_index\<close>, \<open>_regex_candidates\<close>) and the timed scans with their warnings.  The \<open>re\<close>
  module, the clock and the iteration order of a set are the fields of \<open>re_env\<close>; times are counted
  in ticks of the clock.
\<close>

subsection \<open>The engine\<close>

text \<open>What \<open>_required_literal\<close> reads of a parsed pattern: literals, repeats with their minimum,
  groups, and everything else.\<close>

datatype sre = Lit char | Repeat nat "sre list" | Group "sre list" | Other

record re_env =
  re_parse :: "string \<Rightarrow> sre list option"
  re_search :: "string \<Rightarrow> string \<Rightarrow> bool"
  re_compile_error :: "string \<Rightarrow> (string \<times> string) option"
  re_elapsed :: "nat \<Rightarrow> int"
  re_format_ms :: "int \<Rightarrow> string"
  re_set_order :: "string list \<Rightarrow> string list"

record regex_payload =
  re_text :: string
  re_important :: bool
  re_band :: nat

type_synonym regex_db = "(string \<times> regex_payload) list"

text \<open>The diagnostics: the names already warned about, the lines written to \<open>sys.stderr\<close>, and the
  number of timed searches.\<close>

record diag =
  d_warned :: "string list"
  d_stderr :: "string list"
  d_clock :: nat

definition write_line :: "string \<Rightarrow> diag \<Rightarrow> diag" where
  "write_line line d = d\<lparr>d_stderr := d_stderr d @ [line]\<rparr>"

subsection \<open>Refusal lines\<close>

definition regex_refusal_log_max :: nat where "regex_refusal_log_max = 20"

record refusal_log =
  rl_logged :: nat
  rl_suppressed :: nat

definition refusal_write :: "string \<Rightarrow> refusal_log \<times> diag \<Rightarrow> refusal_log \<times> diag" where
  "refusal_write line st =
    (let (l, d) = st in
     if rl_logged l < regex_refusal_log_max
     then (l\<lparr>rl_logged := rl_logged l + 1\<rparr>, write_line line d)
     else (l\<lparr>rl_suppressed := rl_suppressed l + 1\<rparr>, d))"

definition refusal_summarize :: "string \<Rightarrow> refusal_log \<times> diag \<Rightarrow> diag" where
  "refusal_summarize knd st =
    (let (l, d) = st in
     if rl_suppressed l \<noteq> 0
     then write_line (''[pfBlockerNG]: '' @ nat_text (rl_suppressed l) @ '' more refused '' @ knd
            @ '' regex rules not logged'') d
     else d)"

subsection \<open>Compiling\<close>

definition kind_text :: "rule_kind \<Rightarrow> string" where
  "kind_text k = (case k of Block \<Rightarrow> ''block'' | Allow \<Rightarrow> ''allow'')"

text \<open>\<open>x or y\<close> of two strings.\<close>

definition or_text :: "string \<Rightarrow> string \<Rightarrow> string" where
  "or_text s d = (if s = [] then d else s)"

text \<open>The verdict on one feed rule: the text to compile, or the refusal line.\<close>

definition feed_rule_verdict :: "re_env \<Rightarrow> bool \<Rightarrow> RegexRule \<Rightarrow> py_error + (string + string)" where
  "feed_rule_verdict E static_cap rule =
    (case pfb_regex_admission (rx_pattern rule) of
       Inl e \<Rightarrow> Inl e
     | Inr (_, Some refusal, _) \<Rightarrow> Inr (Inl (''[pfBlockerNG]: dropping '' @ kind_text (rx_kind rule)
           @ '' regex feed [ '' @ rx_feed rule @ '' ] pattern [ '' @ pfb_regex_excerpt (rx_pattern rule)
           @ '' ] ('' @ refusal @ '')''))
     | Inr (_, None, txt) \<Rightarrow>
         if static_cap \<and> length (rx_pattern rule) > regex_static_len_cap
         then Inr (Inl (''[pfBlockerNG]: dropping over-length '' @ kind_text (rx_kind rule)
           @ '' regex feed [ '' @ rx_feed rule @ '' ] pattern [ '' @ pfb_regex_excerpt (rx_pattern rule)
           @ '' ] (static length cap)''))
         else (case re_compile_error E txt of
             Some (typ, msg) \<Rightarrow> Inr (Inl (''[pfBlockerNG]: ABP regex compile error feed [ '' @ rx_feed rule
               @ '' ] pattern [ '' @ pfb_regex_excerpt (rx_pattern rule) @ '' ]: '' @ typ @ '' ''
               @ pfb_regex_excerpt msg))
           | None \<Rightarrow> Inr (Inr txt)))"

record compile_state =
  c_db :: regex_db
  c_admitted :: nat
  c_log :: "refusal_log \<times> diag"

text \<open>One turn of the loop; \<open>seq\<close> and \<open>admitted\<close> advance together.\<close>

definition compile_step ::
  "re_env \<Rightarrow> bool \<Rightarrow> RegexRule \<Rightarrow> compile_state \<Rightarrow> py_error + compile_state" where
  "compile_step E static_cap rule st =
    (case feed_rule_verdict E static_cap rule of
       Inl e \<Rightarrow> Inl e
     | Inr (Inl line) \<Rightarrow> Inr (st\<lparr>c_log := refusal_write line (c_log st)\<rparr>)
     | Inr (Inr txt) \<Rightarrow>
        (let name = or_text (rx_feed rule) ''DNSBL'' @ ''#'' @ nat_text (c_admitted st) in
         Inr (st\<lparr>c_db := AList.update name \<lparr>re_text = txt, re_important = rx_important rule,
                re_band = rx_band rule\<rparr> (c_db st), c_admitted := c_admitted st + 1\<rparr>)))"

fun compile_loop ::
  "re_env \<Rightarrow> bool \<Rightarrow> RegexRule list \<Rightarrow> compile_state \<Rightarrow> py_error + compile_state" where
  "compile_loop E static_cap [] st = Inr st"
| "compile_loop E static_cap (r # rs) st =
    (case compile_step E static_cap r st of Inl e \<Rightarrow> Inl e | Inr st' \<Rightarrow> compile_loop E static_cap rs st')"

definition dnsbl_compile_regex_rules ::
  "re_env \<Rightarrow> RegexRule list \<Rightarrow> bool \<Rightarrow> diag \<Rightarrow> py_error + (regex_db \<times> nat \<times> diag)" where
  "dnsbl_compile_regex_rules E rules static_cap d =
    (case compile_loop E static_cap rules
        \<lparr>c_db = [], c_admitted = 0, c_log = (\<lparr>rl_logged = 0, rl_suppressed = 0\<rparr>, d)\<rparr> of
       Inl e \<Rightarrow> Inl e
     | Inr st \<Rightarrow> Inr (c_db st, c_admitted st, refusal_summarize
         (if rules = [] then [] else kind_text (rx_kind (last rules))) (c_log st)))"

text \<open>One row of \<open>MAIN.regex_list\<close>, with its number.\<close>

definition user_regex_step ::
  "re_env \<Rightarrow> bool \<Rightarrow> nat \<times> string \<times> string \<Rightarrow> regex_db \<times> refusal_log \<times> diag
     \<Rightarrow> py_error + (regex_db \<times> refusal_log \<times> diag)" where
  "user_regex_step E regex_cap row st =
    (let (r_count, name, pat) = row; (db, log) = st in
     case pfb_regex_admission pat of
       Inl e \<Rightarrow> Inl e
     | Inr (_, Some refusal, _) \<Rightarrow> Inr (db, refusal_write (''[pfBlockerNG]: dropping user regex [ ''
         @ name @ '' ] pattern [ '' @ pfb_regex_excerpt pat @ '' ] on line #'' @ nat_text r_count
         @ '' ('' @ refusal @ '')'') log)
     | Inr (_, None, txt) \<Rightarrow>
         if regex_cap \<and> length pat > regex_static_len_cap
         then Inr (db, refusal_write (''[pfBlockerNG]: dropping over-length user regex [ '' @ name
           @ '' ] pattern [ '' @ pfb_regex_excerpt pat @ '' ] on line #'' @ nat_text r_count
           @ '' (static length cap)'') log)
         else (case re_compile_error E txt of
             None \<Rightarrow> Inr (AList.update name \<lparr>re_text = txt, re_important = False,
               re_band = prio_user_block\<rparr> db, log)
           | Some (typ, msg) \<Rightarrow> Inr (db, refusal_write (''[pfBlockerNG]: Regex [ '' @ name
               @ '' ] compile error pattern [ '' @ pfb_regex_excerpt pat @ '' ] on line #''
               @ nat_text r_count @ '': '' @ typ @ '' '' @ pfb_regex_excerpt msg) log)))"

fun user_regex_loop ::
  "re_env \<Rightarrow> bool \<Rightarrow> (nat \<times> string \<times> string) list \<Rightarrow> regex_db \<times> refusal_log \<times> diag
     \<Rightarrow> py_error + (regex_db \<times> refusal_log \<times> diag)" where
  "user_regex_loop E regex_cap [] st = Inr st"
| "user_regex_loop E regex_cap (r # rs) st =
    (case user_regex_step E regex_cap r st of Inl e \<Rightarrow> Inl e | Inr st' \<Rightarrow> user_regex_loop E regex_cap rs st')"

definition dnsbl_compile_user_regex ::
  "re_env \<Rightarrow> (string \<times> string) list \<Rightarrow> bool \<Rightarrow> diag \<Rightarrow> py_error + (regex_db \<times> diag)" where
  "dnsbl_compile_user_regex E entries regex_cap d =
    (case user_regex_loop E regex_cap (zip [1..<length entries + 1] entries)
        ([], \<lparr>rl_logged = 0, rl_suppressed = 0\<rparr>, d) of
       Inl e \<Rightarrow> Inl e
     | Inr (db, log) \<Rightarrow> Inr (db, refusal_summarize ''user'' log))"

subsection \<open>The literal prefilter\<close>

definition flush_run :: "string \<Rightarrow> string list" where
  "flush_run cur = (if cur \<noteq> [] then [cur] else [])"

fun literal_runs :: "string \<Rightarrow> sre list \<Rightarrow> string list" where
  "literal_runs cur [] = flush_run cur"
| "literal_runs cur (Lit c # xs) = literal_runs (cur @ [c]) xs"
| "literal_runs cur (Repeat mn body # xs) =
     flush_run cur @ (if mn \<ge> 1 then literal_runs [] body else []) @ literal_runs [] xs"
| "literal_runs cur (Group body # xs) = flush_run cur @ literal_runs [] body @ literal_runs [] xs"
| "literal_runs cur (Other # xs) = flush_run cur @ literal_runs [] xs"

text \<open>\<open>max(..., key=len, default="")\<close>: the first longest.\<close>

definition longest :: "string list \<Rightarrow> string" where
  "longest runs = fold (\<lambda>r best. if length r > length best then r else best) runs []"

definition required_literal :: "re_env \<Rightarrow> string \<Rightarrow> string option" where
  "required_literal E pat =
    (case re_parse E pat of
       None \<Rightarrow> None
     | Some parsed \<Rightarrow> (let best = longest (literal_runs [] parsed) in
         if length best \<ge> 2 then Some (lower best) else None))"

type_synonym regex_buckets = "(char \<times> (string \<times> string) list) list"

definition index_step ::
  "re_env \<Rightarrow> string \<times> regex_payload \<Rightarrow> regex_buckets \<times> string list \<Rightarrow> regex_buckets \<times> string list" where
  "index_step E entry st =
    (let (name, r) = entry; (buckets, always) = st;
         lit = (if re_text r \<noteq> [] then required_literal E (re_text r) else None) in
     case lit of
       None \<Rightarrow> (buckets, always @ [name])
     | Some l \<Rightarrow>
        (let ch = hd l; row = (case map_of buckets ch of Some row \<Rightarrow> row | None \<Rightarrow> []) in
         (AList.update ch (row @ [(name, l)]) buckets, always)))"

definition build_regex_index :: "re_env \<Rightarrow> regex_db \<Rightarrow> regex_buckets \<times> string list" where
  "build_regex_index E db = fold (index_step E) db ([], [])"

text \<open>A list as an object: its identity and its value.  A slot holds the identity it was built for.\<close>

type_synonym regex_obj = "nat \<times> regex_db"
type_synonym regex_slot = "(nat \<times> regex_buckets \<times> string list) option"

definition regex_candidates :: "re_env \<Rightarrow> regex_slot \<Rightarrow> regex_obj \<Rightarrow> string \<Rightarrow> regex_slot \<times> string list" where
  "regex_candidates E slot obj q_name =
    (let (ident, db) = obj;
         fresh = (ident, build_regex_index E db);
         slot = (case slot of None \<Rightarrow> fresh | Some s \<Rightarrow> if fst s \<noteq> ident then fresh else s);
         (_, buckets, always) = slot;
         q_lower = lower q_name;
         hits = concat (map (\<lambda>c. case map_of buckets c of
             None \<Rightarrow> []
           | Some row \<Rightarrow> map fst (filter (\<lambda>(name, l). occurs_in l q_lower) row)) (remdups q_lower)) in
     (Some slot, re_set_order E (remdups (always @ hits))))"

subsection \<open>Timed scans\<close>

record regex_scan =
  sc_label :: string
  sc_warn :: int
  sc_rules :: nat
  sc_total :: int
  sc_slowest :: string
  sc_slowest_ms :: int

definition new_scan :: "string \<Rightarrow> int \<Rightarrow> bool \<Rightarrow> regex_scan" where
  "new_scan grp warn_ms user = \<lparr>sc_label = (if user then ''user '' @ grp else grp), sc_warn = warn_ms,
     sc_rules = 0, sc_total = 0, sc_slowest = [], sc_slowest_ms = 0\<rparr>"

definition regex_timed_search :: "re_env \<Rightarrow> string \<Rightarrow> string \<Rightarrow> diag \<Rightarrow> (bool \<times> int) \<times> diag" where
  "regex_timed_search E txt q_name d =
     ((re_search E txt q_name, re_elapsed E (d_clock d)), d\<lparr>d_clock := d_clock d + 1\<rparr>)"

definition regex_warn_slow :: "re_env \<Rightarrow> string \<Rightarrow> int \<Rightarrow> int \<Rightarrow> string \<Rightarrow> diag \<Rightarrow> diag" where
  "regex_warn_slow E name elapsed_ms warn_ms label d =
    (let key = label @ '':'' @ name in
     if elapsed_ms \<le> warn_ms \<or> key \<in> set (d_warned d) then d
     else write_line (''[pfBlockerNG]: slow '' @ label @ '' regex [ '' @ name @ '' ] took ''
            @ re_format_ms E elapsed_ms @ '' ms (warn ceiling '' @ re_format_ms E warn_ms @ '' ms)'')
          (d\<lparr>d_warned := d_warned d @ [key]\<rparr>))"

definition scan_search ::
  "re_env \<Rightarrow> string \<Rightarrow> regex_payload \<Rightarrow> string \<Rightarrow> regex_scan \<times> diag \<Rightarrow> bool \<times> regex_scan \<times> diag" where
  "scan_search E name rule q_name st =
    (let (sc, d) = st;
         ((matched, elapsed_ms), d) = regex_timed_search E (re_text rule) q_name d;
         d = regex_warn_slow E name elapsed_ms (sc_warn sc) (sc_label sc) d;
         sc = sc\<lparr>sc_rules := sc_rules sc + 1, sc_total := sc_total sc + elapsed_ms\<rparr>;
         sc = (if elapsed_ms > sc_slowest_ms sc
               then sc\<lparr>sc_slowest := name, sc_slowest_ms := elapsed_ms\<rparr> else sc) in
     (matched, sc, d))"

definition scan_report :: "re_env \<Rightarrow> regex_scan \<Rightarrow> diag \<Rightarrow> diag" where
  "scan_report E sc d =
    (let key = ''list:'' @ sc_label sc in
     if sc_total sc \<le> sc_warn sc \<or> key \<in> set (d_warned d) then d
     else write_line (''[pfBlockerNG]: slow '' @ sc_label sc @ '' regex list scan took ''
            @ re_format_ms E (sc_total sc) @ '' ms over '' @ nat_text (sc_rules sc) @ '' rules (warn ceiling ''
            @ re_format_ms E (sc_warn sc) @ '' ms); slowest [ '' @ sc_slowest sc @ '' ] ''
            @ re_format_ms E (sc_slowest_ms sc) @ '' ms'')
          (d\<lparr>d_warned := d_warned d @ [key]\<rparr>))"

text \<open>\<open>_first_regex_match\<close>: the list in its order, up to the first match.\<close>

fun first_match_loop ::
  "re_env \<Rightarrow> regex_db \<Rightarrow> string \<Rightarrow> regex_scan \<times> diag
     \<Rightarrow> (string \<times> regex_payload) option \<times> regex_scan \<times> diag" where
  "first_match_loop E [] q_name st = (None, st)"
| "first_match_loop E ((key, rule) # rest) q_name st =
    (let (matched, st') = scan_search E key rule q_name st in
     if matched then (Some (key, rule), st') else first_match_loop E rest q_name st')"

definition first_regex_match ::
  "re_env \<Rightarrow> regex_db \<Rightarrow> string \<Rightarrow> regex_scan \<Rightarrow> diag \<Rightarrow> (string \<times> regex_payload) option \<times> diag" where
  "first_regex_match E db q_name sc d =
    (let (found, sc', d') = first_match_loop E db q_name (sc, d) in (found, scan_report E sc' d'))"

text \<open>\<open>_best_block_regex\<close> over the candidates in their order; every candidate is a key of the list,
  and a missing one is the \<open>KeyError\<close>.\<close>

fun best_regex_loop ::
  "re_env \<Rightarrow> regex_db \<Rightarrow> string list \<Rightarrow> string \<Rightarrow> regex_scan \<times> diag \<Rightarrow> nat \<times> string option
     \<Rightarrow> py_error + (nat \<times> string option) \<times> regex_scan \<times> diag" where
  "best_regex_loop E db [] q_name st best = Inr (best, st)"
| "best_regex_loop E db (key # keys) q_name st best =
    (case map_of db key of
       None \<Rightarrow> Inl (KeyError key)
     | Some rule \<Rightarrow>
        (let (matched, st') = scan_search E key rule q_name st;
             best' = (if matched \<and> re_band rule > fst best then (re_band rule, Some key) else best) in
         best_regex_loop E db keys q_name st' best'))"

definition best_regex ::
  "re_env \<Rightarrow> regex_db \<Rightarrow> string list \<Rightarrow> string \<Rightarrow> regex_scan \<Rightarrow> diag \<Rightarrow> nat
     \<Rightarrow> py_error + (nat \<times> string option) \<times> diag" where
  "best_regex E db candidates q_name sc d best =
    (case best_regex_loop E db candidates q_name (sc, d) (best, None) of
       Inl e \<Rightarrow> Inl e
     | Inr (b, sc', d') \<Rightarrow> Inr (b, scan_report E sc' d'))"

text \<open>The allow lists want the band alone.\<close>

definition best_allow_regex ::
  "re_env \<Rightarrow> regex_db \<Rightarrow> string list \<Rightarrow> string \<Rightarrow> regex_scan \<Rightarrow> diag \<Rightarrow> nat
     \<Rightarrow> py_error + nat \<times> diag" where
  "best_allow_regex E db candidates q_name sc d best =
    (case best_regex E db candidates q_name sc d best of
       Inl e \<Rightarrow> Inl e | Inr (b, d') \<Rightarrow> Inr (fst b, d'))"

subsection \<open>What a match contains\<close>

text \<open>An upper bound of what the engine matches, whatever its flags but \<open>IGNORECASE\<close>: a literal
  consumes itself in some case, a body of a repeat with a positive minimum is matched at least
  once, a group matches its body, and anything else may consume anything.\<close>

inductive sre_match :: "sre list \<Rightarrow> string \<Rightarrow> bool" where
  Match_nil: "sre_match [] []"
| Match_lit: "lower_char d = lower_char c \<Longrightarrow> sre_match xs s \<Longrightarrow> sre_match (Lit c # xs) (d # s)"
| Match_optional: "sre_match xs s \<Longrightarrow> sre_match (Repeat 0 body # xs) (u @ s)"
| Match_repeat: "mn \<ge> 1 \<Longrightarrow> sre_match body u \<Longrightarrow> sre_match xs s \<Longrightarrow> sre_match (Repeat mn body # xs) (u @ v @ s)"
| Match_group: "sre_match body u \<Longrightarrow> sre_match xs s \<Longrightarrow> sre_match (Group body # xs) (u @ s)"
| Match_other: "sre_match xs s \<Longrightarrow> sre_match (Other # xs) (u @ s)"

text \<open>The engine as the code relies on it: a search that succeeds matched some part of the name
  with the parsed pattern, and iterating a set visits its members.\<close>

definition search_sound :: "re_env \<Rightarrow> bool" where
  "search_sound E \<longleftrightarrow> (\<forall>txt tree q. re_parse E txt = Some tree \<longrightarrow> re_search E txt q
     \<longrightarrow> (\<exists>u. sublist u q \<and> sre_match tree u))"

definition order_ok :: "re_env \<Rightarrow> bool" where
  "order_ok E \<longleftrightarrow> (\<forall>xs. set (re_set_order E xs) = set xs)"

definition env_ok :: "re_env \<Rightarrow> bool" where
  "env_ok E \<longleftrightarrow> search_sound E \<and> order_ok E"

lemma sublist_parts: "sublist r u \<Longrightarrow> sublist r (v @ u @ w)"
  by (metis append.assoc sublist_append_leftI sublist_append_rightI sublist_order.order_trans sublist_def)

lemma literal_runs_sublist:
  assumes "sre_match xs s"
  shows "lower cur' = lower cur \<Longrightarrow> r \<in> set (literal_runs cur xs) \<Longrightarrow> sublist (lower r) (lower (cur' @ s))"
  using assms
proof (induction arbitrary: cur cur' r rule: sre_match.induct)
  case Match_nil
  then show ?case by (auto simp: flush_run_def)
next
  case (Match_lit d c xs s)
  then have "lower (cur' @ [d]) = lower (cur @ [c])" by (simp add: lower_def)
  with Match_lit.IH [of "cur' @ [d]" "cur @ [c]" r] Match_lit.prems show ?case by simp
next
  case (Match_optional xs s body u)
  have "r = cur \<or> r \<in> set (literal_runs [] xs)"
    using Match_optional.prems by (auto simp: flush_run_def split: if_splits)
  then show ?case
    using Match_optional.IH [of "[]" "[]" r] Match_optional.prems(1) sublist_parts [of "lower r" "lower s" "lower (cur' @ u)" "[]"]
    by auto
next
  case (Match_repeat mn body u xs s v)
  have "r = cur \<or> r \<in> set (literal_runs [] body) \<or> r \<in> set (literal_runs [] xs)"
    using Match_repeat.prems by (auto simp: flush_run_def split: if_splits)
  then show ?case
    using Match_repeat.IH(1) [of "[]" "[]" r] Match_repeat.IH(2) [of "[]" "[]" r] Match_repeat.prems(1)
      sublist_parts [of "lower r" "lower s" "lower (cur' @ u @ v)" "[]"]
      sublist_parts [of "lower r" "lower u" "lower cur'" "lower (v @ s)"]
    by auto
next
  case (Match_group body u xs s)
  have "r = cur \<or> r \<in> set (literal_runs [] body) \<or> r \<in> set (literal_runs [] xs)"
    using Match_group.prems by (auto simp: flush_run_def split: if_splits)
  then show ?case
    using Match_group.IH(1) [of "[]" "[]" r] Match_group.IH(2) [of "[]" "[]" r] Match_group.prems(1)
      sublist_parts [of "lower r" "lower s" "lower (cur' @ u)" "[]"]
      sublist_parts [of "lower r" "lower u" "lower cur'" "lower s"]
    by auto
next
  case (Match_other xs s u)
  have "r = cur \<or> r \<in> set (literal_runs [] xs)"
    using Match_other.prems by (auto simp: flush_run_def split: if_splits)
  then show ?case
    using Match_other.IH [of "[]" "[]" r] Match_other.prems(1) sublist_parts [of "lower r" "lower s" "lower (cur' @ u)" "[]"]
    by auto
qed

lemma longest_mem: "longest runs \<in> insert [] (set runs)"
proof -
  have "fold (\<lambda>r best. if length r > length best then r else best) runs b \<in> insert b (set runs)" for b :: string
  proof (induction runs arbitrary: b)
    case (Cons r runs)
    from Cons.IH [of "if length r > length b then r else b"] show ?case by (auto split: if_splits)
  qed simp
  then show ?thesis by (simp add: longest_def)
qed

lemma sublist_lower: "sublist u q \<Longrightarrow> sublist (lower u) (lower q)"
  unfolding sublist_def lower_def by (metis map_append)

lemma required_literal_occurs:
  assumes "search_sound E" "required_literal E txt = Some l" "re_search E txt q"
  shows "occurs_in l (lower q)" "l \<noteq> []"
proof -
  obtain tree where t: "re_parse E txt = Some tree" "2 \<le> length (longest (literal_runs [] tree))"
    "l = lower (longest (literal_runs [] tree))"
    using assms(2) by (auto simp: required_literal_def Let_def split: option.splits if_splits)
  show "l \<noteq> []" using t(2,3) by (auto simp flip: length_0_conv)
  have m: "longest (literal_runs [] tree) \<in> set (literal_runs [] tree)"
    using longest_mem [of "literal_runs [] tree"] t(2) by auto
  obtain u where u: "sublist u q" "sre_match tree u"
    using assms(1,3) t(1) unfolding search_sound_def by blast
  have "sublist l (lower ([] @ u))" using literal_runs_sublist [OF u(2) refl m] t(3) by simp
  with sublist_lower [OF u(1)] show "occurs_in l (lower q)"
    by (simp add: occurs_in_sublist)
qed

subsection \<open>The index\<close>

definition entry_literal :: "re_env \<Rightarrow> regex_payload \<Rightarrow> string option" where
  "entry_literal E r = (if re_text r \<noteq> [] then required_literal E (re_text r) else None)"

lemma build_index_mem:
  "(name \<in> set (snd (fold (index_step E) db (b, a))) \<longleftrightarrow>
      name \<in> set a \<or> (\<exists>r. (name, r) \<in> set db \<and> entry_literal E r = None))
   \<and> ((\<exists>row. map_of (fst (fold (index_step E) db (b, a))) ch = Some row \<and> (name, l) \<in> set row) \<longleftrightarrow>
      (\<exists>row. map_of b ch = Some row \<and> (name, l) \<in> set row)
      \<or> (\<exists>r. (name, r) \<in> set db \<and> entry_literal E r = Some l \<and> hd l = ch))"
proof (induction db arbitrary: b a)
  case Nil
  then show ?case by simp
next
  case (Cons e db)
  obtain n r where e: "e = (n, r)" by (cases e)
  show ?case
  proof (cases "entry_literal E r")
    case None
    then have "index_step E e (b, a) = (b, a @ [n])"
      by (simp add: index_step_def e entry_literal_def Let_def)
    with Cons.IH [of b "a @ [n]"] None show ?thesis by (auto simp: e)
  next
    case (Some k)
    then have "index_step E e (b, a) =
        (AList.update (hd k) ((case map_of b (hd k) of Some row \<Rightarrow> row | None \<Rightarrow> []) @ [(n, k)]) b, a)"
      by (simp add: index_step_def e entry_literal_def Let_def)
    with Cons.IH [of "AList.update (hd k) ((case map_of b (hd k) of Some row \<Rightarrow> row | None \<Rightarrow> []) @ [(n, k)]) b" a]
      Some show ?thesis by (auto simp: e update_conv' split: option.splits)
  qed
qed

lemma build_index_always:
  "name \<in> set (snd (build_regex_index E db)) \<longleftrightarrow> (\<exists>r. (name, r) \<in> set db \<and> entry_literal E r = None)"
  using build_index_mem [of name E db "[]" "[]"] by (simp add: build_regex_index_def)

lemma build_index_bucket:
  "(\<exists>row. map_of (fst (build_regex_index E db)) ch = Some row \<and> (name, l) \<in> set row) \<longleftrightarrow>
     (\<exists>r. (name, r) \<in> set db \<and> entry_literal E r = Some l \<and> hd l = ch)"
  using build_index_mem [of name E db "[]" "[]" ch l] by (simp add: build_regex_index_def)

text \<open>A cached slot is as good as a fresh one as long as an identity names one list.\<close>

definition slot_ok :: "re_env \<Rightarrow> (nat \<Rightarrow> regex_db) \<Rightarrow> regex_slot \<Rightarrow> bool" where
  "slot_ok E heap slot \<longleftrightarrow>
     (case slot of None \<Rightarrow> True | Some (i, idx) \<Rightarrow> idx = build_regex_index E (heap i))"

lemma candidates_slot:
  assumes "slot_ok E heap slot"
  shows "regex_candidates E slot (i, heap i) q = regex_candidates E None (i, heap i) q"
    and "slot_ok E heap (fst (regex_candidates E slot (i, heap i) q))"
  using assms
  by (auto simp: regex_candidates_def slot_ok_def Let_def split: option.splits prod.splits)

lemma candidates_ident: "snd (regex_candidates E None (i, db) q) = snd (regex_candidates E None (j, db) q)"
  by (simp add: regex_candidates_def Let_def split: prod.split)

lemma candidates_mem:
  assumes "order_ok E"
  shows "name \<in> set (snd (regex_candidates E None (i, db) q)) \<longleftrightarrow>
    (\<exists>r. (name, r) \<in> set db \<and> (case entry_literal E r of None \<Rightarrow> True
       | Some l \<Rightarrow> hd l \<in> set (lower q) \<and> occurs_in l (lower q)))"
proof -
  obtain b a where idx: "build_regex_index E db = (b, a)" by (cases "build_regex_index E db")
  have hit: "name \<in> set (case map_of b c of None \<Rightarrow> []
      | Some row \<Rightarrow> map fst (filter (\<lambda>(n, l). occurs_in l (lower q)) row)) \<longleftrightarrow>
      (\<exists>row l. map_of b c = Some row \<and> (name, l) \<in> set row \<and> occurs_in l (lower q))" for c
  proof (cases "map_of b c")
    case (Some row)
    have "name \<in> fst ` {x \<in> set row. case x of (n, l) \<Rightarrow> occurs_in l (lower q)} \<longleftrightarrow>
        (\<exists>l. (name, l) \<in> set row \<and> occurs_in l (lower q))" by (force simp: image_iff)
    with Some show ?thesis by simp
  qed simp
  have "name \<in> set (snd (regex_candidates E None (i, db) q)) \<longleftrightarrow>
      name \<in> set a \<or> (\<exists>c \<in> set (lower q). \<exists>row l. map_of b c = Some row \<and> (name, l) \<in> set row \<and> occurs_in l (lower q))"
    using assms hit by (simp add: regex_candidates_def order_ok_def idx Let_def)
  also have "\<dots> \<longleftrightarrow> (\<exists>r. (name, r) \<in> set db \<and> entry_literal E r = None)
      \<or> (\<exists>c \<in> set (lower q). \<exists>l r. (name, r) \<in> set db \<and> entry_literal E r = Some l \<and> hd l = c \<and> occurs_in l (lower q))"
    using build_index_always [of name E db] build_index_bucket [of E db _ name] unfolding idx by simp blast
  also have "\<dots> \<longleftrightarrow> (\<exists>r. (name, r) \<in> set db \<and> (case entry_literal E r of None \<Rightarrow> True
       | Some l \<Rightarrow> hd l \<in> set (lower q) \<and> occurs_in l (lower q)))"
    by (auto split: option.splits) (metis option.exhaust)+
  finally show ?thesis .
qed

subsection \<open>The prefilter as an interface\<close>

text \<open>
  What a scan relies on: the candidates are names of the list, and every rule that matches the name
  is among them.  The scan then decides as one over the whole list would.
\<close>

locale prefilter =
  fixes good :: "'e \<Rightarrow> bool"
    and hit :: "'e \<Rightarrow> string \<Rightarrow> string \<Rightarrow> bool"
    and cand :: "'e \<Rightarrow> regex_db \<Rightarrow> string \<Rightarrow> string list"
  assumes cand_keys: "good E \<Longrightarrow> name \<in> set (cand E db q) \<Longrightarrow> map_of db name \<noteq> None"
    and cand_complete: "good E \<Longrightarrow> map_of db name = Some r \<Longrightarrow> hit E (re_text r) q \<Longrightarrow> name \<in> set (cand E db q)"
begin

definition cand_bands :: "'e \<Rightarrow> regex_db \<Rightarrow> string \<Rightarrow> nat list" where
  "cand_bands E db q = List.map_filter (\<lambda>k. case map_of db k of None \<Rightarrow> None
     | Some r \<Rightarrow> if hit E (re_text r) q then Some (re_band r) else None) (cand E db q)"

definition all_bands :: "'e \<Rightarrow> regex_db \<Rightarrow> string \<Rightarrow> nat list" where
  "all_bands E db q = map (re_band \<circ> snd) (filter (\<lambda>(k, r). hit E (re_text r) q) db)"

lemma bands_set:
  assumes "good E" "distinct (map fst db)"
  shows "set (cand_bands E db q) = set (all_bands E db q)"
proof (rule set_eqI)
  fix b
  have "b \<in> set (cand_bands E db q) \<longleftrightarrow>
      (\<exists>k \<in> set (cand E db q). \<exists>r. map_of db k = Some r \<and> hit E (re_text r) q \<and> b = re_band r)"
    unfolding cand_bands_def map_filter_mem by (auto split: option.splits if_splits; blast)
  also have "\<dots> \<longleftrightarrow> (\<exists>k r. map_of db k = Some r \<and> hit E (re_text r) q \<and> b = re_band r)"
    using cand_complete [OF assms(1)] by blast
  also have "\<dots> \<longleftrightarrow> b \<in> set (all_bands E db q)"
    unfolding all_bands_def using map_of_eq_Some_iff [OF assms(2)] by (force simp: image_iff)
  finally show "b \<in> set (cand_bands E db q) \<longleftrightarrow> b \<in> set (all_bands E db q)" .
qed

lemma bands_max:
  assumes "good E" "distinct (map fst db)"
  shows "fold max (cand_bands E db q) n = fold max (all_bands E db q) n"
  using bands_set [OF assms, of q] by (simp flip: Max.set_eq_fold)

end

lemma regex_prefilter_keys:
  "env_ok E \<Longrightarrow> name \<in> set (snd (regex_candidates E None (0, db) q)) \<Longrightarrow> map_of db name \<noteq> None"
  using candidates_mem [of E name 0 db q] by (auto simp: env_ok_def map_of_eq_None_iff intro: rev_image_eqI)

lemma regex_prefilter_complete:
  assumes "env_ok E" "map_of db name = Some r" "re_search E (re_text r) q"
  shows "name \<in> set (snd (regex_candidates E None (0, db) q))"
proof -
  have ok: "search_sound E" "order_ok E" using assms(1) by (simp_all add: env_ok_def)
  have "case entry_literal E r of None \<Rightarrow> True | Some l \<Rightarrow> hd l \<in> set (lower q) \<and> occurs_in l (lower q)"
  proof (cases "entry_literal E r")
    case (Some l)
    then have "required_literal E (re_text r) = Some l" by (auto simp: entry_literal_def split: if_splits)
    from required_literal_occurs [OF ok(1) this assms(3)]
    have l: "occurs_in l (lower q)" "l \<noteq> []" by auto
    then have "hd l \<in> set (lower q)"
      by (metis hd_in_set occurs_in_sublist set_mono_sublist subsetD)
    with l Some show ?thesis by simp
  qed simp
  with assms(2) show ?thesis
    unfolding candidates_mem [OF ok(2)] by (meson map_of_SomeD)
qed

interpretation pre: prefilter env_ok re_search "\<lambda>E db q. snd (regex_candidates E None (0, db) q)"
  by unfold_locales (rule regex_prefilter_keys regex_prefilter_complete; assumption)+

subsection \<open>Scans decide by the list alone\<close>

lemma scan_search_fst: "fst (scan_search E k r q st) = re_search E (re_text r) q"
  by (simp add: scan_search_def regex_timed_search_def Let_def split: prod.split)

lemma first_match_loop_fst:
  "fst (first_match_loop E db q st) = find (\<lambda>(k, r). re_search E (re_text r) q) db"
proof (induction E db q st rule: first_match_loop.induct)
  case (1 E q st)
  then show ?case by simp
next
  case (2 E key rule rest q st)
  obtain m st' where s: "scan_search E key rule q st = (m, st')" by (cases "scan_search E key rule q st")
  with scan_search_fst [of E key rule q st] have "m = re_search E (re_text rule) q" by simp
  with s 2 show ?case by simp
qed

lemma first_regex_match_fst:
  "fst (first_regex_match E db q sc d) = find (\<lambda>(k, r). re_search E (re_text r) q) db"
  using first_match_loop_fst [of E db q "(sc, d)"]
  by (cases "first_match_loop E db q (sc, d)") (auto simp: first_regex_match_def)

text \<open>The fold of the candidates, without its diagnostics.\<close>

definition fold_best :: "re_env \<Rightarrow> regex_db \<Rightarrow> string \<Rightarrow> string list \<Rightarrow> nat \<times> string option \<Rightarrow> nat \<times> string option"
  where
  "fold_best E db q keys best = fold (\<lambda>k best. case map_of db k of None \<Rightarrow> best
     | Some r \<Rightarrow> if re_search E (re_text r) q \<and> re_band r > fst best then (re_band r, Some k) else best) keys best"

lemma best_regex_loop_value:
  assumes "\<forall>k \<in> set keys. map_of db k \<noteq> None"
  shows "\<exists>st'. best_regex_loop E db keys q st best = Inr (fold_best E db q keys best, st')"
  using assms
proof (induction keys arbitrary: st best)
  case Nil
  then show ?case by (simp add: fold_best_def)
next
  case (Cons k keys)
  obtain r where r: "map_of db k = Some r" using Cons.prems by auto
  obtain m st' where s: "scan_search E k r q st = (m, st')" by (cases "scan_search E k r q st")
  have m: "m = re_search E (re_text r) q" using scan_search_fst [of E k r q st] s by simp
  from Cons.IH [of st' "if m \<and> re_band r > fst best then (re_band r, Some k) else best"] Cons.prems
  show ?case by (simp add: r s m fold_best_def)
qed

lemma best_regex_value:
  assumes "\<forall>k \<in> set keys. map_of db k \<noteq> None"
  shows "\<exists>d'. best_regex E db keys q sc d best = Inr (fold_best E db q keys (best, None), d')"
  using best_regex_loop_value [OF assms, of E q "(sc, d)" "(best, None)"]
  by (auto simp: best_regex_def split: sum.split prod.split)

lemma fold_best_band:
  "fst (fold_best E db q keys best) = fold max (List.map_filter (\<lambda>k. case map_of db k of None \<Rightarrow> None
     | Some r \<Rightarrow> if re_search E (re_text r) q then Some (re_band r) else None) keys) (fst best)"
proof (induction keys arbitrary: best)
  case Nil
  then show ?case by (simp add: fold_best_def map_filter_simps)
next
  case (Cons k keys)
  show ?case
  proof (cases "map_of db k")
    case None
    with Cons [of best] show ?thesis by (simp add: fold_best_def map_filter_simps)
  next
    case (Some r)
    with Cons [of "if re_search E (re_text r) q \<and> re_band r > fst best then (re_band r, Some k) else best"]
    show ?thesis by (auto simp: fold_best_def map_filter_simps max_def)
  qed
qed

text \<open>The highest band of the rules of a list that match a name.\<close>

definition list_band :: "re_env \<Rightarrow> regex_db \<Rightarrow> string \<Rightarrow> nat \<Rightarrow> nat" where
  "list_band E db q n = fold max (pre.all_bands E db q) n"

lemma scan_band:
  assumes "env_ok E" "distinct (map fst db)" "slot_ok E heap slot" "heap i = db"
  shows "\<exists>key d'. best_regex E db (snd (regex_candidates E slot (i, db) q)) q sc d best
      = Inr ((list_band E db q best, key), d')"
proof -
  let ?keys = "snd (regex_candidates E slot (i, db) q)"
  have k: "?keys = snd (regex_candidates E None (0, db) q)"
    using candidates_slot(1) [OF assms(3), of i q] assms(4) candidates_ident [of E i db q 0] by simp
  have "\<forall>k \<in> set ?keys. map_of db k \<noteq> None" unfolding k using pre.cand_keys [OF assms(1)] by blast
  from best_regex_value [OF this, of E q sc d best] obtain d' where
    "best_regex E db ?keys q sc d best = Inr (fold_best E db q ?keys (best, None), d')" ..
  moreover have "fst (fold_best E db q ?keys (best, None)) = list_band E db q best"
    unfolding fold_best_band k list_band_def
    using pre.bands_max [OF assms(1,2), of q best] by (simp add: pre.cand_bands_def)
  ultimately show ?thesis by (metis prod.collapse)
qed

subsection \<open>Compiled lists\<close>

definition accepted_payload :: "re_env \<Rightarrow> bool \<Rightarrow> RegexRule \<Rightarrow> regex_payload option" where
  "accepted_payload E cap r = (case feed_rule_verdict E cap r of
       Inr (Inr txt) \<Rightarrow> Some \<lparr>re_text = txt, re_important = rx_important r, re_band = rx_band r\<rparr>
     | _ \<Rightarrow> None)"

lemma feed_rule_verdict_total: "\<exists>v. feed_rule_verdict E cap r = Inr v"
proof -
  obtain cost reason ct where a: "pfb_regex_admission (rx_pattern r) = Inr (cost, reason, ct)"
    using admission_returns by blast
  show ?thesis unfolding feed_rule_verdict_def a by (cases reason) (auto split: option.split)
qed

definition numbered :: "nat \<Rightarrow> regex_db \<Rightarrow> bool" where
  "numbered n db \<longleftrightarrow> (\<forall>k \<in> fst ` set db. \<exists>a i. k = a @ CHR ''#'' # nat_text i \<and> i < n)"

lemma numbered_fresh:
  assumes "numbered n db"
  shows "a @ CHR ''#'' # nat_text n \<notin> fst ` set db"
proof
  have no: "CHR ''#'' \<notin> set (nat_text i)" for i
  proof
    assume "CHR ''#'' \<in> set (nat_text i)"
    then have "is_dec (CHR ''#'')" by (rule nat_text_dec)
    then show False by (simp add: is_dec_def code_pt_def)
  qed
  assume "a @ CHR ''#'' # nat_text n \<in> fst ` set db"
  with assms obtain b i where bi: "a @ CHR ''#'' # nat_text n = b @ CHR ''#'' # nat_text i" "i < n"
    unfolding numbered_def by blast
  from after_last_inject [OF bi(1) no no] bi(2) show False by simp
qed

lemma numbered_snoc:
  assumes "numbered n db"
  shows "numbered (n + 1) (db @ [(a @ CHR ''#'' # nat_text n, v)])"
  unfolding numbered_def
proof
  fix k assume "k \<in> fst ` set (db @ [(a @ CHR ''#'' # nat_text n, v)])"
  then consider "k \<in> fst ` set db" | "k = a @ CHR ''#'' # nat_text n" by auto
  then show "\<exists>a i. k = a @ CHR ''#'' # nat_text i \<and> i < n + 1"
  proof cases
    case 1
    with assms obtain b i where "k = b @ CHR ''#'' # nat_text i" "i < n" unfolding numbered_def by blast
    then show ?thesis by (intro exI [of _ b] exI [of _ i]) simp
  next
    case 2
    then show ?thesis by auto
  qed
qed

lemma update_fresh: "k \<notin> fst ` set db \<Longrightarrow> AList.update k v db = db @ [(k, v)]"
  by (induction db) auto

definition log_ok :: "nat \<Rightarrow> refusal_log \<times> diag \<Rightarrow> bool" where
  "log_ok base l \<longleftrightarrow> rl_logged (fst l) \<le> regex_refusal_log_max
     \<and> length (d_stderr (snd l)) = base + rl_logged (fst l)"

lemma log_ok_write: "log_ok base l \<Longrightarrow> log_ok base (refusal_write line l)"
  by (auto simp: log_ok_def refusal_write_def write_line_def split: prod.splits)

lemma compile_loop_value:
  assumes "numbered (c_admitted st) (c_db st)" "distinct (map fst (c_db st))"
    "c_admitted st = length (c_db st)" "log_ok base (c_log st)"
  shows "\<exists>st'. compile_loop E cap rules st = Inr st' \<and> distinct (map fst (c_db st'))
    \<and> c_admitted st' = length (c_db st') \<and> log_ok base (c_log st')
    \<and> map snd (c_db st') = map snd (c_db st) @ List.map_filter (accepted_payload E cap) rules"
  using assms
proof (induction rules arbitrary: st)
  case Nil
  then show ?case by (simp add: map_filter_simps)
next
  case (Cons r rules)
  obtain v where v: "feed_rule_verdict E cap r = Inr v" using feed_rule_verdict_total by blast
  show ?case
  proof (cases v)
    case (Inl line)
    then have "compile_step E cap r st = Inr (st\<lparr>c_log := refusal_write line (c_log st)\<rparr>)"
      by (simp add: compile_step_def v)
    with Cons.IH [of "st\<lparr>c_log := refusal_write line (c_log st)\<rparr>"] Cons.prems log_ok_write Inl v
    show ?thesis by (simp add: accepted_payload_def map_filter_simps)
  next
    case (Inr ct)
    let ?n = "or_text (rx_feed r) ''DNSBL'' @ CHR ''#'' # nat_text (c_admitted st)"
    let ?p = "\<lparr>re_text = ct, re_important = rx_important r, re_band = rx_band r\<rparr>"
    let ?st = "st\<lparr>c_db := c_db st @ [(?n, ?p)], c_admitted := c_admitted st + 1\<rparr>"
    have fresh: "?n \<notin> fst ` set (c_db st)" by (rule numbered_fresh [OF Cons.prems(1)])
    then have st: "compile_step E cap r st = Inr ?st"
      by (simp add: compile_step_def v Inr update_fresh)
    have "numbered (c_admitted ?st) (c_db ?st)"
      using numbered_snoc [OF Cons.prems(1)] by simp
    with Cons.IH [of ?st] Cons.prems fresh st Inr v show ?thesis
      by (simp add: accepted_payload_def map_filter_simps)
  qed
qed

lemma compile_rules_value:
  "\<exists>db admitted d'. dnsbl_compile_regex_rules E rules cap d = Inr (db, admitted, d')
     \<and> map snd db = List.map_filter (accepted_payload E cap) rules
     \<and> distinct (map fst db) \<and> admitted = length db
     \<and> length (d_stderr d') \<le> length (d_stderr d) + 21"
proof -
  let ?st = "\<lparr>c_db = [], c_admitted = 0, c_log = (\<lparr>rl_logged = 0, rl_suppressed = 0\<rparr>, d)\<rparr>"
  obtain st' where st': "compile_loop E cap rules ?st = Inr st'" "distinct (map fst (c_db st'))"
    "c_admitted st' = length (c_db st')" "log_ok (length (d_stderr d)) (c_log st')"
    "map snd (c_db st') = List.map_filter (accepted_payload E cap) rules"
    using compile_loop_value [of ?st "length (d_stderr d)" E cap rules]
    by (auto simp: numbered_def log_ok_def)
  have "length (d_stderr (refusal_summarize knd (c_log st'))) \<le> length (d_stderr d) + 21" for knd
    using st'(4) by (auto simp: refusal_summarize_def log_ok_def write_line_def regex_refusal_log_max_def
        split: prod.split)
  with st' show ?thesis by (simp add: dnsbl_compile_regex_rules_def)
qed

subsection \<open>Properties\<close>

text \<open>The concrete engine the witnesses use: it knows one pattern and its literal.\<close>

definition sample_env :: re_env where
  "sample_env = \<lparr>re_parse = (\<lambda>p. if p = ''ads'' then Some [Lit (CHR ''a''), Lit (CHR ''d''), Lit (CHR ''s'')] else None),
     re_search = (\<lambda>p q. p = ''ads'' \<and> occurs_in ''ads'' q), re_compile_error = (\<lambda>_. None),
     re_elapsed = (\<lambda>_. 1), re_format_ms = (\<lambda>_. []), re_set_order = (\<lambda>xs. xs)\<rparr>"

lemma sample_env_ok: "env_ok sample_env"
proof -
  have "sre_match [Lit (CHR ''a''), Lit (CHR ''d''), Lit (CHR ''s'')] ''ads''"
    by (intro sre_match.intros refl)
  then show ?thesis
    unfolding env_ok_def search_sound_def order_ok_def
    by (auto simp: sample_env_def occurs_in_sublist split: if_splits)
qed

text \<open>C7. The literal prefilter never drops a match: whatever the cached slot, provided it was built
  for the list it names, every rule of the list that the engine finds in the queried name is a
  candidate, and every candidate is a rule of the list.\<close>

theorem regex_prefilter_sound:
  assumes "env_ok E" "slot_ok E heap slot" "map_of (heap i) name = Some r" "re_search E (re_text r) q"
  shows "name \<in> set (snd (regex_candidates E slot (i, heap i) q))
    \<and> slot_ok E heap (fst (regex_candidates E slot (i, heap i) q))"
  using regex_prefilter_complete [OF assms(1,3,4)] candidates_slot [OF assms(2), of i q]
    candidates_ident [of E i "heap i" q 0] by simp

theorem regex_prefilter_sound_witness:
  "''f#0'' \<in> set (snd (regex_candidates sample_env None
     (3, [(''f#0'', \<lparr>re_text = ''ads'', re_important = False, re_band = 1\<rparr>)]) ''my.ads.net''))"
proof -
  let ?heap = "\<lambda>_ :: nat. [(''f#0'', \<lparr>re_text = ''ads'', re_important = False, re_band = 1\<rparr>)]"
  have s: "slot_ok sample_env ?heap None" by (simp add: slot_ok_def)
  have m: "map_of (?heap 3) ''f#0'' = Some \<lparr>re_text = ''ads'', re_important = False, re_band = 1\<rparr>" by simp
  have h: "re_search sample_env (re_text \<lparr>re_text = ''ads'', re_important = False, re_band = 1\<rparr>) ''my.ads.net''"
    by (simp add: sample_env_def) code_simp
  from regex_prefilter_sound [OF sample_env_ok s m h] show ?thesis by simp
qed

text \<open>Compiling a regex list always returns: every rule that the gate, the length cap and the
  compiler accept is loaded, in order and under a name of its own, nothing else is, the count
  returned is the size of the list, and at most 20 refusal lines and one summary are written.\<close>

theorem compile_regex_rules_loads:
  "\<exists>db admitted d'. dnsbl_compile_regex_rules E rules cap d = Inr (db, admitted, d')
     \<and> map snd db = List.map_filter (accepted_payload E cap) rules
     \<and> distinct (map fst db) \<and> admitted = length db
     \<and> length (d_stderr d') \<le> length (d_stderr d) + 21"
  by (rule compile_rules_value)

end
