(* ===== verification/Idn.thy ===== *)
theory Idn
  imports Psl "HOL-Library.Word"
begin

text \<open>
  The IDN feed: the mode selector, the All-IDN decision, the mixed-script analyzer
  (\<open>decode_idn_label\<close> to \<open>idn_confusable_action\<close>), and the upstream-block classifier.  Decoded
  labels hold any code point, so they are lists of numbers; the Unicode tables are the fields of
  \<open>unicode_env\<close>, and the \<open>punycode\<close> codec is written out as the standard library has it.
\<close>

subsection \<open>Mode\<close>

datatype idn_mode = Idn_all | Idn_confusable | Idn_off

definition idn_mode_from_legacy :: "bool \<Rightarrow> idn_mode" where
  "idn_mode_from_legacy python_idn = (if python_idn then Idn_all else Idn_off)"

definition is_idn_domain :: "string \<Rightarrow> bool" where
  "is_idn_domain q_name \<longleftrightarrow> prefix ''xn--'' q_name \<or> occurs_in ''.xn--'' q_name"

definition idn_mode_decision :: "string \<Rightarrow> idn_mode \<Rightarrow> bool" where
  "idn_mode_decision q_name mode \<longleftrightarrow> mode = Idn_all \<and> is_idn_domain q_name"

subsection \<open>Punycode\<close>

definition puny_threshold :: "int \<Rightarrow> int \<Rightarrow> int" where
  "puny_threshold j bias = (let res = 36 * (j + 1) - bias in if res < 1 then 1 else if res > 26 then 26 else res)"

function puny_adapt_loop :: "int \<Rightarrow> int \<Rightarrow> int \<times> int" where
  "puny_adapt_loop delta divisions =
     (if delta > 455 then puny_adapt_loop (delta div 35) (divisions + 36) else (delta, divisions))"
  by pat_completeness auto
termination
  by (relation "measure (\<lambda>(d, _). nat d)") auto

definition puny_adapt :: "int \<Rightarrow> bool \<Rightarrow> int \<Rightarrow> int" where
  "puny_adapt delta first numchars =
    (let delta = (if first then delta div 700 else delta div 2);
         delta = delta + delta div numchars;
         (delta, divisions) = puny_adapt_loop delta 0 in
     divisions + 36 * delta div (delta + 38))"

text \<open>One generalized variable-length integer: its value and the text after it, or the end or a
  wrong character.\<close>

fun puny_number :: "string \<Rightarrow> int \<Rightarrow> int \<Rightarrow> int \<Rightarrow> int \<Rightarrow> (int \<times> string) option" where
  "puny_number [] bias result w j = None"
| "puny_number (c # cs) bias result w j =
    (let n = int (code_pt c);
         digit = (if 65 \<le> n \<and> n \<le> 90 then Some (n - 65)
                  else if 48 \<le> n \<and> n \<le> 57 then Some (n - 22) else None) in
     case digit of
       None \<Rightarrow> None
     | Some d \<Rightarrow>
        (let t = puny_threshold j bias; result = result + d * w in
         if d < t then Some (result, cs) else puny_number cs bias result (w * (36 - t)) (j + 1)))"

lemma puny_number_shorter: "puny_number s bias r w j = Some (v, rest) \<Longrightarrow> length rest < length s"
proof (induction s arbitrary: r w j)
  case (Cons c s)
  then show ?case by (fastforce simp: Let_def split: if_splits option.splits)
qed simp

function puny_insert :: "nat list \<Rightarrow> string \<Rightarrow> bool \<Rightarrow> int \<Rightarrow> int \<Rightarrow> int \<Rightarrow> nat list option" where
  "puny_insert base ext first chr pos bias =
    (if ext = [] then Some base
     else (case puny_number ext bias 0 1 0 of
       None \<Rightarrow> None
     | Some (delta, rest) \<Rightarrow>
        (let pos = pos + delta + 1; len = int (length base) + 1; chr = chr + pos div len in
         if chr > 0x10FFFF then None
         else
          (let pos = pos mod len;
               base = take (nat pos) base @ nat chr # drop (nat pos) base in
           puny_insert base rest False chr pos (puny_adapt delta first (int (length base)))))))"
  by pat_completeness auto
termination
  by (relation "measure (\<lambda>(base, ext, _). length ext)") (auto dest: puny_number_shorter)

definition upper_char :: "char \<Rightarrow> char" where
  "upper_char c = (let n = code_pt c in if 97 \<le> n \<and> n \<le> 122 then char_of (n - 32) else c)"

definition punycode_decode :: "string \<Rightarrow> nat list option" where
  "punycode_decode txt =
    (let parts = split_on hyphen txt;
         base = (if hyphen \<in> set txt then join_with hyphen (butlast parts) else []);
         ext = last parts in
     puny_insert (map code_pt base) (map upper_char ext) True 0x80 (- 1) 72)"

subsection \<open>Labels\<close>

datatype severity = Sev_legit | Sev_suspicious | Sev_malicious | Sev_flagged

datatype restriction = Level_ascii | Level_single | Level_highly_restrictive | Level_non_restrictive

definition confusable_set :: "string set" where
  "confusable_set = set [''Latin'', ''Cyrillic'', ''Greek'']"

definition highly_restrictive_set :: "string set" where
  "highly_restrictive_set = set [''Latin'', ''Han'', ''Hiragana'', ''Katakana'', ''Hangul'', ''Bopomofo'']"

definition digit_hyphen_chars :: "nat set" where
  "digit_hyphen_chars = set (map code_pt ''0123456789-'')"

fun sev_order :: "severity \<Rightarrow> nat" where
  "sev_order Sev_legit = 0"
| "sev_order Sev_flagged = 1"
| "sev_order Sev_suspicious = 2"
| "sev_order Sev_malicious = 3"

text \<open>\<open>Inl\<close> the name of the exception.\<close>

definition decode_idn_label :: "string \<Rightarrow> string + nat list" where
  "decode_idn_label label =
    (if \<not> prefix ''xn--'' label then Inr (map code_pt label)
     else if \<not> all_ascii (drop 4 label) then Inl ''UnicodeEncodeError''
     else (case punycode_decode (drop 4 label) of None \<Rightarrow> Inl ''UnicodeError'' | Some cps \<Rightarrow> Inr cps))"

definition capitalize :: "string \<Rightarrow> string" where
  "capitalize s = (case s of [] \<Rightarrow> [] | c # cs \<Rightarrow> upper_char c # lower cs)"

definition script_of :: "unicode_env \<Rightarrow> nat \<Rightarrow> string list" where
  "script_of U cp =
    (let cat = category U cp in
     if take 1 cat \<noteq> ''L'' \<or> cat = ''Lm'' \<or> cp \<in> {0x3006, 0x303C} then []
     else (let name = char_name U cp in
       if name = [] then []
       else (let token = before_first (CHR '' '') name in
         [if token = ''CJK'' then ''Han'' else capitalize token])))"

definition resolved_script_set :: "unicode_env \<Rightarrow> nat list \<Rightarrow> string set" where
  "resolved_script_set U cps = set (concat (map (script_of U) cps))"

definition restriction_level :: "string set \<Rightarrow> bool \<Rightarrow> restriction" where
  "restriction_level scripts ascii_only =
    (if ascii_only then Level_ascii
     else if card scripts = 1 then Level_single
     else if scripts \<noteq> {} \<and> card scripts \<ge> 2 \<and> scripts \<subseteq> highly_restrictive_set
     then Level_highly_restrictive else Level_non_restrictive)"

definition severity_of :: "unicode_env \<Rightarrow> nat list \<Rightarrow> severity" where
  "severity_of U cps =
    (let scripts = resolved_script_set U cps in
     if card (scripts \<inter> confusable_set) \<ge> 2 then Sev_malicious
     else if scripts = {} then
       (if cps \<noteq> [] \<and> set cps \<subseteq> digit_hyphen_chars then Sev_legit else Sev_flagged)
     else if restriction_level scripts False \<in> {Level_single, Level_highly_restrictive} then Sev_legit
     else Sev_suspicious)"

record LabelVerdict =
  lv_a_label :: string
  lv_decoded :: "nat list option"
  lv_scripts :: "string set"
  lv_severity :: severity
  lv_offending :: "string set"
  lv_decode_error :: "string option"

record NameVerdict =
  nv_a_name :: string
  nv_labels :: "LabelVerdict list"
  nv_severity :: severity
  nv_offending :: "string set"

definition offending_scripts :: "string set \<Rightarrow> severity \<Rightarrow> string set" where
  "offending_scripts scripts sev =
    (if sev = Sev_malicious then scripts \<inter> confusable_set
     else if sev = Sev_suspicious then scripts else {})"

definition classify_label :: "unicode_env \<Rightarrow> string \<Rightarrow> LabelVerdict" where
  "classify_label U a_label =
    (case decode_idn_label a_label of
       Inl exc \<Rightarrow> \<lparr>lv_a_label = a_label, lv_decoded = None, lv_scripts = {}, lv_severity = Sev_flagged,
         lv_offending = {}, lv_decode_error = Some exc\<rparr>
     | Inr decoded \<Rightarrow>
        (let scripts = resolved_script_set U decoded; sev = severity_of U decoded in
         \<lparr>lv_a_label = a_label, lv_decoded = Some decoded, lv_scripts = scripts, lv_severity = sev,
           lv_offending = offending_scripts scripts sev, lv_decode_error = None\<rparr>))"

definition worse :: "LabelVerdict \<Rightarrow> LabelVerdict \<Rightarrow> LabelVerdict" where
  "worse v worst = (if sev_order (lv_severity v) > sev_order (lv_severity worst) then v else worst)"

definition classify_idn :: "unicode_env \<Rightarrow> string \<Rightarrow> NameVerdict" where
  "classify_idn U q_name =
    (let verdicts = map (classify_label U) (split_on dot q_name);
         worst = fold worse (tl verdicts) (hd verdicts) in
     \<lparr>nv_a_name = q_name, nv_labels = verdicts, nv_severity = lv_severity worst,
       nv_offending = lv_offending worst\<rparr>)"

subsection \<open>Action and log form\<close>

datatype idn_action = Act_none | Act_alert | Act_block

definition idn_confusable_action ::
  "unicode_env \<Rightarrow> string \<Rightarrow> bool \<Rightarrow> bool \<Rightarrow> idn_action \<times> NameVerdict option" where
  "idn_confusable_action U q_name block_malicious escalate_suspicious =
    (if \<not> is_idn_domain q_name then (Act_none, None)
     else
      (let verdict = classify_idn U q_name; sev = nv_severity verdict in
       if sev = Sev_legit then (Act_none, Some verdict)
       else if sev = Sev_malicious then (if block_malicious then Act_block else Act_alert, Some verdict)
       else (if escalate_suspicious then Act_block else Act_alert, Some verdict)))"

definition codes :: "string \<Rightarrow> nat list" where
  "codes s = map code_pt s"

definition join_spaced :: "string list \<Rightarrow> string" where
  "join_spaced ps = join_with (CHR '' '') ps"

definition idn_dual_form :: "NameVerdict \<Rightarrow> nat list" where
  "idn_dual_form verdict =
    (case find (\<lambda>lbl. lv_severity lbl = nv_severity verdict) (nv_labels verdict) of
       None \<Rightarrow> codes (nv_a_name verdict)
     | Some worst \<Rightarrow>
        (let scripts = (if nv_offending verdict \<noteq> {}
                        then join_spaced (sorted_list_of_set (nv_offending verdict)) else []) in
         case lv_decoded worst of
           None \<Rightarrow> codes (lv_a_label worst @ '' [decode-error:''
             @ (case lv_decode_error worst of Some e \<Rightarrow> if e = [] then ''unknown'' else e | None \<Rightarrow> ''unknown'')
             @ '']'')
         | Some decoded \<Rightarrow>
             codes (lv_a_label worst @ '' ['') @ decoded @
               (if scripts \<noteq> [] then codes (''] '' @ scripts) else codes '']'')))"

subsection \<open>Upstream blocks\<close>

record UpstreamBlock =
  ub_signal :: string
  ub_label :: string
  ub_provider :: "nat list"

definition ede_blocked :: nat where "ede_blocked = 15"
definition ede_filtered :: nat where "ede_filtered = 17"
definition edns_opt_code_ede :: nat where "edns_opt_code_ede = 15"
definition rcode_nxdomain :: nat where "rcode_nxdomain = 3"

text \<open>The loop over the options: the first extra text of each recognised code.\<close>

fun ede_scan :: "(nat \<times> nat list) list \<Rightarrow> nat list option \<Rightarrow> nat list option \<Rightarrow> nat list option \<times> nat list option"
  where
  "ede_scan [] e15 e17 = (e15, e17)"
| "ede_scan ((info_code, extra_text) # rest) e15 e17 =
    (if info_code = ede_blocked \<and> e15 = None then ede_scan rest (Some extra_text) e17
     else if info_code = ede_filtered \<and> e17 = None then ede_scan rest e15 (Some extra_text)
     else ede_scan rest e15 e17)"

text \<open>\<open>strip\<close> is \<open>str.strip\<close> on code points.\<close>

definition classify_upstream_block ::
  "(nat list \<Rightarrow> nat list) \<Rightarrow> nat \<Rightarrow> bool \<Rightarrow> bool \<Rightarrow> (nat \<times> nat list) list \<Rightarrow> UpstreamBlock option" where
  "classify_upstream_block strip_text rcode ra_available aa_authoritative ede =
    (let (e15, e17) = ede_scan ede None None;
         nxra = (if rcode = rcode_nxdomain \<and> \<not> ra_available \<and> \<not> aa_authoritative
                 then Some \<lparr>ub_signal = ''NXRA'', ub_label = ''NXRA'', ub_provider = []\<rparr> else None) in
     case e15 of
       Some t \<Rightarrow> Some \<lparr>ub_signal = ''EDE15'', ub_label = ''EDE15 (Blocked)'', ub_provider = strip_text t\<rparr>
     | None \<Rightarrow> (case e17 of
           Some t \<Rightarrow> Some \<lparr>ub_signal = ''EDE17'', ub_label = ''EDE17 (Filtered)'', ub_provider = strip_text t\<rparr>
         | None \<Rightarrow> nxra))"

text \<open>\<open>decode_utf8\<close> is \<open>bytes.decode("utf-8", "replace")\<close>.\<close>

definition parse_ede_options ::
  "(8 word list \<Rightarrow> nat list) \<Rightarrow> (nat \<times> 8 word list) list \<Rightarrow> (nat \<times> nat list) list" where
  "parse_ede_options decode_utf8 opts = List.map_filter (\<lambda>(opt_code, opt_data).
     if opt_code \<noteq> edns_opt_code_ede then None
     else if length opt_data < 2 then None
     else Some (256 * unat (opt_data ! 0) + unat (opt_data ! 1), decode_utf8 (drop 2 opt_data))) opts"

subsection \<open>The worst label\<close>

lemma worse_fold:
  "fold worse vs w \<in> insert w (set vs)
   \<and> (\<forall>v \<in> insert w (set vs). sev_order (lv_severity v) \<le> sev_order (lv_severity (fold worse vs w)))"
proof (induction vs arbitrary: w)
  case Nil
  then show ?case by simp
next
  case (Cons v vs)
  have "worse v w \<in> {v, w}" by (simp add: worse_def)
  moreover have "sev_order (lv_severity v) \<le> sev_order (lv_severity (worse v w))"
    "sev_order (lv_severity w) \<le> sev_order (lv_severity (worse v w))" by (simp_all add: worse_def)
  ultimately show ?case using Cons.IH [of "worse v w"] by (auto intro: order_trans)
qed

lemma sev_order_inject [simp]: "sev_order a = sev_order b \<longleftrightarrow> a = b"
  by (cases a; cases b) simp_all

lemma sev_order_zero [simp]: "sev_order s = 0 \<longleftrightarrow> s = Sev_legit"
  by (cases s) simp_all

lemma sev_order_top: "sev_order s \<le> 3"
  by (cases s) simp_all

lemma classify_idn_labels [simp]:
  "nv_labels (classify_idn U q) = map (classify_label U) (split_on dot q)"
  by (simp add: classify_idn_def Let_def)

lemma classify_idn_worst:
  "\<exists>v \<in> set (nv_labels (classify_idn U q)). nv_severity (classify_idn U q) = lv_severity v
     \<and> nv_offending (classify_idn U q) = lv_offending v
     \<and> (\<forall>w \<in> set (nv_labels (classify_idn U q)). sev_order (lv_severity w) \<le> sev_order (lv_severity v))"
proof -
  let ?vs = "map (classify_label U) (split_on dot q)"
  have ne: "?vs \<noteq> []" by simp
  then have ins: "insert (hd ?vs) (set (tl ?vs)) = set ?vs" by (metis list.collapse list.simps(15))
  from worse_fold [of "tl ?vs" "hd ?vs", unfolded ins]
  show ?thesis unfolding classify_idn_labels
    by (intro bexI [of _ "fold worse (tl ?vs) (hd ?vs)"]) (simp_all add: classify_idn_def Let_def)
qed

lemma ede_scan_first:
  "ede_scan ede e15 e17 =
     ((case e15 of Some t \<Rightarrow> Some t | None \<Rightarrow> map_of ede ede_blocked),
      (case e17 of Some t \<Rightarrow> Some t | None \<Rightarrow> map_of ede ede_filtered))"
  by (induction ede e15 e17 rule: ede_scan.induct)
    (auto simp: ede_blocked_def ede_filtered_def split: option.splits)

subsection \<open>Properties\<close>

text \<open>The confusable tier judges labels one by one and never unions scripts across a dot: an
  \<open>xn--\<close> name is blocked exactly when some label on its own mixes two confusable scripts and
  malicious names are blocked, or no label does, some label is not legitimate, and suspicious ones
  are escalated; a name without an \<open>xn--\<close> label is never touched.\<close>

theorem idn_confusable_per_label:
  "fst (idn_confusable_action U q block_malicious escalate_suspicious) =
    (let sevs = map (lv_severity \<circ> classify_label U) (split_on dot q) in
     if is_idn_domain q \<and> list_ex (\<lambda>s. s \<noteq> Sev_legit) sevs
     then (if Sev_malicious \<in> set sevs then (if block_malicious then Act_block else Act_alert)
           else (if escalate_suspicious then Act_block else Act_alert))
     else Act_none)"
proof -
  obtain v where v: "v \<in> set (nv_labels (classify_idn U q))" "nv_severity (classify_idn U q) = lv_severity v"
    "\<forall>w \<in> set (nv_labels (classify_idn U q)). sev_order (lv_severity w) \<le> sev_order (lv_severity v)"
    using classify_idn_worst [of U q] by blast
  let ?sevs = "map (lv_severity \<circ> classify_label U) (split_on dot q)"
  have mem: "s \<in> set ?sevs \<longleftrightarrow> (\<exists>w \<in> set (nv_labels (classify_idn U q)). lv_severity w = s)" for s
    by auto
  have mal: "nv_severity (classify_idn U q) = Sev_malicious \<longleftrightarrow> Sev_malicious \<in> set ?sevs"
  proof
    assume "Sev_malicious \<in> set ?sevs"
    with mem obtain w where "w \<in> set (nv_labels (classify_idn U q))" "lv_severity w = Sev_malicious" by blast
    with v(3) have "3 \<le> sev_order (lv_severity v)" by fastforce
    with sev_order_top [of "lv_severity v"] have "sev_order (lv_severity v) = sev_order Sev_malicious" by simp
    with v(2) show "nv_severity (classify_idn U q) = Sev_malicious" by (simp only: sev_order_inject)
  qed (use v mem in auto)
  have leg: "nv_severity (classify_idn U q) = Sev_legit \<longleftrightarrow> list_all (\<lambda>s. s = Sev_legit) ?sevs"
  proof
    assume "nv_severity (classify_idn U q) = Sev_legit"
    with v have "\<forall>w \<in> set (nv_labels (classify_idn U q)). sev_order (lv_severity w) = sev_order Sev_legit" by fastforce
    then show "list_all (\<lambda>s. s = Sev_legit) ?sevs" unfolding list_all_iff mem by simp
  qed (use v mem in \<open>auto simp: list_all_iff\<close>)
  have ex: "list_ex (\<lambda>s. s \<noteq> Sev_legit) ?sevs \<longleftrightarrow> nv_severity (classify_idn U q) \<noteq> Sev_legit"
    unfolding leg by (simp add: list_ex_iff list_all_iff)
  show ?thesis
    unfolding idn_confusable_action_def Let_def mal [symmetric] ex by simp
qed

text \<open>An upstream block is recognised by the first Extended DNS Error of code 15, then by the
  first of code 17, each carrying its own extra text, and only without either by a non-recursive,
  non-authoritative NXDOMAIN; the first recognised code wins wherever it stands in the list.\<close>

theorem classify_upstream_block_precedence:
  "classify_upstream_block strip_text rcode ra aa ede =
    (case map_of ede 15 of
       Some t \<Rightarrow> Some \<lparr>ub_signal = ''EDE15'', ub_label = ''EDE15 (Blocked)'', ub_provider = strip_text t\<rparr>
     | None \<Rightarrow> (case map_of ede 17 of
         Some t \<Rightarrow> Some \<lparr>ub_signal = ''EDE17'', ub_label = ''EDE17 (Filtered)'', ub_provider = strip_text t\<rparr>
       | None \<Rightarrow> if rcode = 3 \<and> \<not> ra \<and> \<not> aa
           then Some \<lparr>ub_signal = ''NXRA'', ub_label = ''NXRA'', ub_provider = []\<rparr> else None))"
  by (simp add: classify_upstream_block_def ede_scan_first ede_blocked_def ede_filtered_def rcode_nxdomain_def
      split: option.split)

end
