(* ===== verification/Matcher.thy ===== *)
theory Matcher
  imports RegexList Idn
begin

text \<open>
  The per-query matcher: the names it derives (\<open>get_tld_from_name\<close>, \<open>parse_tld_allow\<close>,
  \<open>_selected_tld_roots\<close>, \<open>_psl_normalize_query\<close>), the TLD-Allow gate, the discovery of a block
  (data, zone, TLD-Allow, IDN, regex), the fast and the numeric resolution, and \<open>evaluate_domain\<close>.
  The four prefilter slots and the diagnostics are state the evaluation threads.
\<close>

subsection \<open>Names\<close>

definition get_tld_from_name :: "string \<Rightarrow> string" where
  "get_tld_from_name q_name =
    (let parts = split_on dot (rstrip_dots q_name) in
     if length parts > 1 then lower (last parts) else [])"

definition parse_tld_allow :: "string \<Rightarrow> string list" where
  "parse_tld_allow raw = map lower (filter (\<lambda>t. t \<noteq> []) (map strip (split_on (CHR '','') raw)))"

definition selected_tld_roots :: "string list \<Rightarrow> string list" where
  "selected_tld_roots vals = fold (\<lambda>v roots.
     let root = lower (strip_dots (strip v)) in
     if root \<noteq> [] \<and> root \<notin> set roots then roots @ [root] else roots) vals []"

definition psl_normalize_query :: "unicode_env \<Rightarrow> string \<Rightarrow> py_error + string list" where
  "psl_normalize_query U name =
    (let labels = split_on dot name in
     if name = [] \<or> list_ex (\<lambda>l. l = []) labels then Inl (ValueError ''invalid DNS name'')
     else Inr (map (\<lambda>label. if all_ascii label then lower label
       else (case idna_encode U (map code_pt label) of Some e \<Rightarrow> lower e | None \<Rightarrow> lower label)) labels))"

subsection \<open>Configuration and containers\<close>

text \<open>\<open>cfg.get("idn_mode")\<close>: the enum, its stored text, or absent.\<close>

datatype raw_mode = Raw_mode idn_mode | Raw_text string | Raw_absent

record cfg =
  cf_python_blocking :: bool
  cf_dataDB :: bool
  cf_zoneDB :: bool
  cf_tld_allow :: bool
  cf_tld_allow_list :: "string list"
  cf_dnsbl_ipv4 :: string
  cf_dnsbl_ipv6 :: string
  cf_python_idn :: bool
  cf_idn_mode :: raw_mode
  cf_idn_block_malicious :: bool
  cf_idn_escalate_suspicious :: bool
  cf_regexDB :: bool
  cf_whiteDB :: bool
  cf_allowRegexDB :: bool
  cf_userRegexDB :: bool
  cf_userAllowRegexDB :: bool
  cf_important_rules :: bool
  cf_regex_warn_ms :: int
  cf_python_tld_seg :: nat
  cf_hstsDB :: bool
  cf_hsts_tlds :: "string list"
  cf_builtin_log_flag :: string

record containers =
  ct_data :: data_db
  ct_zone :: zone_db
  ct_white :: white_db
  ct_regex :: regex_obj
  ct_allow_regex :: regex_obj
  ct_user_regex :: regex_obj
  ct_user_allow_regex :: regex_obj
  ct_feed_group_index :: feed_group_index
  ct_hsts :: "string list"
  ct_psl_rules :: PslRules
  ct_tld_allow_roots :: "string list"
  ct_psl_allow_private :: bool

record eval_state =
  es_block :: regex_slot
  es_allow :: regex_slot
  es_user_block :: regex_slot
  es_user_allow :: regex_slot
  es_diag :: diag

definition tld_allow_blocks :: "unicode_env \<Rightarrow> string \<Rightarrow> string \<Rightarrow> cfg \<Rightarrow> containers \<Rightarrow> bool" where
  "tld_allow_blocks U q_name tld cf ct =
    (if \<not> cf_tld_allow cf then False
     else
      (let selected = (if cf_tld_allow_list cf \<noteq> [] then cf_tld_allow_list cf else ct_tld_allow_roots ct);
           roots = selected_tld_roots selected in
       if roots = [] \<or> tld = [] then False
       else (case psl_normalize_query U (rstrip_dots q_name) of
         Inl _ \<Rightarrow> True
       | Inr labels \<Rightarrow>
          (let ((icann_sets, combined_sets), _) = psl_index (ct_psl_rules ct);
               (icann_s, public_s) = psl_prevailing labels icann_sets combined_sets;
               suffix_roots = [icann_s, public_s, last_label icann_s, last_label public_s] in
           if list_ex (\<lambda>r. r \<in> set roots) suffix_roots then False
           else if ct_psl_allow_private ct
                   \<and> length (split_on dot public_s) > length (split_on dot icann_s) then False
           else True))))"

subsection \<open>The discovered block\<close>

record hit =
  h_found :: bool
  h_log :: "string option"
  h_b_type :: string
  h_feed :: string
  h_group :: string
  h_b_eval :: "nat list"
  h_band :: nat
  h_idn_b_eval :: "nat list option"
  h_idn_alert :: "(string \<times> string \<times> nat list) option"

definition no_hit :: hit where
  "no_hit = \<lparr>h_found = False, h_log = None, h_b_type = ''Python'', h_feed = ''Unknown'',
     h_group = ''Unknown'', h_b_eval = [], h_band = 0, h_idn_b_eval = None, h_idn_alert = None\<rparr>"

definition discover_data :: "string \<Rightarrow> cfg \<Rightarrow> containers \<Rightarrow> hit \<Rightarrow> hit" where
  "discover_data q_name cf ct h =
    (if cf_dataDB cf then
       (case map_of (ct_data ct) q_name of
          None \<Rightarrow> h
        | Some entry \<Rightarrow> (let (feed, grp) = resolve_feed_group (pl_index entry) (ct_feed_group_index ct) in
            h\<lparr>h_found := True, h_log := Some (pl_log entry), h_feed := feed, h_group := grp,
              h_b_type := ''DNSBL'', h_b_eval := codes q_name, h_band := block_entry_band entry\<rparr>))
     else h)"

definition discover_zone :: "string \<Rightarrow> cfg \<Rightarrow> containers \<Rightarrow> hit \<Rightarrow> hit" where
  "discover_zone q_name cf ct h =
    (if \<not> h_found h \<and> cf_zoneDB cf then
       (case find_zone_match q_name (ct_zone ct) of
          None \<Rightarrow> h
        | Some (matched_q, entry) \<Rightarrow>
           (let (feed, grp) = resolve_feed_group (pl_index entry) (ct_feed_group_index ct) in
            h\<lparr>h_found := True, h_log := Some (pl_log entry), h_feed := feed, h_group := grp,
              h_b_type := ''TLD'', h_b_eval := codes matched_q, h_band := block_entry_band entry\<rparr>))
     else h)"

definition discover_tld :: "unicode_env \<Rightarrow> string \<Rightarrow> string \<Rightarrow> cfg \<Rightarrow> containers \<Rightarrow> hit \<Rightarrow> hit" where
  "discover_tld U q_name tld cf ct h =
    (if q_name \<noteq> cf_dnsbl_ipv4 cf \<and> q_name \<noteq> cf_dnsbl_ipv6 cf \<and> tld_allow_blocks U q_name tld cf ct
     then h\<lparr>h_found := True, h_feed := ''TLD_Allow'', h_group := ''DNSBL_TLD_Allow'',
            h_band := prio_feed_block\<rparr>
     else h)"

definition effective_idn_mode :: "cfg \<Rightarrow> idn_mode" where
  "effective_idn_mode cf =
    (case cf_idn_mode cf of
       Raw_mode m \<Rightarrow> m
     | Raw_text s \<Rightarrow>
         if s = ''off'' then Idn_off else if s = ''on'' then Idn_all
         else if s = ''confusable'' then Idn_confusable else idn_mode_from_legacy (cf_python_idn cf)
     | Raw_absent \<Rightarrow> idn_mode_from_legacy (cf_python_idn cf))"

definition homoglyph_labels :: "severity \<Rightarrow> string \<times> string" where
  "homoglyph_labels sev =
    (if sev = Sev_malicious then (''Homoglyph'', ''DNSBL_Homoglyph'')
     else (''Homoglyph_Suspect'', ''DNSBL_Homoglyph_Suspect''))"

definition discover_idn :: "unicode_env \<Rightarrow> string \<Rightarrow> cfg \<Rightarrow> hit \<Rightarrow> hit" where
  "discover_idn U q_name cf h =
    (if h_found h then h
     else
      (let mode = effective_idn_mode cf in
       if idn_mode_decision q_name mode then
         h\<lparr>h_found := True, h_feed := ''IDN'', h_group := ''DNSBL_IDN'', h_band := prio_feed_block\<rparr>
       else if mode = Idn_confusable then
         (case idn_confusable_action U q_name (cf_idn_block_malicious cf) (cf_idn_escalate_suspicious cf) of
            (Act_block, Some verdict) \<Rightarrow>
              (let (feed, grp) = homoglyph_labels (nv_severity verdict) in
               h\<lparr>h_found := True, h_band := prio_feed_block, h_feed := feed, h_group := grp,
                 h_idn_b_eval := Some (idn_dual_form verdict)\<rparr>)
          | (Act_alert, Some verdict) \<Rightarrow>
              (let (feed, grp) = homoglyph_labels (nv_severity verdict) in
               h\<lparr>h_idn_alert := Some (feed, grp, idn_dual_form verdict)\<rparr>)
          | _ \<Rightarrow> h)
       else h))"

text \<open>One list of the block regexes: the user list, then the feed list.\<close>

definition discover_regex_list ::
  "re_env \<Rightarrow> string \<Rightarrow> cfg \<Rightarrow> bool \<Rightarrow> regex_db \<Rightarrow> bool \<Rightarrow> hit \<times> diag \<Rightarrow> hit \<times> diag" where
  "discover_regex_list E q_name cf user db loaded st =
    (let (h, d) = st in
     if h_found h \<or> q_name = [] \<or> \<not> loaded then (h, d)
     else (case first_regex_match E db q_name (new_scan ''DNSBL_Regex'' (cf_regex_warn_ms cf) user) d of
         (None, d) \<Rightarrow> (h, d)
       | (Some (key, rule), d) \<Rightarrow>
           (h\<lparr>h_found := True, h_feed := key, h_group := ''DNSBL_Regex'', h_band := re_band rule\<rparr>, d)))"

definition discover_builtin_attribution :: "string \<Rightarrow> cfg \<Rightarrow> hit \<Rightarrow> hit" where
  "discover_builtin_attribution q_name cf h =
    (if h_found h then
       h\<lparr>h_b_eval := (case h_idn_b_eval h of Some t \<Rightarrow> t | None \<Rightarrow> codes q_name),
         h_log := Some (cf_builtin_log_flag cf)\<rparr>
     else h)"

definition discover ::
  "unicode_env \<Rightarrow> re_env \<Rightarrow> string \<Rightarrow> string \<Rightarrow> cfg \<Rightarrow> containers \<Rightarrow> diag \<Rightarrow> hit \<times> diag" where
  "discover U E q_name tld cf ct d =
    (let h = (if cf_python_blocking cf then discover_zone q_name cf ct (discover_data q_name cf ct no_hit)
              else no_hit) in
     if h_found h then (h, d)
     else
      (let h = discover_idn U q_name cf (discover_tld U q_name tld cf ct h);
           st = discover_regex_list E q_name cf True (snd (ct_user_regex ct)) (cf_userRegexDB cf) (h, d);
           (h, d) = discover_regex_list E q_name cf False (snd (ct_regex ct)) (cf_regexDB cf) st in
       (discover_builtin_attribution q_name cf h, d)))"

subsection \<open>The numeric resolution\<close>

datatype block_meta = Meta_data payload | Meta_zone payload string | Meta_regex string

type_synonym best_block = "nat \<times> block_meta option"

definition scan_data :: "string \<Rightarrow> cfg \<Rightarrow> data_db \<Rightarrow> best_block \<Rightarrow> best_block" where
  "scan_data q_name cf data best =
    (if cf_dataDB cf then
       (case map_of data q_name of
          None \<Rightarrow> best
        | Some entry \<Rightarrow> if block_entry_band entry > fst best
            then (block_entry_band entry, Some (Meta_data entry)) else best)
     else best)"

definition scan_zone_step :: "string \<Rightarrow> zone_db \<Rightarrow> string \<Rightarrow> best_block \<Rightarrow> best_block" where
  "scan_zone_step q_name zone q best =
    (case Option.bind (map_of zone q) (zone_entry_for q_name) of
       None \<Rightarrow> best
     | Some entry \<Rightarrow> if block_entry_band entry > fst best
         then (block_entry_band entry, Some (Meta_zone entry q)) else best)"

definition scan_zone :: "string \<Rightarrow> cfg \<Rightarrow> zone_db \<Rightarrow> best_block \<Rightarrow> best_block" where
  "scan_zone q_name cf zone best =
    (if cf_zoneDB cf then fold (scan_zone_step q_name zone) (iter_domain_suffixes q_name) best else best)"

text \<open>One block-regex list, when it is loaded: the refreshed slot and the best so far.\<close>

definition scan_regex_list ::
  "re_env \<Rightarrow> string \<Rightarrow> int \<Rightarrow> bool \<Rightarrow> bool \<Rightarrow> regex_obj \<Rightarrow> regex_slot \<Rightarrow> diag \<Rightarrow> best_block
     \<Rightarrow> py_error + best_block \<times> regex_slot \<times> diag" where
  "scan_regex_list E q_name warn_ms user loaded obj slot d best =
    (if \<not> loaded then Inr (best, slot, d)
     else
      (let (slot', candidates) = regex_candidates E slot obj q_name in
       case best_regex E (snd obj) candidates q_name (new_scan ''DNSBL_Regex'' warn_ms user) d (fst best) of
         Inl e \<Rightarrow> Inl e
       | Inr ((band, key), d') \<Rightarrow>
          Inr ((band, (case key of Some k \<Rightarrow> Some (Meta_regex k) | None \<Rightarrow> snd best)), slot', d')))"

definition scan_block_band ::
  "re_env \<Rightarrow> string \<Rightarrow> cfg \<Rightarrow> containers \<Rightarrow> eval_state \<Rightarrow> py_error + best_block \<times> eval_state" where
  "scan_block_band E q_name cf ct st =
    (let best = scan_zone q_name cf (ct_zone ct) (scan_data q_name cf (ct_data ct) (0, None)) in
     if q_name = [] then Inr (best, st)
     else (case scan_regex_list E q_name (cf_regex_warn_ms cf) True (cf_userRegexDB cf) (ct_user_regex ct)
              (es_user_block st) (es_diag st) best of
         Inl e \<Rightarrow> Inl e
       | Inr (best, uslot, d) \<Rightarrow>
          (case scan_regex_list E q_name (cf_regex_warn_ms cf) False (cf_regexDB cf) (ct_regex ct)
              (es_block st) d best of
             Inl e \<Rightarrow> Inl e
           | Inr (best, slot, d) \<Rightarrow>
              Inr (best, st\<lparr>es_user_block := uslot, es_block := slot, es_diag := d\<rparr>))))"

definition scan_allow_list ::
  "re_env \<Rightarrow> string \<Rightarrow> int \<Rightarrow> bool \<Rightarrow> regex_obj \<Rightarrow> regex_slot \<Rightarrow> diag \<Rightarrow> nat
     \<Rightarrow> py_error + nat \<times> regex_slot \<times> diag" where
  "scan_allow_list E q_name warn_ms user obj slot d best =
    (if snd obj = [] then Inr (best, slot, d)
     else
      (let (slot', candidates) = regex_candidates E slot obj q_name in
       case best_allow_regex E (snd obj) candidates q_name (new_scan ''DNSBL_AllowRegex'' warn_ms user) d best of
         Inl e \<Rightarrow> Inl e
       | Inr (band, d') \<Rightarrow> Inr (band, slot', d')))"

definition scan_allow_regex_band ::
  "re_env \<Rightarrow> string \<Rightarrow> containers \<Rightarrow> int \<Rightarrow> eval_state \<Rightarrow> py_error + nat \<times> eval_state" where
  "scan_allow_regex_band E q_name ct warn_ms st =
    (if q_name = [] then Inr (0, st)
     else (case scan_allow_list E q_name warn_ms True (ct_user_allow_regex ct) (es_user_allow st) (es_diag st) 0 of
         Inl e \<Rightarrow> Inl e
       | Inr (best, uslot, d) \<Rightarrow>
          (case scan_allow_list E q_name warn_ms False (ct_allow_regex ct) (es_allow st) d best of
             Inl e \<Rightarrow> Inl e
           | Inr (best, slot, d) \<Rightarrow>
              Inr (best, st\<lparr>es_user_allow := uslot, es_allow := slot, es_diag := d\<rparr>))))"

definition query_names :: "string \<Rightarrow> string \<Rightarrow> bool \<Rightarrow> string list" where
  "query_names q_name q_name_original is_cname = [q_name] @ (if is_cname then [q_name_original] else [])"

definition resolve_numeric_allow ::
  "re_env \<Rightarrow> string \<Rightarrow> string \<Rightarrow> bool \<Rightarrow> cfg \<Rightarrow> containers \<Rightarrow> nat \<Rightarrow> eval_state
     \<Rightarrow> py_error + bool \<times> eval_state" where
  "resolve_numeric_allow E q_name q_name_original is_cname cf ct block_band st =
    (let allow_band = (if cf_whiteDB cf
           then fold (\<lambda>n band. max band (whitelist_lookup_band n (ct_white ct) (cf_python_tld_seg cf)))
             (query_names q_name q_name_original is_cname) 0
           else 0) in
     if cf_userAllowRegexDB cf \<or> cf_allowRegexDB cf then
       (case scan_allow_regex_band E q_name ct (cf_regex_warn_ms cf) st of
          Inl e \<Rightarrow> Inl e
        | Inr (band, st') \<Rightarrow> Inr (max allow_band band \<ge> block_band, st'))
     else Inr (allow_band \<ge> block_band, st))"

text \<open>Attribution follows a strictly higher band.\<close>

definition reattribute :: "string \<Rightarrow> cfg \<Rightarrow> containers \<Rightarrow> best_block \<Rightarrow> hit \<Rightarrow> hit" where
  "reattribute q_name cf ct best h =
    (case snd best of
       None \<Rightarrow> h
     | Some meta \<Rightarrow>
        if fst best > h_band h then
          (case meta of
             Meta_regex key \<Rightarrow> h\<lparr>h_band := fst best, h_feed := key, h_group := ''DNSBL_Regex'',
               h_log := Some (cf_builtin_log_flag cf), h_b_type := ''Python'', h_b_eval := codes q_name\<rparr>
           | Meta_zone entry q \<Rightarrow>
              (let (feed, grp) = resolve_feed_group (pl_index entry) (ct_feed_group_index ct) in
               h\<lparr>h_band := fst best, h_log := Some (pl_log entry), h_feed := feed, h_group := grp,
                 h_b_type := ''TLD'', h_b_eval := codes q\<rparr>)
           | Meta_data entry \<Rightarrow>
              (let (feed, grp) = resolve_feed_group (pl_index entry) (ct_feed_group_index ct) in
               h\<lparr>h_band := fst best, h_log := Some (pl_log entry), h_feed := feed, h_group := grp,
                 h_b_type := ''DNSBL'', h_b_eval := codes q_name\<rparr>))
        else h)"

subsection \<open>evaluate_domain\<close>

record DnsblDecision =
  dd_is_found :: bool
  dd_in_whitelist :: bool
  dd_in_hsts :: bool
  dd_null_blocking :: bool
  dd_nxdomain :: bool
  dd_log_type :: "string option"
  dd_b_type :: string
  dd_p_type :: string
  dd_feed :: string
  dd_group :: string
  dd_b_eval :: "nat list"
  dd_idn_alert :: "(string \<times> string \<times> nat list) option"

definition fast_allow :: "string \<Rightarrow> string \<Rightarrow> bool \<Rightarrow> cfg \<Rightarrow> containers \<Rightarrow> bool" where
  "fast_allow q_name q_name_original is_cname cf ct =
    (cf_whiteDB cf \<and> list_ex (\<lambda>n. whitelist_check_domain n (ct_white ct) (cf_python_tld_seg cf))
      (query_names q_name q_name_original is_cname))"

text \<open>The resolution of a discovered block: the hit it is attributed to and whether an allow wins.\<close>

definition resolve_hit ::
  "re_env \<Rightarrow> string \<Rightarrow> string \<Rightarrow> bool \<Rightarrow> cfg \<Rightarrow> containers \<Rightarrow> hit \<Rightarrow> eval_state
     \<Rightarrow> py_error + hit \<times> bool \<times> eval_state" where
  "resolve_hit E q_name q_name_original is_cname cf ct h st =
    (if \<not> h_found h then Inr (h, False, st)
     else if \<not> cf_important_rules cf then Inr (h, fast_allow q_name q_name_original is_cname cf ct, st)
     else (case scan_block_band E q_name cf ct st of
         Inl e \<Rightarrow> Inl e
       | Inr (best, st) \<Rightarrow>
          (let h = reattribute q_name cf ct best h in
           case resolve_numeric_allow E q_name q_name_original is_cname cf ct (h_band h) st of
             Inl e \<Rightarrow> Inl e
           | Inr (allowed, st) \<Rightarrow> Inr (h, allowed, st))))"

text \<open>The response shape of a standing block.\<close>

definition decision_of ::
  "string \<Rightarrow> string \<Rightarrow> bool \<Rightarrow> cfg \<Rightarrow> containers \<Rightarrow> hit \<Rightarrow> bool \<Rightarrow> DnsblDecision" where
  "decision_of q_name tld is_cname cf ct h in_whitelist =
    (let blocked = h_found h \<and> \<not> in_whitelist;
         (in_hsts, p_type) = (if blocked \<and> cf_hstsDB cf
           then hsts_check_domain q_name (ct_hsts ct) (cf_hsts_tlds cf) tld else (False, ''Python''));
         vip = (blocked \<and> h_log h = Some ''1'' \<and> \<not> in_hsts);
         direct = (blocked \<and> \<not> vip \<and> h_log h \<in> {Some ''3'', Some ''4'', Some ''5'', Some ''6''}) in
     \<lparr>dd_is_found = h_found h, dd_in_whitelist = in_whitelist,
       dd_in_hsts = (in_hsts \<and> \<not> direct), dd_null_blocking = (\<not> vip),
       dd_nxdomain = (direct \<and> h_log h \<in> {Some ''3'', Some ''4''}), dd_log_type = h_log h,
       dd_b_type = h_b_type h @ (if blocked \<and> is_cname then ''_CNAME'' else []),
       dd_p_type = (if direct then ''Python'' else p_type), dd_feed = h_feed h, dd_group = h_group h,
       dd_b_eval = h_b_eval h, dd_idn_alert = h_idn_alert h\<rparr>)"

definition evaluate_domain ::
  "unicode_env \<Rightarrow> re_env \<Rightarrow> string \<Rightarrow> string \<Rightarrow> string \<Rightarrow> bool \<Rightarrow> cfg \<Rightarrow> containers \<Rightarrow> eval_state
     \<Rightarrow> py_error + DnsblDecision \<times> eval_state" where
  "evaluate_domain U E q_name q_name_original tld is_cname cf ct st =
    (let (h, d) = discover U E q_name tld cf ct (es_diag st) in
     case resolve_hit E q_name q_name_original is_cname cf ct h (st\<lparr>es_diag := d\<rparr>) of
       Inl e \<Rightarrow> Inl e
     | Inr (h, in_whitelist, st) \<Rightarrow> Inr (decision_of q_name tld is_cname cf ct h in_whitelist, st))"

subsection \<open>The scans as functions of the lists\<close>

definition lists_ok :: "(nat \<Rightarrow> regex_db) \<Rightarrow> containers \<Rightarrow> bool" where
  "lists_ok heap ct \<longleftrightarrow> list_all (\<lambda>obj. heap (fst obj) = snd obj \<and> distinct (map fst (snd obj)))
     [ct_regex ct, ct_allow_regex ct, ct_user_regex ct, ct_user_allow_regex ct]"

definition slots_ok :: "re_env \<Rightarrow> (nat \<Rightarrow> regex_db) \<Rightarrow> eval_state \<Rightarrow> bool" where
  "slots_ok E heap st \<longleftrightarrow>
     list_all (slot_ok E heap) [es_block st, es_allow st, es_user_block st, es_user_allow st]"

definition list_best :: "re_env \<Rightarrow> string \<Rightarrow> regex_db \<Rightarrow> nat \<Rightarrow> nat \<times> string option" where
  "list_best E q db best = fold_best E db q (snd (regex_candidates E None (0, db) q)) (best, None)"

lemma list_best_band:
  assumes "env_ok E" "distinct (map fst db)"
  shows "fst (list_best E q db best) = list_band E db q best"
  unfolding list_best_def fold_best_band list_band_def
  using pre.bands_max [OF assms, of q best] by (simp add: pre.cand_bands_def)

lemma candidates_best:
  assumes "env_ok E" "slot_ok E heap slot" "heap (fst obj) = snd obj"
  shows "\<exists>slot' d'. fst (regex_candidates E slot obj q) = slot' \<and> slot_ok E heap slot'
    \<and> best_regex E (snd obj) (snd (regex_candidates E slot obj q)) q sc d best
      = Inr (list_best E q (snd obj) best, d')"
proof -
  obtain i db where obj: "obj = (i, db)" by (cases obj)
  with assms(3) have h: "heap i = db" by simp
  have k: "snd (regex_candidates E slot (i, db) q) = snd (regex_candidates E None (0, db) q)"
    using candidates_slot(1) [OF assms(2), of i q] h candidates_ident [of E i db q 0] by simp
  have keys: "\<forall>k \<in> set (snd (regex_candidates E None (0, db) q)). map_of db k \<noteq> None"
    using pre.cand_keys [OF assms(1)] by blast
  have sl: "slot_ok E heap (fst (regex_candidates E slot (i, db) q))"
    using candidates_slot(2) [OF assms(2), of i q] h by simp
  show ?thesis
    using best_regex_value [OF keys, of E q sc d best] sl by (simp add: obj k list_best_def)
qed

definition block_list_value :: "re_env \<Rightarrow> string \<Rightarrow> bool \<Rightarrow> regex_obj \<Rightarrow> best_block \<Rightarrow> best_block" where
  "block_list_value E q loaded obj best =
    (if \<not> loaded then best
     else (let (band, key) = list_best E q (snd obj) (fst best) in
       (band, case key of Some k \<Rightarrow> Some (Meta_regex k) | None \<Rightarrow> snd best)))"

lemma scan_regex_list_value:
  assumes "env_ok E" "slot_ok E heap slot" "heap (fst obj) = snd obj"
  shows "\<exists>slot' d'. scan_regex_list E q w user loaded obj slot d best
      = Inr (block_list_value E q loaded obj best, slot', d') \<and> slot_ok E heap slot'"
proof (cases loaded)
  case True
  obtain slot' d' where c: "fst (regex_candidates E slot obj q) = slot'" "slot_ok E heap slot'"
    "best_regex E (snd obj) (snd (regex_candidates E slot obj q)) q (new_scan ''DNSBL_Regex'' w user) d (fst best)
      = Inr (list_best E q (snd obj) (fst best), d')"
    using candidates_best [OF assms] by blast
  obtain cs where rc: "regex_candidates E slot obj q = (slot', cs)"
    using c(1) by (cases "regex_candidates E slot obj q") auto
  obtain b k where lb: "list_best E q (snd obj) (fst best) = (b, k)"
    by (cases "list_best E q (snd obj) (fst best)")
  show ?thesis using True c(2,3) by (simp add: scan_regex_list_def block_list_value_def rc lb)
next
  case False
  with assms(2) show ?thesis by (simp add: scan_regex_list_def block_list_value_def)
qed

definition block_value :: "re_env \<Rightarrow> string \<Rightarrow> cfg \<Rightarrow> containers \<Rightarrow> best_block" where
  "block_value E q cf ct =
    (let best = scan_zone q cf (ct_zone ct) (scan_data q cf (ct_data ct) (0, None)) in
     if q = [] then best
     else block_list_value E q (cf_regexDB cf) (ct_regex ct)
       (block_list_value E q (cf_userRegexDB cf) (ct_user_regex ct) best))"

lemma scan_block_band_value:
  assumes "env_ok E" "lists_ok heap ct" "slots_ok E heap st"
  shows "\<exists>st'. scan_block_band E q cf ct st = Inr (block_value E q cf ct, st') \<and> slots_ok E heap st'"
proof (cases "q = []")
  case True
  with assms(3) show ?thesis by (simp add: scan_block_band_def block_value_def Let_def)
next
  case False
  let ?best = "scan_zone q cf (ct_zone ct) (scan_data q cf (ct_data ct) (0, None))"
  have sl: "slot_ok E heap (es_user_block st)" "slot_ok E heap (es_block st)"
    "heap (fst (ct_user_regex ct)) = snd (ct_user_regex ct)" "heap (fst (ct_regex ct)) = snd (ct_regex ct)"
    using assms(2,3) by (simp_all add: slots_ok_def lists_ok_def)
  obtain s1 d1 where 1: "scan_regex_list E q (cf_regex_warn_ms cf) True (cf_userRegexDB cf) (ct_user_regex ct)
      (es_user_block st) (es_diag st) ?best
      = Inr (block_list_value E q (cf_userRegexDB cf) (ct_user_regex ct) ?best, s1, d1)" "slot_ok E heap s1"
    using scan_regex_list_value [OF assms(1) sl(1,3)] by blast
  obtain s2 d2 where 2: "scan_regex_list E q (cf_regex_warn_ms cf) False (cf_regexDB cf) (ct_regex ct)
      (es_block st) d1 (block_list_value E q (cf_userRegexDB cf) (ct_user_regex ct) ?best)
      = Inr (block_list_value E q (cf_regexDB cf) (ct_regex ct)
          (block_list_value E q (cf_userRegexDB cf) (ct_user_regex ct) ?best), s2, d2)" "slot_ok E heap s2"
    using scan_regex_list_value [OF assms(1) sl(2,4)] by blast
  obtain b m where bm: "block_list_value E q (cf_userRegexDB cf) (ct_user_regex ct) ?best = (b, m)"
    by (cases "block_list_value E q (cf_userRegexDB cf) (ct_user_regex ct) ?best")
  obtain b' m' where bm': "block_list_value E q (cf_regexDB cf) (ct_regex ct) (b, m) = (b', m')"
    by (cases "block_list_value E q (cf_regexDB cf) (ct_regex ct) (b, m)")
  show ?thesis
    using False 1 2 assms(3) unfolding scan_block_band_def block_value_def Let_def bm bm'
    by (simp add: bm bm' slots_ok_def)
qed

definition allow_list_value :: "re_env \<Rightarrow> string \<Rightarrow> regex_obj \<Rightarrow> nat \<Rightarrow> nat" where
  "allow_list_value E q obj best = (if snd obj = [] then best else fst (list_best E q (snd obj) best))"

lemma scan_allow_list_value:
  assumes "env_ok E" "slot_ok E heap slot" "heap (fst obj) = snd obj"
  shows "\<exists>slot' d'. scan_allow_list E q w user obj slot d best
      = Inr (allow_list_value E q obj best, slot', d') \<and> slot_ok E heap slot'"
proof (cases "snd obj = []")
  case True
  with assms(2) show ?thesis by (simp add: scan_allow_list_def allow_list_value_def)
next
  case False
  obtain slot' d' where c: "fst (regex_candidates E slot obj q) = slot'" "slot_ok E heap slot'"
    "best_regex E (snd obj) (snd (regex_candidates E slot obj q)) q (new_scan ''DNSBL_AllowRegex'' w user) d best
      = Inr (list_best E q (snd obj) best, d')"
    using candidates_best [OF assms] by blast
  obtain cs where rc: "regex_candidates E slot obj q = (slot', cs)"
    using c(1) by (cases "regex_candidates E slot obj q") auto
  show ?thesis using False c(2,3) by (simp add: scan_allow_list_def allow_list_value_def rc best_allow_regex_def)
qed

definition allow_regex_value :: "re_env \<Rightarrow> string \<Rightarrow> containers \<Rightarrow> nat" where
  "allow_regex_value E q ct = (if q = [] then 0
     else allow_list_value E q (ct_allow_regex ct) (allow_list_value E q (ct_user_allow_regex ct) 0))"

lemma scan_allow_regex_value:
  assumes "env_ok E" "lists_ok heap ct" "slots_ok E heap st"
  shows "\<exists>st'. scan_allow_regex_band E q ct w st = Inr (allow_regex_value E q ct, st') \<and> slots_ok E heap st'"
proof (cases "q = []")
  case True
  with assms(3) show ?thesis by (simp add: scan_allow_regex_band_def allow_regex_value_def)
next
  case False
  have sl: "slot_ok E heap (es_user_allow st)" "slot_ok E heap (es_allow st)"
    "heap (fst (ct_user_allow_regex ct)) = snd (ct_user_allow_regex ct)"
    "heap (fst (ct_allow_regex ct)) = snd (ct_allow_regex ct)"
    using assms(2,3) by (simp_all add: slots_ok_def lists_ok_def)
  obtain s1 d1 where 1: "scan_allow_list E q w True (ct_user_allow_regex ct) (es_user_allow st) (es_diag st) 0
      = Inr (allow_list_value E q (ct_user_allow_regex ct) 0, s1, d1)" "slot_ok E heap s1"
    using scan_allow_list_value [OF assms(1) sl(1,3)] by blast
  obtain s2 d2 where 2: "scan_allow_list E q w False (ct_allow_regex ct) (es_allow st) d1
      (allow_list_value E q (ct_user_allow_regex ct) 0)
      = Inr (allow_list_value E q (ct_allow_regex ct) (allow_list_value E q (ct_user_allow_regex ct) 0), s2, d2)"
    "slot_ok E heap s2"
    using scan_allow_list_value [OF assms(1) sl(2,4)] by blast
  show ?thesis
    using False 1 2 assms(3) by (simp add: scan_allow_regex_band_def allow_regex_value_def slots_ok_def)
qed

definition white_band :: "string \<Rightarrow> string \<Rightarrow> bool \<Rightarrow> cfg \<Rightarrow> containers \<Rightarrow> nat" where
  "white_band q q0 is_cname cf ct = (if cf_whiteDB cf
     then fold (\<lambda>n band. max band (whitelist_lookup_band n (ct_white ct) (cf_python_tld_seg cf)))
       (query_names q q0 is_cname) 0 else 0)"

definition allow_value :: "re_env \<Rightarrow> string \<Rightarrow> string \<Rightarrow> bool \<Rightarrow> cfg \<Rightarrow> containers \<Rightarrow> nat" where
  "allow_value E q q0 is_cname cf ct = max (white_band q q0 is_cname cf ct)
     (if cf_userAllowRegexDB cf \<or> cf_allowRegexDB cf then allow_regex_value E q ct else 0)"

lemma resolve_numeric_value:
  assumes "env_ok E" "lists_ok heap ct" "slots_ok E heap st"
  shows "\<exists>st'. resolve_numeric_allow E q q0 is_cname cf ct b st
      = Inr (allow_value E q q0 is_cname cf ct \<ge> b, st') \<and> slots_ok E heap st'"
proof -
  obtain st' where "scan_allow_regex_band E q ct (cf_regex_warn_ms cf) st = Inr (allow_regex_value E q ct, st')"
    "slots_ok E heap st'"
    using scan_allow_regex_value [OF assms] by blast
  with assms(3) show ?thesis
    by (auto simp: resolve_numeric_allow_def allow_value_def white_band_def Let_def)
qed

subsection \<open>The discovery as a function of the lists\<close>

lemma discover_regex_list_fst:
  "fst (discover_regex_list E q cf user db loaded (h, d)) =
    (if h_found h \<or> q = [] \<or> \<not> loaded then h
     else (case find (\<lambda>(k, r). re_search E (re_text r) q) db of
         None \<Rightarrow> h
       | Some (key, rule) \<Rightarrow> h\<lparr>h_found := True, h_feed := key, h_group := ''DNSBL_Regex'',
           h_band := re_band rule\<rparr>))"
proof -
  let ?sc = "new_scan ''DNSBL_Regex'' (cf_regex_warn_ms cf) user"
  obtain r d' where f: "first_regex_match E db q ?sc d = (r, d')" by (cases "first_regex_match E db q ?sc d")
  with first_regex_match_fst [of E db q ?sc d] have "r = find (\<lambda>(k, r). re_search E (re_text r) q) db" by simp
  with f show ?thesis by (auto simp: discover_regex_list_def split: option.split)
qed

lemma discover_diag: "fst (discover U E q tld cf ct d) = fst (discover U E q tld cf ct d2)"
proof -
  have dr: "fst (discover_regex_list E q cf user db loaded x) = fst (discover_regex_list E q cf user db loaded y)"
    if "fst x = fst y" for user db loaded x y
    using that by (cases x; cases y) (simp add: discover_regex_list_fst)
  have two: "fst (discover_regex_list E q cf False db2 l2 (discover_regex_list E q cf True db1 l1 (h, d)))
    = fst (discover_regex_list E q cf False db2 l2 (discover_regex_list E q cf True db1 l1 (h, d2)))"
    for db1 db2 l1 l2 h
    by (intro dr) simp
  show ?thesis
    unfolding discover_def Let_def
    by (simp add: split_beta two [of "snd (ct_regex ct)" "cf_regexDB cf" "snd (ct_user_regex ct)"
        "cf_userRegexDB cf"])
qed

definition discovered :: "unicode_env \<Rightarrow> re_env \<Rightarrow> string \<Rightarrow> string \<Rightarrow> cfg \<Rightarrow> containers \<Rightarrow> hit" where
  "discovered U E q tld cf ct = fst (discover U E q tld cf ct \<lparr>d_warned = [], d_stderr = [], d_clock = 0\<rparr>)"

lemma discover_fst: "fst (discover U E q tld cf ct d) = discovered U E q tld cf ct"
  unfolding discovered_def by (rule discover_diag)

text \<open>The verdict as a function of the lists alone.\<close>

definition resolved_hit ::
  "re_env \<Rightarrow> string \<Rightarrow> string \<Rightarrow> bool \<Rightarrow> cfg \<Rightarrow> containers \<Rightarrow> hit \<Rightarrow> hit \<times> bool" where
  "resolved_hit E q q0 is_cname cf ct h =
    (if \<not> h_found h then (h, False)
     else if \<not> cf_important_rules cf then (h, fast_allow q q0 is_cname cf ct)
     else (let h' = reattribute q cf ct (block_value E q cf ct) h in
       (h', allow_value E q q0 is_cname cf ct \<ge> h_band h')))"

lemma resolve_hit_value:
  assumes "env_ok E" "lists_ok heap ct" "slots_ok E heap st"
  shows "\<exists>st'. resolve_hit E q q0 is_cname cf ct h st
      = Inr (fst (resolved_hit E q q0 is_cname cf ct h), snd (resolved_hit E q q0 is_cname cf ct h), st')
    \<and> slots_ok E heap st'"
proof (cases "h_found h \<and> cf_important_rules cf")
  case True
  obtain st1 where 1: "scan_block_band E q cf ct st = Inr (block_value E q cf ct, st1)" "slots_ok E heap st1"
    using scan_block_band_value [OF assms] by blast
  obtain st2 where 2: "resolve_numeric_allow E q q0 is_cname cf ct
      (h_band (reattribute q cf ct (block_value E q cf ct) h)) st1
      = Inr (allow_value E q q0 is_cname cf ct \<ge> h_band (reattribute q cf ct (block_value E q cf ct) h), st2)"
    "slots_ok E heap st2"
    using resolve_numeric_value [OF assms(1,2) 1(2)] by blast
  obtain b m where bm: "block_value E q cf ct = (b, m)" by (cases "block_value E q cf ct")
  show ?thesis using True 1 2 by (simp add: resolve_hit_def resolved_hit_def Let_def bm)
next
  case False
  with assms(3) show ?thesis by (auto simp: resolve_hit_def resolved_hit_def)
qed

definition verdict ::
  "unicode_env \<Rightarrow> re_env \<Rightarrow> string \<Rightarrow> string \<Rightarrow> string \<Rightarrow> bool \<Rightarrow> cfg \<Rightarrow> containers \<Rightarrow> DnsblDecision" where
  "verdict U E q q0 tld is_cname cf ct =
    (let (h, allowed) = resolved_hit E q q0 is_cname cf ct (discovered U E q tld cf ct) in
     decision_of q tld is_cname cf ct h allowed)"

lemma evaluate_value:
  assumes "env_ok E" "lists_ok heap ct" "slots_ok E heap st"
  shows "\<exists>st'. evaluate_domain U E q q0 tld is_cname cf ct st
      = Inr (verdict U E q q0 tld is_cname cf ct, st') \<and> slots_ok E heap st'"
proof -
  obtain h d where hd: "discover U E q tld cf ct (es_diag st) = (h, d)"
    by (cases "discover U E q tld cf ct (es_diag st)")
  have h: "h = discovered U E q tld cf ct" using discover_fst [of U E q tld cf ct "es_diag st"] hd by simp
  have "slots_ok E heap (st\<lparr>es_diag := d\<rparr>)" using assms(3) by (simp add: slots_ok_def)
  from resolve_hit_value [OF assms(1,2) this, of q q0 is_cname cf h] obtain st' where
    "resolve_hit E q q0 is_cname cf ct h (st\<lparr>es_diag := d\<rparr>) = Inr (fst (resolved_hit E q q0 is_cname cf ct h),
      snd (resolved_hit E q q0 is_cname cf ct h), st')" "slots_ok E heap st'" by blast
  then show ?thesis by (simp add: evaluate_domain_def hd verdict_def split_beta flip: h)
qed

subsection \<open>The band of a block\<close>

text \<open>Every payload of a list that matches the name, with its band.\<close>

definition zone_bands :: "string \<Rightarrow> zone_db \<Rightarrow> nat list" where
  "zone_bands q zone = map block_entry_band
     (List.map_filter (\<lambda>t. Option.bind (map_of zone t) (zone_entry_for q)) (label_tails q))"

definition data_bands :: "string \<Rightarrow> data_db \<Rightarrow> nat list" where
  "data_bands q data = (case map_of data q of None \<Rightarrow> [] | Some e \<Rightarrow> [block_entry_band e])"

definition block_bands :: "re_env \<Rightarrow> string \<Rightarrow> containers \<Rightarrow> nat list" where
  "block_bands E q ct = data_bands q (ct_data ct) @ zone_bands q (ct_zone ct)
     @ (if q = [] then [] else pre.all_bands E (snd (ct_user_regex ct)) q @ pre.all_bands E (snd (ct_regex ct)) q)"

lemma scan_zone_steps:
  "fst (fold (scan_zone_step q zone) ts best) = fold max (map block_entry_band
     (List.map_filter (\<lambda>t. Option.bind (map_of zone t) (zone_entry_for q)) ts)) (fst best)"
proof (induction ts arbitrary: best)
  case Nil
  then show ?case by (simp add: map_filter_simps)
next
  case (Cons t ts)
  show ?case
    using Cons.IH [of "scan_zone_step q zone t best"]
    by (cases "Option.bind (map_of zone t) (zone_entry_for q)")
      (simp_all add: scan_zone_step_def map_filter_simps max_def)
qed

text \<open>A presence gate is the truth of its list.\<close>

definition gates_ok :: "cfg \<Rightarrow> containers \<Rightarrow> bool" where
  "gates_ok cf ct \<longleftrightarrow> cf_dataDB cf = (ct_data ct \<noteq> []) \<and> cf_zoneDB cf = (ct_zone ct \<noteq> [])
     \<and> cf_whiteDB cf = (ct_white ct \<noteq> []) \<and> cf_regexDB cf = (snd (ct_regex ct) \<noteq> [])
     \<and> cf_userRegexDB cf = (snd (ct_user_regex ct) \<noteq> [])
     \<and> cf_allowRegexDB cf = (snd (ct_allow_regex ct) \<noteq> [])
     \<and> cf_userAllowRegexDB cf = (snd (ct_user_allow_regex ct) \<noteq> [])"

lemma block_list_value_band:
  assumes "env_ok E" "distinct (map fst (snd obj))" "loaded = (snd obj \<noteq> [])"
  shows "fst (block_list_value E q loaded obj best) = fold max (pre.all_bands E (snd obj) q) (fst best)"
proof (cases "snd obj = []")
  case True
  with assms(3) show ?thesis by (simp add: block_list_value_def pre.all_bands_def)
next
  case False
  have b: "fst (list_best E q (snd obj) (fst best)) = fold max (pre.all_bands E (snd obj) q) (fst best)"
    using list_best_band [OF assms(1,2), of q "fst best"] by (simp only: list_band_def)
  show ?thesis using False assms(3) b by (simp add: block_list_value_def split_beta)
qed

lemma block_value_band:
  assumes "env_ok E" "lists_ok heap ct" "gates_ok cf ct"
  shows "fst (block_value E q cf ct) = fold max (block_bands E q ct) 0"
proof -
  have l: "distinct (map fst (snd (ct_regex ct)))" "distinct (map fst (snd (ct_user_regex ct)))"
    "cf_regexDB cf = (snd (ct_regex ct) \<noteq> [])" "cf_userRegexDB cf = (snd (ct_user_regex ct) \<noteq> [])"
    using assms(2,3) by (simp_all add: lists_ok_def gates_ok_def)
  have d: "fst (scan_data q cf (ct_data ct) (0, None)) = fold max (data_bands q (ct_data ct)) 0"
    using assms(3) by (auto simp: scan_data_def data_bands_def gates_ok_def split: option.split)
  have z: "fst (scan_zone q cf (ct_zone ct) b) = fold max (zone_bands q (ct_zone ct)) (fst b)" for b
    using assms(3) by (auto simp: scan_zone_def zone_bands_def gates_ok_def scan_zone_steps
        iter_domain_suffixes_tails map_filter_def)
  have l2: "fst (block_list_value E q (cf_regexDB cf) (ct_regex ct)
      (block_list_value E q (cf_userRegexDB cf) (ct_user_regex ct) best))
    = fold max (pre.all_bands E (snd (ct_regex ct)) q)
        (fold max (pre.all_bands E (snd (ct_user_regex ct)) q) (fst best))" for best
    by (simp only: block_list_value_band [OF assms(1) l(1,3)] block_list_value_band [OF assms(1) l(2,4)])
  show ?thesis
  proof (cases "q = []")
    case True
    have e: "fst (block_value E q cf ct)
        = fst (scan_zone q cf (ct_zone ct) (scan_data q cf (ct_data ct) (0, None)))"
      using True by (simp add: block_value_def)
    have b: "block_bands E q ct = data_bands q (ct_data ct) @ zone_bands q (ct_zone ct)"
      using True by (simp add: block_bands_def)
    show ?thesis by (simp only: e b z d fold_append comp_def)
  next
    case False
    have e: "fst (block_value E q cf ct) = fst (block_list_value E q (cf_regexDB cf) (ct_regex ct)
        (block_list_value E q (cf_userRegexDB cf) (ct_user_regex ct)
          (scan_zone q cf (ct_zone ct) (scan_data q cf (ct_data ct) (0, None)))))"
      using False by (simp add: block_value_def)
    have b: "block_bands E q ct = data_bands q (ct_data ct) @ zone_bands q (ct_zone ct)
        @ pre.all_bands E (snd (ct_user_regex ct)) q @ pre.all_bands E (snd (ct_regex ct)) q"
      using False by (simp add: block_bands_def)
    show ?thesis by (simp only: e b l2 z d fold_append comp_def)
  qed
qed

subsection \<open>The band of the discovered block\<close>

lemma data_bands_mem: "map_of data q = Some e \<Longrightarrow> block_entry_band e \<in> set (data_bands q data)"
  by (simp add: data_bands_def)

lemma zone_bands_mem:
  assumes "find_zone_match q zone = Some (k, e)"
  shows "block_entry_band e \<in> set (zone_bands q zone)"
proof -
  obtain i where "i < length (label_tails q)" "k = label_tails q ! i"
    "Option.bind (map_of zone k) (zone_entry_for q) = Some e"
    using assms unfolding find_zone_match_def iter_domain_suffixes_tails zone_walk_first by blast
  then have "\<exists>t \<in> set (label_tails q). Option.bind (map_of zone t) (zone_entry_for q) = Some e"
    by (intro bexI [of _ k]) auto
  then have "e \<in> set (List.map_filter (\<lambda>t. Option.bind (map_of zone t) (zone_entry_for q)) (label_tails q))"
    by (simp add: map_filter_mem)
  then show ?thesis by (simp add: zone_bands_def)
qed

lemma regex_bands_mem:
  assumes "find (\<lambda>(k, r). re_search E (re_text r) q) db = Some (k, r)"
  shows "re_band r \<in> set (pre.all_bands E db q)"
proof -
  have "(k, r) \<in> set (filter (\<lambda>(k, r). re_search E (re_text r) q) db)"
    using assms by (auto simp: find_Some_iff) (metis nth_mem)
  then show ?thesis unfolding pre.all_bands_def by (force intro: rev_image_eqI)
qed

definition band_known :: "re_env \<Rightarrow> string \<Rightarrow> containers \<Rightarrow> hit \<Rightarrow> bool" where
  "band_known E q ct h \<longleftrightarrow>
     (if h_found h then h_band h = prio_feed_block \<or> h_band h \<in> set (block_bands E q ct) else h_band h = 0)"

lemma discover_lists_known:
  "band_known E q ct (discover_zone q cf ct (discover_data q cf ct no_hit))"
  using data_bands_mem [of "ct_data ct" q] zone_bands_mem [of q "ct_zone ct"]
  by (auto simp: band_known_def discover_data_def discover_zone_def no_hit_def block_bands_def block_entry_band_def
      split: option.splits prod.splits)

lemma discover_builtin_known:
  "band_known E q ct h \<Longrightarrow> band_known E q ct (discover_tld U q tld cf ct h)"
  "band_known E q ct h \<Longrightarrow> band_known E q ct (discover_idn U q cf h)"
  "band_known E q ct h \<Longrightarrow> band_known E q ct (discover_builtin_attribution q cf h)"
  by (auto simp: band_known_def discover_tld_def discover_idn_def discover_builtin_attribution_def
      Let_def split: prod.splits idn_action.splits option.splits)

lemma discover_regex_known:
  assumes "band_known E q ct (fst x)" "db = snd (ct_user_regex ct) \<or> db = snd (ct_regex ct)"
  shows "band_known E q ct (fst (discover_regex_list E q cf user db loaded x))"
proof -
  obtain h d where x: "x = (h, d)" by (cases x)
  have "re_band r \<in> set (block_bands E q ct)"
    if "find (\<lambda>(k, r). re_search E (re_text r) q) db = Some (k, r)" "q \<noteq> []" for k r
    using regex_bands_mem [OF that(1)] assms(2) that(2) by (auto simp: block_bands_def)
  with assms(1) show ?thesis
    unfolding x discover_regex_list_fst by (auto simp: band_known_def split: option.split)
qed

lemma discovered_known: "band_known E q ct (discovered U E q tld cf ct)"
proof -
  let ?h0 = "if cf_python_blocking cf then discover_zone q cf ct (discover_data q cf ct no_hit) else no_hit"
  have h0: "band_known E q ct ?h0"
    using discover_lists_known by (auto simp: band_known_def no_hit_def)
  let ?x = "(discover_idn U q cf (discover_tld U q tld cf ct ?h0), \<lparr>d_warned = [], d_stderr = [], d_clock = 0\<rparr>)"
  have x: "band_known E q ct (fst ?x)" using h0 discover_builtin_known by simp
  let ?y = "discover_regex_list E q cf True (snd (ct_user_regex ct)) (cf_userRegexDB cf) ?x"
  have y: "band_known E q ct (fst ?y)" using discover_regex_known [OF x] by blast
  have z: "band_known E q ct (fst (discover_regex_list E q cf False (snd (ct_regex ct)) (cf_regexDB cf) ?y))"
    using discover_regex_known [OF y] by blast
  show ?thesis
    using h0 discover_builtin_known(3) [OF z] by (auto simp: discovered_def discover_def Let_def split_beta)
qed

subsection \<open>The numeric rule\<close>

definition allow_bands :: "re_env \<Rightarrow> string \<Rightarrow> string \<Rightarrow> bool \<Rightarrow> nat \<Rightarrow> containers \<Rightarrow> nat list" where
  "allow_bands E q q0 is_cname seg ct =
     map (\<lambda>n. whitelist_lookup_band n (ct_white ct) seg) (query_names q q0 is_cname)
     @ (if q = [] then [] else pre.all_bands E (snd (ct_user_allow_regex ct)) q
          @ pre.all_bands E (snd (ct_allow_regex ct)) q)"

lemma lookup_band_Nil [simp]: "whitelist_lookup_band n [] seg = 0"
proof -
  have "white_band_walk [] seg k q b = b" for k q b by (induction k arbitrary: q) (auto simp: Let_def)
  then show ?thesis by (simp add: whitelist_lookup_band_def Let_def)
qed

lemma fold_max_start: "fold max xs (max a b) = max (a :: nat) (fold max xs b)"
  by (induction xs arbitrary: a b) (simp_all add: ac_simps)

lemma fold_max_zero: "fold max xs (a :: nat) = max a (fold max xs 0)"
  using fold_max_start [of xs a 0] by simp

lemma allow_value_bands:
  assumes "env_ok E" "lists_ok heap ct" "gates_ok cf ct"
  shows "allow_value E q q0 is_cname cf ct = fold max (allow_bands E q q0 is_cname (cf_python_tld_seg cf) ct) 0"
proof -
  have l: "distinct (map fst (snd (ct_allow_regex ct)))" "distinct (map fst (snd (ct_user_allow_regex ct)))"
    using assms(2) by (simp_all add: lists_ok_def)
  have a: "allow_list_value E q obj b = fold max (pre.all_bands E (snd obj) q) b"
    if "distinct (map fst (snd obj))" for obj b
    using list_best_band [OF assms(1) that, of q b]
    by (cases "snd obj = []") (simp_all add: allow_list_value_def list_band_def pre.all_bands_def)
  have e: "pre.all_bands E [] q = []" by (simp add: pre.all_bands_def)
  have r: "(if cf_userAllowRegexDB cf \<or> cf_allowRegexDB cf then allow_regex_value E q ct else 0)
      = fold max (if q = [] then [] else pre.all_bands E (snd (ct_user_allow_regex ct)) q
          @ pre.all_bands E (snd (ct_allow_regex ct)) q) 0"
    using assms(3) by (auto simp: gates_ok_def allow_regex_value_def a [OF l(1)] a [OF l(2)] e)
  have w: "white_band q q0 is_cname cf ct = fold max (map (\<lambda>n. whitelist_lookup_band n (ct_white ct)
      (cf_python_tld_seg cf)) (query_names q q0 is_cname)) 0"
    using assms(3) by (auto simp: white_band_def gates_ok_def query_names_def max.commute)
  show ?thesis
    unfolding allow_value_def allow_bands_def r w fold_append comp_def by (rule fold_max_zero [symmetric])
qed

lemma reattribute_band:
  "h_band (reattribute q cf ct (block_value E q cf ct) h) = max (h_band h) (fst (block_value E q cf ct))
   \<or> snd (block_value E q cf ct) = None"
  by (cases "block_value E q cf ct")
    (auto simp: reattribute_def Let_def split: option.split block_meta.split prod.split)

lemma reattribute_found [simp]: "h_found (reattribute q cf ct b h) = h_found h"
  by (auto simp: reattribute_def split: option.split block_meta.split prod.split)

text \<open>A best block with a positive band carries its entry.\<close>

definition meta_ok :: "best_block \<Rightarrow> bool" where
  "meta_ok b \<longleftrightarrow> (snd b = None \<longrightarrow> fst b = 0)"

lemma fold_best_meta:
  "snd (fold_best E db q keys (n, None)) = None \<Longrightarrow> fst (fold_best E db q keys (n, None)) = n"
proof -
  have "snd best = None \<longrightarrow> fst best = n \<Longrightarrow>
      snd (fold_best E db q keys best) = None \<longrightarrow> fst (fold_best E db q keys best) = n" for best
  proof (induction keys arbitrary: best)
    case Nil
    then show ?case by (simp add: fold_best_def)
  next
    case (Cons k keys)
    then show ?case
      unfolding fold_best_def by (auto split: option.split simp flip: fold_best_def)
  qed
  from this [of "(n, None)"] show "snd (fold_best E db q keys (n, None)) = None \<Longrightarrow>
    fst (fold_best E db q keys (n, None)) = n" by simp
qed

lemma block_list_meta: "meta_ok b \<Longrightarrow> meta_ok (block_list_value E q loaded obj b)"
  using fold_best_meta [of E "snd obj" q "snd (regex_candidates E None (0, snd obj) q)" "fst b"]
  by (auto simp: meta_ok_def block_list_value_def list_best_def split_beta split: option.splits)

lemma scan_zone_meta: "meta_ok b \<Longrightarrow> meta_ok (scan_zone q cf zone b)"
proof -
  have st: "meta_ok b \<Longrightarrow> meta_ok (scan_zone_step q zone t b)" for t b
    by (auto simp: meta_ok_def scan_zone_step_def split: option.splits)
  have "meta_ok b \<Longrightarrow> meta_ok (fold (scan_zone_step q zone) ts b)" for ts b
    by (induction ts arbitrary: b) (simp_all only: fold_simps(1) fold_simps(2) st)
  then show "meta_ok b \<Longrightarrow> meta_ok (scan_zone q cf zone b)" by (simp add: scan_zone_def)
qed

lemma block_value_meta: "meta_ok (block_value E q cf ct)"
proof -
  have "meta_ok (scan_data q cf (ct_data ct) (0, None))"
    by (auto simp: scan_data_def meta_ok_def split: option.split)
  then show ?thesis
    unfolding block_value_def Let_def by (auto intro!: block_list_meta scan_zone_meta)
qed

lemma numeric_band:
  assumes "env_ok E" "lists_ok heap ct" "gates_ok cf ct"
  shows "h_band (reattribute q cf ct (block_value E q cf ct) h) = fold max (block_bands E q ct) (h_band h)"
proof -
  have "snd (block_value E q cf ct) = None \<Longrightarrow> fst (block_value E q cf ct) = 0"
    using block_value_meta [of E q cf ct] by (simp add: meta_ok_def)
  then have "h_band (reattribute q cf ct (block_value E q cf ct) h) = max (h_band h) (fst (block_value E q cf ct))"
    using reattribute_band [of q cf ct E h] by (cases "snd (block_value E q cf ct)") (auto simp: reattribute_def)
  then show ?thesis using block_value_band [OF assms, of q] fold_max_zero [of "block_bands E q ct" "h_band h"] by simp
qed

lemma verdict_fields:
  "dd_is_found (verdict U E q q0 tld is_cname cf ct) = h_found (discovered U E q tld cf ct)"
  "dd_in_whitelist (verdict U E q q0 tld is_cname cf ct)
     = snd (resolved_hit E q q0 is_cname cf ct (discovered U E q tld cf ct))"
  by (simp_all add: verdict_def decision_of_def resolved_hit_def Let_def split_beta)

lemma verdict_numeric:
  assumes "env_ok E" "lists_ok heap ct" "gates_ok cf ct" "cf_important_rules cf"
  shows "dd_in_whitelist (verdict U E q q0 tld is_cname cf ct) \<longleftrightarrow>
    h_found (discovered U E q tld cf ct)
    \<and> fold max (block_bands E q ct) (h_band (discovered U E q tld cf ct))
      \<le> fold max (allow_bands E q q0 is_cname (cf_python_tld_seg cf) ct) 0"
  unfolding verdict_fields resolved_hit_def Let_def
  using assms(4) numeric_band [OF assms(1-3)] allow_value_bands [OF assms(1-3)] by simp

end
