(* ===== verification/Verdict.thy ===== *)
theory Verdict
  imports Matcher
begin

text \<open>
  The properties of \<open>evaluate_domain\<close>: its decision depends on the lists alone, the numeric
  path is the six-band rule over every matching rule, the fast path agrees with it where the
  loader selects it, user rules beat feed rules, and the fields of a decision agree.
\<close>

subsection \<open>Loaded lists\<close>

text \<open>What the loader puts into the containers: block bands are 1 to 5, white bands 1 to 6.\<close>

definition block_bands_ok :: "containers \<Rightarrow> bool" where
  "block_bands_ok ct \<longleftrightarrow>
     list_all (\<lambda>(d, e). pl_band e \<in> {1..prio_user_block}) (ct_data ct)
     \<and> list_all (\<lambda>(d, e). pl_band e \<in> {1..prio_user_block}
          \<and> (\<forall>f. z_fallback e = Some f \<longrightarrow> pl_band f \<in> {1..prio_user_block})) (ct_zone ct)
     \<and> list_all (\<lambda>(k, r). re_band r \<in> {1..prio_user_block}) (snd (ct_regex ct) @ snd (ct_user_regex ct))"

lemma zone_entry_band:
  "zone_entry_for q e = Some p \<Longrightarrow>
    pl_band p = pl_band e \<or> (\<exists>f. z_fallback e = Some f \<and> pl_band p = pl_band f)"
  by (auto simp: zone_entry_for_def Let_def payload.truncate_def split: if_splits option.splits)

lemma all_bands_mem:
  "b \<in> set (pre.all_bands E db q) \<longleftrightarrow> (\<exists>k r. (k, r) \<in> set db \<and> re_search E (re_text r) q \<and> b = re_band r)"
  by (force simp: pre.all_bands_def)

lemma block_bands_range:
  assumes "block_bands_ok ct" "b \<in> set (block_bands E q ct)"
  shows "1 \<le> b \<and> b \<le> prio_user_block"
proof -
  consider "b \<in> set (data_bands q (ct_data ct))" | "b \<in> set (zone_bands q (ct_zone ct))"
    | "b \<in> set (pre.all_bands E (snd (ct_user_regex ct)) q @ pre.all_bands E (snd (ct_regex ct)) q)"
    using assms(2) by (auto simp: block_bands_def split: if_splits)
  then show ?thesis
  proof cases
    case 1
    then obtain e where e: "map_of (ct_data ct) q = Some e" "b = pl_band e"
      by (cases "map_of (ct_data ct) q") (auto simp: data_bands_def block_entry_band_def)
    show ?thesis
      using assms(1) map_of_SomeD [OF e(1)] e(2) by (auto simp: block_bands_ok_def list_all_iff)
  next
    case 2
    then obtain t e p where p: "map_of (ct_zone ct) t = Some e" "zone_entry_for q e = Some p" "b = pl_band p"
      by (auto simp: zone_bands_def map_filter_mem block_entry_band_def bind_eq_Some_conv)
    show ?thesis
      using bspec [OF conjunct1 [OF conjunct2 [OF assms(1) [unfolded block_bands_ok_def list_all_iff]]]
          map_of_SomeD [OF p(1)]] zone_entry_band [OF p(2)] p(3) by auto
  next
    case 3
    with assms(1) show ?thesis by (auto simp: block_bands_ok_def list_all_iff all_bands_mem)
  qed
qed

lemma discovered_band_range:
  assumes "block_bands_ok ct" "h_found (discovered U E q tld cf ct)"
  shows "1 \<le> h_band (discovered U E q tld cf ct) \<and> h_band (discovered U E q tld cf ct) \<le> prio_user_block"
  using discovered_known [of E q ct U tld cf] assms block_bands_range [OF assms(1), of _ E q]
  by (auto simp: band_known_def prio_defs)

lemma fold_max_le_iff: "fold max xs (a :: nat) \<le> n \<longleftrightarrow> a \<le> n \<and> (\<forall>x \<in> set xs. x \<le> n)"
  by (induction xs arbitrary: a) auto

lemma fold_max_ge_iff: "n \<le> fold max xs (a :: nat) \<longleftrightarrow> n \<le> a \<or> (\<exists>x \<in> set xs. n \<le> x)"
  by (induction xs arbitrary: a) (auto simp: le_max_iff_disj)

lemma fold_max_dominated:
  "0 < n \<Longrightarrow> \<forall>b \<in> set bs. 0 < b \<Longrightarrow>
    fold max bs n \<le> fold max xs (0 :: nat) \<longleftrightarrow> (\<forall>b \<in> insert n (set bs). \<exists>a \<in> set xs. b \<le> a)"
proof -
  assume "0 < n" "\<forall>b \<in> set bs. 0 < b"
  moreover have "b \<le> fold max xs 0 \<longleftrightarrow> (\<exists>a \<in> set xs. b \<le> a)" if "0 < b" for b
    using that by (simp add: fold_max_ge_iff)
  ultimately show ?thesis by (simp add: fold_max_le_iff)
qed

subsection \<open>The fast path\<close>

lemma fold_max_const: "\<forall>b \<in> set bs. b = p \<Longrightarrow> a \<le> p \<Longrightarrow> fold max bs (a :: nat) = (if bs = [] then a else p)"
  by (induction bs arbitrary: a) auto

lemma user_white_band:
  assumes "\<forall>(d, e) \<in> set white. white_entry_band e = prio_user_allow"
  shows "whitelist_lookup_band n white seg = (if whitelist_check_domain n white seg then prio_user_allow else 0)"
proof -
  have ok: "white_ok white" using assms by (fastforce simp: white_ok_def prio_defs)
  have "\<forall>b \<in> set (map white_entry_band (white_matches n white seg)). b = prio_user_allow"
    using white_matches_get [of _ n white seg] map_of_SomeD [of white] assms by fastforce
  then have "fold max (map white_entry_band (white_matches n white seg)) 0
      = (if white_matches n white seg \<noteq> [] then prio_user_allow else 0)"
    using fold_max_const [of "map white_entry_band (white_matches n white seg)" prio_user_allow 0] by simp
  then show ?thesis
    unfolding lookup_band_matches [OF ok]
    by (simp add: whitelist_check_domain_def lookup_domain_matches split: list.split)
qed

lemma discovered_important [simp]:
  "discovered U E q tld (cf\<lparr>cf_important_rules := b\<rparr>) ct = discovered U E q tld cf ct"
proof -
  have t: "tld_allow_blocks U q tld (cf\<lparr>cf_important_rules := b\<rparr>) ct = tld_allow_blocks U q tld cf ct"
    by (simp add: tld_allow_blocks_def)
  have l: "discover_regex_list E q (cf\<lparr>cf_important_rules := b\<rparr>) = discover_regex_list E q cf"
    by (intro ext) (simp add: discover_regex_list_def split: prod.split)
  have sel: "cf_python_idn (cf\<lparr>cf_important_rules := b\<rparr>) = cf_python_idn cf"
    "cf_idn_mode (cf\<lparr>cf_important_rules := b\<rparr>) = cf_idn_mode cf"
    "cf_idn_block_malicious (cf\<lparr>cf_important_rules := b\<rparr>) = cf_idn_block_malicious cf"
    "cf_idn_escalate_suspicious (cf\<lparr>cf_important_rules := b\<rparr>) = cf_idn_escalate_suspicious cf"
    "cf_python_blocking (cf\<lparr>cf_important_rules := b\<rparr>) = cf_python_blocking cf"
    "cf_userRegexDB (cf\<lparr>cf_important_rules := b\<rparr>) = cf_userRegexDB cf"
    "cf_regexDB (cf\<lparr>cf_important_rules := b\<rparr>) = cf_regexDB cf"
    by simp_all
  have i: "discover_idn U q (cf\<lparr>cf_important_rules := b\<rparr>) = discover_idn U q cf"
    by (intro ext) (simp only: discover_idn_def effective_idn_mode_def sel)
  have d: "discover_data q (cf\<lparr>cf_important_rules := b\<rparr>) = discover_data q cf"
    "discover_zone q (cf\<lparr>cf_important_rules := b\<rparr>) = discover_zone q cf"
    "discover_builtin_attribution q (cf\<lparr>cf_important_rules := b\<rparr>) = discover_builtin_attribution q cf"
    by (intro ext, simp add: discover_data_def discover_zone_def discover_builtin_attribution_def)+
  have e: "discover_tld U q tld (cf\<lparr>cf_important_rules := b\<rparr>) ct h = discover_tld U q tld cf ct h" for h
    by (simp add: discover_tld_def t)
  show ?thesis unfolding discovered_def discover_def l d i e sel ..
qed

lemma gates_important [simp]: "gates_ok (cf\<lparr>cf_important_rules := b\<rparr>) ct = gates_ok cf ct"
  by (simp add: gates_ok_def)

text \<open>The loaded lists and the configuration the witnesses evaluate.\<close>

definition sample_ct :: containers where
  "sample_ct = \<lparr>ct_data = [(''bad.org'', \<lparr>pl_log = ''3'', pl_index = 0, pl_important = False, pl_band = 5\<rparr>)],
     ct_zone = [], ct_white = [(''ok.org'', white_new True True 6)],
     ct_regex = (1, [(''f#0'', \<lparr>re_text = ''ads'', re_important = False, re_band = 1\<rparr>)]),
     ct_allow_regex = (2, []), ct_user_regex = (3, []), ct_user_allow_regex = (4, []),
     ct_feed_group_index = [(0, (''Feed'', ''Group''))], ct_hsts = [], ct_psl_rules = empty_rules,
     ct_tld_allow_roots = [], ct_psl_allow_private = False\<rparr>"

definition sample_cf :: "bool \<Rightarrow> cfg" where
  "sample_cf important = \<lparr>cf_python_blocking = True, cf_dataDB = True, cf_zoneDB = False, cf_tld_allow = False,
     cf_tld_allow_list = [], cf_dnsbl_ipv4 = ''10.10.10.1'', cf_dnsbl_ipv6 = ''::10.10.10.1'',
     cf_python_idn = False, cf_idn_mode = Raw_mode Idn_off, cf_idn_block_malicious = True,
     cf_idn_escalate_suspicious = False, cf_regexDB = True, cf_whiteDB = True, cf_allowRegexDB = False,
     cf_userRegexDB = False, cf_userAllowRegexDB = False, cf_important_rules = important,
     cf_regex_warn_ms = 50, cf_python_tld_seg = 2, cf_hstsDB = False, cf_hsts_tlds = [],
     cf_builtin_log_flag = ''0''\<rparr>"

definition sample_st :: eval_state where
  "sample_st = \<lparr>es_block = None, es_allow = None, es_user_block = None, es_user_allow = None,
     es_diag = \<lparr>d_warned = [], d_stderr = [], d_clock = 0\<rparr>\<rparr>"

definition sample_heap :: "nat \<Rightarrow> regex_db" where
  "sample_heap i = (if i = 1 then snd (ct_regex sample_ct) else [])"

lemma sample_ok:
  "lists_ok sample_heap sample_ct" "slots_ok sample_env sample_heap sample_st"
  "gates_ok (sample_cf b) sample_ct" "block_bands_ok sample_ct" "white_ok (ct_white sample_ct)"
  by (simp_all add: lists_ok_def slots_ok_def slot_ok_def gates_ok_def block_bands_ok_def white_ok_def
      sample_heap_def sample_ct_def sample_st_def sample_cf_def white_new_def white_entry_band_def
      prio_user_block_def prio_user_allow_def)

definition sample_blocked :: DnsblDecision where
  "sample_blocked = \<lparr>dd_is_found = True, dd_in_whitelist = False, dd_in_hsts = False,
     dd_null_blocking = True, dd_nxdomain = True, dd_log_type = Some ''3'', dd_b_type = ''DNSBL'',
     dd_p_type = ''Python'', dd_feed = ''Feed'', dd_group = ''Group'',
     dd_b_eval = codes ''bad.org'', dd_idn_alert = None\<rparr>"

lemma sample_evaluation:
  "evaluate_domain plain_unicode sample_env ''bad.org'' ''bad.org'' ''org'' False (sample_cf True) sample_ct sample_st
     = Inr (sample_blocked, sample_st\<lparr>es_block := Some (1, [(CHR ''a'', [(''f#0'', ''ads'')])], [])\<rparr>)"
  by code_simp

subsection \<open>Properties\<close>

text \<open>C8. Evaluating a query never raises, and its decision is a function of the query and the
  loaded lists: the memoised prefilter indexes and the diagnostics already logged, which the
  evaluation reads and refreshes, change nothing in it.\<close>

theorem evaluate_domain_pure:
  assumes "env_ok E" "lists_ok heap ct" "slots_ok E heap st" "slots_ok E heap st'"
  shows "\<exists>d s s'. evaluate_domain U E q q0 tld is_cname cf ct st = Inr (d, s)
    \<and> evaluate_domain U E q q0 tld is_cname cf ct st' = Inr (d, s')
    \<and> slots_ok E heap s \<and> slots_ok E heap s'"
  using evaluate_value [OF assms(1,2,3), of U q q0 tld is_cname cf]
    evaluate_value [OF assms(1,2,4), of U q q0 tld is_cname cf] by blast

theorem evaluate_domain_pure_witness:
  "\<exists>d s s'. evaluate_domain plain_unicode sample_env ''bad.org'' ''bad.org'' ''org'' False (sample_cf True) sample_ct sample_st = Inr (d, s)
     \<and> evaluate_domain plain_unicode sample_env ''bad.org'' ''bad.org'' ''org'' False (sample_cf True) sample_ct (sample_st\<lparr>es_block := Some (1, [(CHR ''a'', [(''f#0'', ''ads'')])], [])\<rparr>) = Inr (d, s')"
proof -
  have "slots_ok sample_env sample_heap (sample_st\<lparr>es_block := Some (1, [(CHR ''a'', [(''f#0'', ''ads'')])], [])\<rparr>)"
    using evaluate_value [OF sample_env_ok sample_ok(1,2), of plain_unicode "''bad.org''" "''bad.org''" "''org''" False
      "sample_cf True"] sample_evaluation by simp
  from evaluate_domain_pure [OF sample_env_ok sample_ok(1,2) this, of plain_unicode "''bad.org''" "''bad.org''"
      "''org''" False "sample_cf True"] show ?thesis by blast
qed

text \<open>C9. On the numeric path a found name is allowed exactly when every block that matches it, the
  discovered one included, has a matching allow of at least its band: over all the matching data,
  zone, regex and whitelist entries, not only the first found.\<close>

theorem evaluate_domain_six_bands:
  assumes "env_ok E" "lists_ok heap ct" "slots_ok E heap st" "gates_ok cf ct" "block_bands_ok ct"
    and "cf_important_rules cf"
    and "evaluate_domain U E q q0 tld is_cname cf ct st = Inr (d, st')"
  shows "dd_in_whitelist d \<longleftrightarrow> dd_is_found d
    \<and> (\<forall>b \<in> insert (h_band (discovered U E q tld cf ct)) (set (block_bands E q ct)).
         \<exists>a \<in> set (allow_bands E q q0 is_cname (cf_python_tld_seg cf) ct). b \<le> a)"
proof -
  have d: "d = verdict U E q q0 tld is_cname cf ct"
    using evaluate_value [OF assms(1-3), of U q q0 tld is_cname cf] assms(7) by auto
  have bs: "\<forall>b \<in> set (block_bands E q ct). 0 < b"
    using block_bands_range [OF assms(5)] by fastforce
  show ?thesis
    unfolding d verdict_numeric [OF assms(1,2,4,6)] verdict_fields(1)
    using fold_max_dominated [OF _ bs] discovered_band_range [OF assms(5), of U E q tld cf] by auto
qed

theorem evaluate_domain_six_bands_witness:
  "\<not> dd_in_whitelist sample_blocked \<and> dd_is_found sample_blocked
   \<and> (\<exists>b \<in> insert (h_band (discovered plain_unicode sample_env ''bad.org'' ''org'' (sample_cf True) sample_ct))
          (set (block_bands sample_env ''bad.org'' sample_ct)).
        \<forall>a \<in> set (allow_bands sample_env ''bad.org'' ''bad.org'' False 2 sample_ct). a < b)"
proof -
  have "cf_important_rules (sample_cf True)" "cf_python_tld_seg (sample_cf True) = 2"
    by (simp_all add: sample_cf_def)
  with evaluate_domain_six_bands [OF sample_env_ok sample_ok(1,2,3,4) _ sample_evaluation]
  show ?thesis by (simp add: sample_blocked_def not_le)
qed

text \<open>Where no allow regex is loaded and every white entry is a user allow, the fast path and the
  numeric path allow the same names.\<close>

lemma fast_verdict:
  assumes "env_ok E" "lists_ok heap ct" "gates_ok cf ct" "block_bands_ok ct"
    and "snd (ct_allow_regex ct) = []" "snd (ct_user_allow_regex ct) = []"
    and "\<forall>(d, e) \<in> set (ct_white ct). white_entry_band e = prio_user_allow"
  shows "dd_in_whitelist (verdict U E q q0 tld is_cname (cf\<lparr>cf_important_rules := True\<rparr>) ct)
      = dd_in_whitelist (verdict U E q q0 tld is_cname (cf\<lparr>cf_important_rules := False\<rparr>) ct)"
proof -
  let ?f = "cf\<lparr>cf_important_rules := False\<rparr>" and ?n = "cf\<lparr>cf_important_rules := True\<rparr>"
  let ?h = "discovered U E q tld cf ct"
  let ?as = "allow_bands E q q0 is_cname (cf_python_tld_seg cf) ct"
  have as: "?as = map (\<lambda>n. if whitelist_check_domain n (ct_white ct) (cf_python_tld_seg cf)
      then prio_user_allow else 0) (query_names q q0 is_cname)"
    using assms(5,6) by (simp add: allow_bands_def user_white_band [OF assms(7)] pre.all_bands_def)
  have bs: "fold max (block_bands E q ct) (h_band ?h) \<le> prio_user_block \<and> 0 < fold max (block_bands E q ct) (h_band ?h)"
    if "h_found ?h"
    using discovered_band_range [OF assms(4) that] block_bands_range [OF assms(4), of _ E q]
    by (auto simp: fold_max_le_iff less_eq_Suc_le fold_max_ge_iff)
  have ex: "prio_user_block \<le> fold max ?as 0 \<longleftrightarrow>
      list_ex (\<lambda>n. whitelist_check_domain n (ct_white ct) (cf_python_tld_seg cf)) (query_names q q0 is_cname)"
    unfolding fold_max_ge_iff as set_map bex_simps(7) by (simp add: prio_user_block_def prio_user_allow_def list_ex_iff)
  have "\<not> whitelist_check_domain n [] seg" for n seg
    using user_white_band [of "[]" n seg] by (simp add: prio_user_allow_def split: if_splits)
  then have f: "fast_allow q q0 is_cname ?f ct \<longleftrightarrow> prio_user_block \<le> fold max ?as 0"
    using assms(3) unfolding fast_allow_def gates_ok_def ex by (cases "ct_white ct = []") (simp_all add: list_ex_iff)
  have f': "0 < fold max ?as 0 \<longleftrightarrow> prio_user_block \<le> fold max ?as 0"
    unfolding less_eq_Suc_le fold_max_ge_iff as set_map bex_simps(7) by (simp add: prio_user_block_def prio_user_allow_def)
  have n: "dd_in_whitelist (verdict U E q q0 tld is_cname ?n ct)
      = (h_found ?h \<and> fold max (block_bands E q ct) (h_band ?h) \<le> fold max ?as 0)"
    using verdict_numeric [OF assms(1,2), of ?n U q q0 tld is_cname] by (simp add: assms(3))
  have fa: "dd_in_whitelist (verdict U E q q0 tld is_cname ?f ct) = (h_found ?h \<and> fast_allow q q0 is_cname ?f ct)"
    by (simp add: verdict_fields(2) resolved_hit_def)
  show ?thesis
  proof (cases "h_found ?h")
    case True
    show ?thesis unfolding n fa f using bs [OF True] f' by linarith
  next
    case False
    then show ?thesis by (simp only: n fa simp_thms)
  qed
qed

lemma verdict_bands:
  assumes "env_ok E" "lists_ok heap ct" "gates_ok cf ct" "block_bands_ok ct"
    and "cf_important_rules cf \<or> snd (ct_allow_regex ct) = [] \<and> snd (ct_user_allow_regex ct) = []
      \<and> (\<forall>(d, e) \<in> set (ct_white ct). white_entry_band e = prio_user_allow)"
  shows "dd_in_whitelist (verdict U E q q0 tld is_cname cf ct) \<longleftrightarrow>
    h_found (discovered U E q tld cf ct)
    \<and> (\<forall>b \<in> insert (h_band (discovered U E q tld cf ct)) (set (block_bands E q ct)).
         \<exists>a \<in> set (allow_bands E q q0 is_cname (cf_python_tld_seg cf) ct). b \<le> a)"
proof -
  let ?n = "cf\<lparr>cf_important_rules := True\<rparr>"
  have bs: "\<forall>b \<in> set (block_bands E q ct). 0 < b"
    using block_bands_range [OF assms(4)] by fastforce
  have "dd_in_whitelist (verdict U E q q0 tld is_cname cf ct) = dd_in_whitelist (verdict U E q q0 tld is_cname ?n ct)"
  proof (cases "cf_important_rules cf")
    case True
    then have "?n = cf" by simp
    then show ?thesis by simp
  next
    case False
    then have f: "cf\<lparr>cf_important_rules := False\<rparr> = cf" by simp
    have "snd (ct_allow_regex ct) = []" "snd (ct_user_allow_regex ct) = []"
      "\<forall>(d, e) \<in> set (ct_white ct). white_entry_band e = prio_user_allow"
      using assms(5) False by simp_all
    from fast_verdict [OF assms(1-4) this, of U q q0 tld is_cname]
    show ?thesis unfolding f by (rule sym)
  qed
  moreover have "dd_in_whitelist (verdict U E q q0 tld is_cname ?n ct) \<longleftrightarrow>
    h_found (discovered U E q tld cf ct)
    \<and> fold max (block_bands E q ct) (h_band (discovered U E q tld cf ct))
      \<le> fold max (allow_bands E q q0 is_cname (cf_python_tld_seg cf) ct) 0"
    using verdict_numeric [OF assms(1,2), of ?n U q q0 tld is_cname] assms(3) by simp
  ultimately show ?thesis
    using fold_max_dominated [OF _ bs] discovered_band_range [OF assms(4), of U E q tld cf] by auto
qed

text \<open>C10. Where the loader selects the fast path - no allow regex, every white entry a user allow -
  the fast path and the numeric path allow the same names.\<close>

theorem fast_path_is_numeric:
  assumes "env_ok E" "lists_ok heap ct" "gates_ok cf ct" "block_bands_ok ct"
    and "snd (ct_allow_regex ct) = []" "snd (ct_user_allow_regex ct) = []"
    and "\<forall>(d, e) \<in> set (ct_white ct). white_entry_band e = prio_user_allow"
    and "slots_ok E heap st"
  shows "\<exists>d d' s s'. evaluate_domain U E q q0 tld is_cname (cf\<lparr>cf_important_rules := False\<rparr>) ct st = Inr (d, s)
    \<and> evaluate_domain U E q q0 tld is_cname (cf\<lparr>cf_important_rules := True\<rparr>) ct st = Inr (d', s')
    \<and> dd_is_found d' = dd_is_found d \<and> dd_in_whitelist d' = dd_in_whitelist d"
  using evaluate_value [OF assms(1,2,8), of U q q0 tld is_cname "cf\<lparr>cf_important_rules := False\<rparr>"]
    evaluate_value [OF assms(1,2,8), of U q q0 tld is_cname "cf\<lparr>cf_important_rules := True\<rparr>"]
    fast_verdict [OF assms(1-7), of U q q0 tld is_cname]
  by (auto simp: verdict_fields(1))

theorem fast_path_is_numeric_witness:
  "\<exists>d d' s s'. evaluate_domain plain_unicode sample_env ''ads.ok.org'' ''ads.ok.org'' ''org'' False
       ((sample_cf True)\<lparr>cf_important_rules := False\<rparr>) sample_ct sample_st = Inr (d, s)
    \<and> evaluate_domain plain_unicode sample_env ''ads.ok.org'' ''ads.ok.org'' ''org'' False
       ((sample_cf True)\<lparr>cf_important_rules := True\<rparr>) sample_ct sample_st = Inr (d', s')
    \<and> dd_is_found d' = dd_is_found d \<and> dd_in_whitelist d' = dd_in_whitelist d"
proof -
  have "snd (ct_allow_regex sample_ct) = []" "snd (ct_user_allow_regex sample_ct) = []"
    "\<forall>(d, e) \<in> set (ct_white sample_ct). white_entry_band e = prio_user_allow"
    by (simp_all add: sample_ct_def white_new_def white_entry_band_def prio_user_allow_def)
  from fast_path_is_numeric [OF sample_env_ok sample_ok(1) sample_ok(3) [of True] sample_ok(4) this sample_ok(2)]
  show ?thesis by blast
qed

text \<open>C11. The response of every returned decision agrees with the verdict: only a standing block is
  answered at all; the web-server answer is given exactly for a block logged \<open>"1"\<close> on a name without
  HSTS; the NXDOMAIN answer exactly for a block logged \<open>"3"\<close> or \<open>"4"\<close>; and the HSTS mark is never set
  together with a direct NXDOMAIN or NODATA response.\<close>

theorem evaluate_domain_response:
  assumes "evaluate_domain U E q q0 tld is_cname cf ct st = Inr (d, st')"
  shows "(dd_in_whitelist d \<longrightarrow> dd_is_found d)
    \<and> (dd_nxdomain d \<longleftrightarrow> dd_is_found d \<and> \<not> dd_in_whitelist d \<and> dd_log_type d \<in> {Some ''3'', Some ''4''})
    \<and> (\<not> dd_null_blocking d \<longleftrightarrow> dd_is_found d \<and> \<not> dd_in_whitelist d \<and> dd_log_type d = Some ''1'' \<and> \<not> dd_in_hsts d)
    \<and> (dd_in_hsts d \<longrightarrow> dd_is_found d \<and> \<not> dd_in_whitelist d
        \<and> dd_log_type d \<notin> {Some ''3'', Some ''4'', Some ''5'', Some ''6''} \<and> cf_hstsDB cf)"
proof -
  obtain h a where d: "d = decision_of q tld is_cname cf ct h a" "a \<longrightarrow> h_found h"
    using assms unfolding evaluate_domain_def resolve_hit_def
    by (auto simp: Let_def reattribute_found split: prod.splits sum.splits if_splits)
  obtain hs pt where "(if h_found h \<and> \<not> a \<and> cf_hstsDB cf
      then hsts_check_domain q (ct_hsts ct) (cf_hsts_tlds cf) tld else (False, ''Python'')) = (hs, pt)"
    by fastforce
  moreover from this have "hs \<longrightarrow> h_found h \<and> \<not> a \<and> cf_hstsDB cf" by (auto split: if_splits)
  ultimately show ?thesis
    using d(2) unfolding d(1) decision_of_def Let_def by (auto simp: conj_assoc)
qed

theorem evaluate_domain_response_witness:
  "dd_nxdomain sample_blocked \<longleftrightarrow> dd_is_found sample_blocked \<and> \<not> dd_in_whitelist sample_blocked
     \<and> dd_log_type sample_blocked \<in> {Some ''3'', Some ''4''}"
  using evaluate_domain_response [OF sample_evaluation] by blast



end
