(* ===== verification/Build.thy ===== *)
theory Build
  imports Verdict
begin

text \<open>
  \<open>build\<close>: raw feeds and the manifest's configuration to the structure-set the matcher reads.
  A manifest row goes to the permit path, to the plain path or, line by line, to the ABP stream;
  the reconciled stream is emitted after the rows; the TOP1M yields are attached last.  A row's
  lines come from \<open>line_reader\<close>, which may fail; the state is what the function's local
  variables hold.
\<close>

subsection \<open>Manifest\<close>

record feed_row =
  fr_raw :: string
  fr_feed :: string
  fr_group :: string
  fr_log_flag :: string
  fr_mode :: "string option"
  fr_provenance :: "string option"
  fr_top1m :: "bool option"

text \<open>The keys of \<open>config\<close> that \<open>build\<close> reads; each may be absent.\<close>

record build_config =
  bc_blacklist :: "string list option"
  bc_exclusion :: "string list option"
  bc_regex_cap :: "bool option"
  bc_psl_rules :: "PslRules option"
  bc_psl_wildcard_enabled :: "bool option"
  bc_private_policy :: "string option"
  bc_icann_policy :: "string option"
  bc_psl_include_private :: "bool option"
  bc_builtin_log_flag :: "string option"
  bc_user_whitelist :: "string list option"
  bc_user_unlock :: "string list option"

record BuildResult =
  br_data :: data_db
  br_zone :: zone_db
  br_feed_group_index :: feed_group_index
  br_white :: white_db
  br_counts :: nat
  br_regex :: regex_db
  br_allow_regex :: regex_db
  br_user_regex :: regex_db
  br_user_allow_regex :: regex_db
  br_important_rules :: bool
  br_regex_count :: nat
  br_rejects :: reject_tally
  br_psl_rules :: PslRules
  br_builtin_log_flag :: string

subsection \<open>The local variables\<close>

text \<open>What the loops read but never write.\<close>

record build_env =
  be_unicode :: unicode_env
  be_blacklist :: "string list"
  be_exclusion :: "string list"
  be_psl :: PslRules
  be_class_psl :: PslRules
  be_private_policy :: string
  be_icann_policy :: string
  be_include_private :: bool
  be_top1m :: "string list"
  be_top1m_rows :: "(string \<times> string) list"

record build_state =
  bs_data :: data_db
  bs_zone :: "(string \<times> payload) list"
  bs_zone_top1m :: "(string \<times> payload option) list"
  bs_index :: feed_group_index
  bs_feed_group :: "(string \<times> nat) list"
  bs_next :: nat
  bs_white :: white_db
  bs_rejects :: reject_tally
  bs_abp :: "Rule list"
  bs_permit :: bool

definition build_env_of ::
  "unicode_env \<Rightarrow> feed_row list \<Rightarrow> build_config \<Rightarrow> bool \<Rightarrow> string list \<Rightarrow> build_env" where
  "build_env_of U feeds config top1m_enabled top1m_lines =
    (let psl = dict_get (bc_psl_rules config) empty_rules;
         top1m = (if top1m_enabled then dnsbl_top1m_names top1m_lines else []) in
     \<lparr>be_unicode = U,
       be_blacklist = remdups (map strip_dots (dict_get (bc_blacklist config) [])),
       be_exclusion = map strip_dots (dict_get (bc_exclusion config) []),
       be_psl = psl,
       be_class_psl = (if dict_get (bc_psl_wildcard_enabled config) True then psl else empty_rules),
       be_private_policy = dict_get (bc_private_policy config) ''honor'',
       be_icann_policy = dict_get (bc_icann_policy config) ''honor'',
       be_include_private = dict_get (bc_psl_include_private config) True,
       be_top1m = top1m,
       be_top1m_rows = (if top1m \<noteq> []
         then map (\<lambda>row. (fr_feed row, fr_group row)) (filter (\<lambda>row. fr_top1m row = Some True) feeds)
         else [])\<rparr>)"

definition policy_active :: "build_env \<Rightarrow> bool" where
  "policy_active env \<longleftrightarrow> be_private_policy env \<noteq> ''honor'' \<or> be_icann_policy env \<noteq> ''honor''"

definition feed_policy :: "build_env \<Rightarrow> provenance \<Rightarrow> string \<Rightarrow> string option" where
  "feed_policy env prov name =
    (if prov = Feed \<and> policy_active env
     then dnsbl_suffix_feed_policy (be_unicode env) name (be_psl env) (be_private_policy env) (be_icann_policy env)
     else None)"

definition tally_state :: "string \<Rightarrow> string \<Rightarrow> bucket \<Rightarrow> build_state \<Rightarrow> build_state" where
  "tally_state feed grp b st = st\<lparr>bs_rejects := tally_reject (bs_rejects st) feed grp b\<rparr>"

definition track_zone_top1m :: "string \<Rightarrow> bool \<Rightarrow> build_state \<Rightarrow> build_state" where
  "track_zone_top1m key filtered st =
    (if \<not> filtered then st\<lparr>bs_zone_top1m := AList.delete key (bs_zone_top1m st)\<rparr>
     else
      (let prior = map_of (bs_zone st) key; tracked = map_of (bs_zone_top1m st) key;
           fallback = (if prior \<noteq> None \<and> tracked = None then prior
                       else (case tracked of Some v \<Rightarrow> v | None \<Rightarrow> None)) in
       st\<lparr>bs_zone_top1m := AList.update key fallback (bs_zone_top1m st)\<rparr>))"

definition index_for :: "string \<Rightarrow> string \<Rightarrow> build_state \<Rightarrow> nat \<times> build_state" where
  "index_for feed grp st =
    (let key = feed @ grp in
     case map_of (bs_feed_group st) key of
       Some idx \<Rightarrow> (idx, st)
     | None \<Rightarrow> (let idx = bs_next st in
         (idx, st\<lparr>bs_feed_group := AList.update key idx (bs_feed_group st),
            bs_index := AList.update idx (feed, grp) (bs_index st), bs_next := idx + 1\<rparr>)))"

text \<open>One block: the yield is tracked only while some row is filtered, and an exact key that TOP1M
  lists is dropped for a filtered row.\<close>

definition put_zone :: "build_env \<Rightarrow> bool \<Rightarrow> string \<Rightarrow> payload \<Rightarrow> build_state \<Rightarrow> build_state" where
  "put_zone env filtered key p st =
    (let st = (if be_top1m_rows env \<noteq> [] then track_zone_top1m key filtered st else st) in
     st\<lparr>bs_zone := AList.update key p (bs_zone st)\<rparr>)"

definition put_data :: "build_env \<Rightarrow> bool \<Rightarrow> string \<Rightarrow> payload \<Rightarrow> build_state \<Rightarrow> build_state" where
  "put_data env filtered key p st =
    (if filtered \<and> top1m_listed key (be_top1m env) then st
     else st\<lparr>bs_data := AList.update key p (bs_data st)\<rparr>)"

subsection \<open>The built-in zones and the user allows\<close>

definition blacklist_step :: "string \<Rightarrow> string \<Rightarrow> build_state \<Rightarrow> build_state" where
  "blacklist_step log_flag tld st =
    (if tld = [] then st
     else (let (idx, st) = index_for ''DNSBL_TLD'' ''DNSBL_TLD'' st in
       st\<lparr>bs_zone := AList.update tld \<lparr>pl_log = log_flag, pl_index = idx, pl_important = False,
            pl_band = prio_feed_block\<rparr> (bs_zone st)\<rparr>))"

definition unlock_step :: "string \<times> white_entry \<Rightarrow> white_db \<Rightarrow> white_db" where
  "unlock_step entry white =
    (let (d, unlock_entry) = entry in
     case map_of white d of
       None \<Rightarrow> AList.update d unlock_entry white
     | Some existing \<Rightarrow> AList.update d (white_widen_entry existing unlock_entry) white)"

definition user_allows :: "build_config \<Rightarrow> white_db \<times> reject_tally" where
  "user_allows config =
    (let (white, t) = dnsbl_normalise_whitelist (dict_get (bc_user_whitelist config) []) (Some []) ''user-whitelist'';
         (unlock, t) = dnsbl_normalise_whitelist (dict_get (bc_user_unlock config) []) t ''user-unlock'' in
     (fold unlock_step unlock white, case t of Some tally \<Rightarrow> tally | None \<Rightarrow> []))"

subsection \<open>The rows\<close>

text \<open>The plain line of both paths: the domain, or the rejection that is tallied.\<close>

definition line_domain :: "string \<Rightarrow> (bucket + string) option" where
  "line_domain stripped = map_option (\<lambda>entry. normalise_verdict (p_value entry) False) (parse stripped)"

definition permit_insert :: "feed_row \<Rightarrow> string \<Rightarrow> build_state \<Rightarrow> build_state" where
  "permit_insert row d st =
    (let (idx, st) = index_for (fr_feed row) (fr_group row) st;
         new = White_dict \<lparr>wr_wildcard = Some True, wr_important = Some False,
           wr_band = Some prio_feed_allow, wr_index = Some idx\<rparr>;
         inserted = st\<lparr>bs_white := AList.update d new (bs_white st), bs_permit := True\<rparr> in
     case map_of (bs_white st) d of
       None \<Rightarrow> inserted
     | Some existing \<Rightarrow> if white_entry_band existing < prio_feed_allow then inserted else st)"

definition permit_line :: "feed_row \<Rightarrow> string \<Rightarrow> build_state \<Rightarrow> build_state" where
  "permit_line row raw_line st =
    (let stripped = strip raw_line in
     if stripped = [] \<or> prefix ''!'' stripped \<or> prefix ''['' stripped then st
     else if dnsbl_is_abp_rule_line stripped then st
     else (case line_domain stripped of
         None \<Rightarrow> st
       | Some (Inl b) \<Rightarrow> tally_state (fr_feed row) (fr_group row) b st
       | Some (Inr d) \<Rightarrow> permit_insert row d st))"

definition row_provenance :: "feed_row \<Rightarrow> provenance" where
  "row_provenance row = (if fr_provenance row = Some ''user'' then User else Feed)"

definition row_filtered :: "build_env \<Rightarrow> feed_row \<Rightarrow> bool" where
  "row_filtered env row \<longleftrightarrow> (fr_feed row, fr_group row) \<in> set (be_top1m_rows env)"

definition plain_block :: "build_env \<Rightarrow> feed_row \<Rightarrow> string \<Rightarrow> build_state \<Rightarrow> build_state" where
  "plain_block env row d st =
    (let prov = row_provenance row; policy = feed_policy env prov d; filtered = row_filtered env row in
     if policy = Some ''ignore'' then tally_state (fr_feed row) (fr_group row) Suffix_drop st
     else
      (let (idx, st) = index_for (fr_feed row) (fr_group row) st;
           (cls, key) = tld_wildcard_classify (be_unicode env) d (be_class_psl env) (set (be_exclusion env))
             (be_include_private env) (set (be_blacklist env));
           p = \<lparr>pl_log = fr_log_flag row, pl_index = idx, pl_important = False,
             pl_band = (if prov = User then prio_user_block else prio_feed_block)\<rparr> in
       if cls = Class_zone \<and> policy = Some ''apex''
       then put_data env filtered d p (tally_state (fr_feed row) (fr_group row) Suffix_demote st)
       else if cls = Class_zone then put_zone env filtered key p st
       else put_data env filtered key p st))"

definition block_line :: "build_env \<Rightarrow> feed_row \<Rightarrow> string \<Rightarrow> build_state \<Rightarrow> build_state" where
  "block_line env row raw_line st =
    (let stripped = strip raw_line in
     if dnsbl_is_abp_rule_line stripped then
       (let (rule, tally) = parse_abp stripped (row_provenance row) (fr_feed row) (fr_group row)
              (fr_log_flag row) (Some (bs_rejects st));
            st = st\<lparr>bs_rejects := (case tally of Some t \<Rightarrow> t | None \<Rightarrow> bs_rejects st)\<rparr> in
        case rule of None \<Rightarrow> st | Some r \<Rightarrow> st\<lparr>bs_abp := bs_abp st @ [r]\<rparr>)
     else (case line_domain stripped of
         None \<Rightarrow> st
       | Some (Inl b) \<Rightarrow> tally_state (fr_feed row) (fr_group row) b st
       | Some (Inr d) \<Rightarrow> plain_block env row d st))"

definition row_step ::
  "(string \<Rightarrow> py_error + string list) \<Rightarrow> build_env \<Rightarrow> feed_row \<Rightarrow> build_state \<Rightarrow> py_error + build_state" where
  "row_step line_reader env row st =
    (case line_reader (fr_raw row) of
       Inl e \<Rightarrow> Inl e
     | Inr lines \<Rightarrow> Inr (if fr_mode row = Some ''permit'' then fold (permit_line row) lines st
                         else fold (block_line env row) lines st))"

fun rows_loop ::
  "(string \<Rightarrow> py_error + string list) \<Rightarrow> build_env \<Rightarrow> feed_row list \<Rightarrow> build_state \<Rightarrow> py_error + build_state" where
  "rows_loop line_reader env [] st = Inr st"
| "rows_loop line_reader env (row # rows) st =
    (case row_step line_reader env row st of
       Inl e \<Rightarrow> Inl e | Inr st' \<Rightarrow> rows_loop line_reader env rows st')"

subsection \<open>The reconciled stream\<close>

definition emit_block :: "build_env \<Rightarrow> BlockDomainRule \<Rightarrow> build_state \<Rightarrow> build_state" where
  "emit_block env b st =
    (let feed = or_text (bd_feed b) ''DNSBL''; grp = or_text (bd_group b) ''DNSBL'';
         policy = feed_policy env (bd_provenance b) (bd_key b);
         filtered = ((bd_feed b, bd_group b) \<in> set (be_top1m_rows env)) in
     if policy = Some ''ignore'' then tally_state feed grp Suffix_drop st
     else
      (let demote = (policy = Some ''apex'' \<and> bd_cls b = Class_zone);
           st = (if demote then tally_state feed grp Suffix_demote st else st);
           cls = (if demote then Class_data else bd_cls b);
           (idx, st) = index_for feed grp st;
           p = \<lparr>pl_log = or_text (bd_log b) ''0'', pl_index = idx, pl_important = bd_important b,
             pl_band = bd_band b\<rparr> in
       if cls = Class_zone then put_zone env filtered (bd_key b) p st
       else put_data env filtered (bd_key b) p st))"

definition emit_allow :: "AllowDomainRule \<Rightarrow> white_db \<Rightarrow> white_db" where
  "emit_allow a white =
    (let new = white_new (ad_wildcard a) (ad_important a) (ad_band a) in
     case map_of white (ad_domain a) of
       None \<Rightarrow> AList.update (ad_domain a) new white
     | Some existing \<Rightarrow>
         if white_entry_band existing < ad_band a then AList.update (ad_domain a) new white
         else if white_entry_band existing = ad_band a
         then AList.update (ad_domain a) (white_new (white_entry_wildcard existing \<or> ad_wildcard a)
                (white_entry_important existing \<or> ad_important a) (ad_band a)) white
         else white)"

text \<open>The four compiled lists and their sizes; the diagnostics are threaded.\<close>

record compiled_lists =
  cl_regex :: regex_db
  cl_allow_regex :: regex_db
  cl_user_regex :: regex_db
  cl_user_allow_regex :: regex_db
  cl_count :: nat

definition no_lists :: compiled_lists where
  "no_lists = \<lparr>cl_regex = [], cl_allow_regex = [], cl_user_regex = [], cl_user_allow_regex = [], cl_count = 0\<rparr>"

definition compile_lists ::
  "re_env \<Rightarrow> bool \<Rightarrow> ReconcileResult \<Rightarrow> diag \<Rightarrow> py_error + compiled_lists \<times> diag" where
  "compile_lists E static_cap result d =
    (let of_feed = filter (\<lambda>r. rx_provenance r \<noteq> User); of_user = filter (\<lambda>r. rx_provenance r = User) in
     case dnsbl_compile_regex_rules E (of_feed (block_regex_irreducible result)) static_cap d of
       Inl e \<Rightarrow> Inl e
     | Inr (fb, n1, d) \<Rightarrow>
    (case dnsbl_compile_regex_rules E (of_feed (allow_regex_irreducible result)) static_cap d of
       Inl e \<Rightarrow> Inl e
     | Inr (fa, n2, d) \<Rightarrow>
    (case dnsbl_compile_regex_rules E (of_user (block_regex_irreducible result)) static_cap d of
       Inl e \<Rightarrow> Inl e
     | Inr (ub, n3, d) \<Rightarrow>
    (case dnsbl_compile_regex_rules E (of_user (allow_regex_irreducible result)) static_cap d of
       Inl e \<Rightarrow> Inl e
     | Inr (ua, n4, d) \<Rightarrow>
         Inr (\<lparr>cl_regex = fb, cl_allow_regex = fa, cl_user_regex = ub, cl_user_allow_regex = ua,
            cl_count = n1 + n2 + n3 + n4\<rparr>, d)))))"

text \<open>What the stream adds: the state, the lists and the \<open>important_rules\<close> flag.\<close>

definition emit_stream ::
  "re_env \<Rightarrow> build_env \<Rightarrow> bool \<Rightarrow> build_state \<Rightarrow> diag
     \<Rightarrow> py_error + (build_state \<times> compiled_lists \<times> bool) \<times> diag" where
  "emit_stream E env static_cap st d =
    (if bs_abp st = [] then Inr ((st, no_lists, bs_permit st), d)
     else
      (let (result, tally) = reconcile (bs_abp st) (set (be_exclusion env)) (Some (bs_rejects st));
           st = st\<lparr>bs_rejects := (case tally of Some t \<Rightarrow> t | None \<Rightarrow> bs_rejects st)\<rparr>;
           st = fold (emit_block env) (block_domains result) st;
           st = st\<lparr>bs_white := fold emit_allow (allow_domains result) (bs_white st)\<rparr> in
       case compile_lists E static_cap result d of
         Inl e \<Rightarrow> Inl e
       | Inr (compd, d) \<Rightarrow> Inr ((st, compd, bs_permit st \<or> important_rules result
           \<or> cl_user_regex compd \<noteq> [] \<or> cl_user_allow_regex compd \<noteq> []), d)))"

subsection \<open>The result\<close>

text \<open>The last loop: \<open>zone_db[key]["top1m"] = top1m\<close> and the fallback.\<close>

fun finalise_zones ::
  "string list \<Rightarrow> (string \<times> payload option) list \<Rightarrow> zone_db \<Rightarrow> py_error + zone_db" where
  "finalise_zones top1m [] zone = Inr zone"
| "finalise_zones top1m ((key, fallback) # rest) zone =
    (case map_of zone key of
       None \<Rightarrow> Inl (KeyError key)
     | Some entry \<Rightarrow> finalise_zones top1m rest (AList.update key
         (entry\<lparr>z_top1m := Some top1m,
            z_fallback := (if fallback \<noteq> None then fallback else z_fallback entry)\<rparr>) zone))"

definition plain_zone :: "payload \<Rightarrow> zone_payload" where
  "plain_zone p = payload.extend p \<lparr>z_top1m = None, z_fallback = None\<rparr>"

definition build ::
  "unicode_env \<Rightarrow> re_env \<Rightarrow> feed_row list \<Rightarrow> build_config \<Rightarrow> (string \<Rightarrow> py_error + string list)
     \<Rightarrow> bool \<Rightarrow> string list \<Rightarrow> diag \<Rightarrow> py_error + BuildResult \<times> diag" where
  "build U E feeds config line_reader top1m_enabled top1m_lines d =
    (let env = build_env_of U feeds config top1m_enabled top1m_lines;
         flag = dict_get (bc_builtin_log_flag config) ''0'';
         st = \<lparr>bs_data = [], bs_zone = [], bs_zone_top1m = [], bs_index = [], bs_feed_group = [],
           bs_next = 0, bs_white = [], bs_rejects = [], bs_abp = [], bs_permit = False\<rparr>;
         st = fold (blacklist_step flag) (sort (be_blacklist env)) st;
         (white, rejects) = user_allows config;
         st = st\<lparr>bs_white := white, bs_rejects := rejects\<rparr> in
     case rows_loop line_reader env feeds st of
       Inl e \<Rightarrow> Inl e
     | Inr st \<Rightarrow>
        (case emit_stream E env (dict_get (bc_regex_cap config) False) st d of
           Inl e \<Rightarrow> Inl e
         | Inr ((st, compd, important), d) \<Rightarrow>
            (case finalise_zones (be_top1m env) (bs_zone_top1m st)
                (map (\<lambda>(k, p). (k, plain_zone p)) (bs_zone st)) of
               Inl e \<Rightarrow> Inl e
             | Inr zone \<Rightarrow>
                Inr (\<lparr>br_data = bs_data st, br_zone = zone, br_feed_group_index = bs_index st,
                  br_white = bs_white st, br_counts = length (bs_data st) + length zone,
                  br_regex = cl_regex compd, br_allow_regex = cl_allow_regex compd,
                  br_user_regex = cl_user_regex compd, br_user_allow_regex = cl_user_allow_regex compd,
                  br_important_rules = important, br_regex_count = cl_count compd,
                  br_rejects = bs_rejects st, br_psl_rules = be_psl env,
                  br_builtin_log_flag = flag\<rparr>, d))))"

subsection \<open>The invariant of the loops\<close>

text \<open>Every payload has a block band and an index of the table, the table holds exactly the indexes
  handed out, a tracked zone exists, and every allow has an allow band: the user band, until a
  permit row inserted a feed allow.\<close>

definition payload_ok :: "nat \<Rightarrow> 'a payload_scheme \<Rightarrow> bool" where
  "payload_ok n p \<longleftrightarrow> 1 \<le> pl_band p \<and> pl_band p \<le> prio_user_block \<and> pl_index p < n"

definition fallback_ok :: "nat \<Rightarrow> payload option \<Rightarrow> bool" where
  "fallback_ok n f \<longleftrightarrow> (case f of None \<Rightarrow> True | Some p \<Rightarrow> payload_ok n p)"

definition allow_ok :: "bool \<Rightarrow> white_entry \<Rightarrow> bool" where
  "allow_ok permit e \<longleftrightarrow> 1 \<le> white_entry_band e \<and> white_entry_band e \<le> prio_user_allow
     \<and> (permit \<or> white_entry_band e = prio_user_allow)"

definition build_ok :: "build_state \<Rightarrow> bool" where
  "build_ok st \<longleftrightarrow>
     (\<forall>p \<in> snd ` set (bs_data st). payload_ok (bs_next st) p)
     \<and> (\<forall>p \<in> snd ` set (bs_zone st). payload_ok (bs_next st) p)
     \<and> (\<forall>f \<in> snd ` set (bs_zone_top1m st). fallback_ok (bs_next st) f)
     \<and> fst ` set (bs_zone_top1m st) \<subseteq> fst ` set (bs_zone st)
     \<and> (\<forall>i. map_of (bs_index st) i \<noteq> None \<longleftrightarrow> i < bs_next st)
     \<and> (\<forall>i \<in> snd ` set (bs_feed_group st). i < bs_next st)
     \<and> (\<forall>e \<in> snd ` set (bs_white st). allow_ok (bs_permit st) e)"

lemma payload_ok_mono: "payload_ok n p \<Longrightarrow> n \<le> m \<Longrightarrow> payload_ok m p"
  by (simp add: payload_ok_def)

lemma fallback_ok_mono: "fallback_ok n f \<Longrightarrow> n \<le> m \<Longrightarrow> fallback_ok m f"
  by (auto simp: fallback_ok_def intro: payload_ok_mono split: option.splits)

lemma allow_ok_mono: "allow_ok b e \<Longrightarrow> allow_ok True e"
  by (simp add: allow_ok_def)

lemma update_values: "v \<in> snd ` set (AList.update k w al) \<Longrightarrow> v = w \<or> v \<in> snd ` set al"
  by (induction al) (auto split: if_splits)

lemma update_keys [simp]: "fst ` set (AList.update k w al) = insert k (fst ` set al)"
  by (induction al) auto

lemma delete_values: "v \<in> snd ` set (AList.delete k al) \<Longrightarrow> v \<in> snd ` set al"
  by (auto simp: AList.delete_eq)

lemma delete_keys: "fst ` set (AList.delete k al) \<subseteq> fst ` set al"
  by (auto simp: AList.delete_eq)

lemma update_ball:
  "\<forall>v \<in> snd ` set al. P v \<Longrightarrow> P w \<Longrightarrow> \<forall>v \<in> snd ` set (AList.update k w al). P v"
  by (induction al) auto

lemma delete_ball: "\<forall>v \<in> snd ` set al. P v \<Longrightarrow> \<forall>v \<in> snd ` set (AList.delete k al). P v"
  by (auto simp: AList.delete_eq)

text \<open>A step that keeps an invariant keeps it over a whole loop.\<close>

locale loop_step =
  fixes inv :: "'s \<Rightarrow> bool" and step :: "'a \<Rightarrow> 's \<Rightarrow> 's"
  assumes keeps: "inv s \<Longrightarrow> inv (step x s)"
begin

lemma loop: "inv s \<Longrightarrow> inv (fold step xs s)"
  by (induction xs arbitrary: s) (simp_all add: keeps)

end

lemma index_for_ok:
  assumes "build_ok st" "index_for feed grp st = (i, st')"
  shows "build_ok st'" "i < bs_next st'" "bs_zone st' = bs_zone st" "bs_data st' = bs_data st"
    "bs_zone_top1m st' = bs_zone_top1m st" "bs_white st' = bs_white st" "bs_permit st' = bs_permit st"
proof -
  have "build_ok st' \<and> i < bs_next st' \<and> bs_zone st' = bs_zone st \<and> bs_data st' = bs_data st
    \<and> bs_zone_top1m st' = bs_zone_top1m st \<and> bs_white st' = bs_white st \<and> bs_permit st' = bs_permit st"
  proof (cases "map_of (bs_feed_group st) (feed @ grp)")
    case None
    with assms(2) have s: "i = bs_next st" "st' = st\<lparr>bs_feed_group := AList.update (feed @ grp) i (bs_feed_group st),
        bs_index := AList.update i (feed, grp) (bs_index st), bs_next := i + 1\<rparr>"
      by (auto simp: index_for_def Let_def)
    have "build_ok st'"
      using assms(1) unfolding build_ok_def s
      by (auto simp: update_conv' less_Suc_eq intro: payload_ok_mono fallback_ok_mono dest!: update_values [OF imageI [of _ _ snd]]
          split: if_splits)
    with s show ?thesis by simp
  next
    case (Some j)
    with assms have "st' = st \<and> i = j \<and> j < bs_next st"
      by (auto simp: index_for_def build_ok_def dest!: map_of_SomeD bspec [OF _ imageI, of _ _ _ snd])
    with assms(1) show ?thesis by simp
  qed
  then show "build_ok st'" "i < bs_next st'" "bs_zone st' = bs_zone st" "bs_data st' = bs_data st"
    "bs_zone_top1m st' = bs_zone_top1m st" "bs_white st' = bs_white st" "bs_permit st' = bs_permit st" by auto
qed

lemma tally_state_ok [simp]: "build_ok (tally_state f g b st) = build_ok st"
  by (simp add: build_ok_def tally_state_def)

lemma zone_update_ok:
  assumes "build_ok st" "payload_ok (bs_next st) p"
    and "\<forall>f \<in> snd ` set zt. fallback_ok (bs_next st) f" "fst ` set zt \<subseteq> insert key (fst ` set (bs_zone st))"
  shows "build_ok (st\<lparr>bs_zone_top1m := zt, bs_zone := AList.update key p (bs_zone st)\<rparr>)"
proof -
  have "\<forall>q \<in> snd ` set (AList.update key p (bs_zone st)). payload_ok (bs_next st) q"
    using assms(1,2) by (auto simp: build_ok_def dest!: update_values [OF imageI [of _ _ snd]])
  with assms show ?thesis by (simp add: build_ok_def)
qed

lemma put_zone_ok:
  assumes "build_ok st" "payload_ok (bs_next st) p"
  shows "build_ok (put_zone env filtered key p st)"
proof -
  define fb where "fb = (if map_of (bs_zone st) key \<noteq> None \<and> map_of (bs_zone_top1m st) key = None
    then map_of (bs_zone st) key else case map_of (bs_zone_top1m st) key of Some v \<Rightarrow> v | None \<Rightarrow> None)"
  have old: "\<forall>f \<in> snd ` set (bs_zone_top1m st). fallback_ok (bs_next st) f"
    "fst ` set (bs_zone_top1m st) \<subseteq> fst ` set (bs_zone st)"
    using assms(1) by (simp_all add: build_ok_def)
  have fb: "fallback_ok (bs_next st) fb"
  proof -
    have "fallback_ok (bs_next st) f" if "map_of (bs_zone_top1m st) key = Some f" for f
      using bspec [OF old(1) imageI [OF map_of_SomeD [OF that], of snd]] by simp
    moreover have "payload_ok (bs_next st) q" if "map_of (bs_zone st) key = Some q" for q
      using assms(1) map_of_SomeD [OF that] by (fastforce simp: build_ok_def)
    ultimately show ?thesis
      by (cases "map_of (bs_zone st) key"; cases "map_of (bs_zone_top1m st) key")
        (simp_all add: fb_def fallback_ok_def)
  qed
  have 1: "build_ok (st\<lparr>bs_zone := AList.update key p (bs_zone st)\<rparr>)"
    using zone_update_ok [OF assms old(1), of key] old(2) by auto
  have 2: "build_ok (st\<lparr>bs_zone_top1m := AList.delete key (bs_zone_top1m st),
      bs_zone := AList.update key p (bs_zone st)\<rparr>)"
    using old(2) delete_keys [of key "bs_zone_top1m st"]
    by (intro zone_update_ok [OF assms delete_ball [OF old(1)]]) blast
  have 3: "build_ok (st\<lparr>bs_zone_top1m := AList.update key fb (bs_zone_top1m st),
      bs_zone := AList.update key p (bs_zone st)\<rparr>)"
    using old(2) by (intro zone_update_ok [OF assms update_ball [OF old(1) fb]]) auto
  show ?thesis
    unfolding put_zone_def track_zone_top1m_def Let_def fb_def [symmetric] using 1 2 3 by simp
qed

lemma put_data_ok:
  "build_ok st \<Longrightarrow> payload_ok (bs_next st) p \<Longrightarrow> build_ok (put_data env filtered key p st)"
  by (auto simp: build_ok_def put_data_def dest!: update_values [OF imageI [of _ _ snd]])

lemma blacklist_step_ok: "build_ok st \<Longrightarrow> bs_zone_top1m st = [] \<Longrightarrow>
    build_ok (blacklist_step log_flag tld st) \<and> bs_zone_top1m (blacklist_step log_flag tld st) = []"
proof -
  assume st: "build_ok st" "bs_zone_top1m st = []"
  obtain i st' where i: "index_for ''DNSBL_TLD'' ''DNSBL_TLD'' st = (i, st')"
    by (cases "index_for ''DNSBL_TLD'' ''DNSBL_TLD'' st")
  from index_for_ok [OF st(1) i] st show ?thesis
    unfolding blacklist_step_def i
    by (auto simp: build_ok_def payload_ok_def prio_defs dest!: update_values [OF imageI [of _ _ snd]])
qed

lemma permit_insert_ok: "build_ok st \<Longrightarrow> build_ok (permit_insert row d st)"
proof -
  assume st: "build_ok st"
  obtain i st' where i: "index_for (fr_feed row) (fr_group row) st = (i, st')"
    by (cases "index_for (fr_feed row) (fr_group row) st")
  let ?new = "White_dict \<lparr>wr_wildcard = Some True, wr_important = Some False,
    wr_band = Some prio_feed_allow, wr_index = Some i\<rparr>"
  have new: "allow_ok True ?new" by (simp add: allow_ok_def white_entry_band_def prio_defs)
  have ins: "build_ok (st'\<lparr>bs_white := AList.update d ?new (bs_white st'), bs_permit := True\<rparr>)"
    using index_for_ok(1) [OF st i] new allow_ok_mono
    by (auto 0 4 simp: build_ok_def dest!: update_values [OF imageI [of _ _ snd]])
  show ?thesis
    unfolding permit_insert_def i Let_def prod.case
    using ins index_for_ok(1) [OF st i] by (simp split: option.split)
qed

lemma plain_block_ok: "build_ok st \<Longrightarrow> build_ok (plain_block env row d st)"
proof -
  assume st: "build_ok st"
  obtain i st' where i: "index_for (fr_feed row) (fr_group row) st = (i, st')"
    by (cases "index_for (fr_feed row) (fr_group row) st")
  define p where "p = \<lparr>pl_log = fr_log_flag row, pl_index = i, pl_important = False,
    pl_band = (if row_provenance row = User then prio_user_block else prio_feed_block)\<rparr>"
  have p: "payload_ok (bs_next st') p"
    using index_for_ok(2) [OF st i] by (simp add: payload_ok_def prio_defs p_def)
  have p': "payload_ok (bs_next (tally_state f g b st')) p" for f g b
    using p by (simp add: tally_state_def)
  show ?thesis
    unfolding plain_block_def i Let_def prod.case p_def [symmetric]
    using st index_for_ok(1) [OF st i] put_zone_ok [OF _ p] put_data_ok [OF _ p] put_data_ok [OF _ p']
    by (auto split: prod.split)
qed

lemma permit_line_ok: "build_ok st \<Longrightarrow> build_ok (permit_line row raw_line st)"
  by (simp add: permit_line_def Let_def permit_insert_ok split: option.split sum.split)

lemma block_line_ok: "build_ok st \<Longrightarrow> build_ok (block_line env row raw_line st)"
proof -
  assume st: "build_ok st"
  have "build_ok (st\<lparr>bs_rejects := t\<rparr>)" "build_ok (st\<lparr>bs_rejects := t, bs_abp := rs\<rparr>)" for t rs
    using st by (simp_all add: build_ok_def)
  with st show ?thesis
    by (simp add: block_line_def Let_def plain_block_ok split: option.split sum.split prod.split)
qed

interpretation permit: loop_step build_ok "permit_line row"
  by unfold_locales (rule permit_line_ok)

interpretation blocks: loop_step build_ok "block_line env row"
  by unfold_locales (rule block_line_ok)

interpretation blacklist: loop_step "\<lambda>st. build_ok st \<and> bs_zone_top1m st = []" "blacklist_step log_flag"
  by unfold_locales (use blacklist_step_ok in blast)

lemma row_step_ok: "build_ok st \<Longrightarrow> row_step line_reader env row st = Inr st' \<Longrightarrow> build_ok st'"
  using permit.loop [of st row] blocks.loop [of st env row] by (auto simp: row_step_def split: sum.splits if_splits)

lemma rows_loop_ok: "build_ok st \<Longrightarrow> rows_loop line_reader env rows st = Inr st' \<Longrightarrow> build_ok st'"
proof (induction rows arbitrary: st)
  case (Cons row rows)
  then obtain st1 where st1: "row_step line_reader env row st = Inr st1" "rows_loop line_reader env rows st1 = Inr st'"
    by (auto split: sum.splits)
  from Cons.IH [OF row_step_ok [OF Cons.prems(1) st1(1)] st1(2)] show ?case .
qed simp

lemma emit_block_ok:
  assumes "build_ok st" "bd_band b \<in> {1..prio_user_block}"
  shows "build_ok (emit_block env b st)"
proof -
  let ?feed = "or_text (bd_feed b) ''DNSBL''" and ?grp = "or_text (bd_group b) ''DNSBL''"
  have put: "build_ok (let (idx, st) = index_for ?feed ?grp s;
        p = \<lparr>pl_log = or_text (bd_log b) ''0'', pl_index = idx, pl_important = bd_important b, pl_band = bd_band b\<rparr> in
      if cls = Class_zone then put_zone env filtered (bd_key b) p st else put_data env filtered (bd_key b) p st)"
    if s: "build_ok s" for s filtered cls
  proof -
    obtain i s' where i: "index_for ?feed ?grp s = (i, s')" by (cases "index_for ?feed ?grp s")
    define p where "p = \<lparr>pl_log = or_text (bd_log b) ''0'', pl_index = i, pl_important = bd_important b,
      pl_band = bd_band b\<rparr>"
    have "payload_ok (bs_next s') p"
      using index_for_ok(2) [OF s i] assms(2) by (simp add: payload_ok_def p_def)
    with index_for_ok(1) [OF s i] show ?thesis
      unfolding i Let_def prod.case p_def [symmetric] by (simp add: put_zone_ok put_data_ok)
  qed
  show ?thesis
    using assms(1) put unfolding emit_block_def Let_def by simp
qed

lemma emit_allow_ok:
  assumes "\<forall>e \<in> snd ` set white. allow_ok b e" "1 \<le> ad_band a" "ad_band a \<le> prio_user_allow"
    "b \<or> ad_band a = prio_user_allow"
  shows "\<forall>e \<in> snd ` set (emit_allow a white). allow_ok b e"
proof -
  have band: "white_entry_band (white_new w i n) = n" for w i n by (simp add: white_new_def white_entry_band_def)
  have new: "allow_ok b (white_new w i (ad_band a))" for w i
    using assms(2-4) by (simp add: allow_ok_def band)
  then have upd: "\<forall>e \<in> snd ` set (AList.update d (white_new w i (ad_band a)) white). allow_ok b e" for d w i
    by (rule update_ball [OF assms(1)])
  show ?thesis unfolding emit_allow_def Let_def using assms(1) upd by (simp split: option.split del: ball_simps)
qed

lemma reconcile_bands:
  assumes "reconcile rules ex tally = (result, tally')"
  shows "b \<in> set (block_domains result) \<Longrightarrow> bd_band b \<in> {1..prio_user_block}"
    and "a \<in> set (allow_domains result) \<Longrightarrow> ad_band a \<in> {1..prio_user_allow}
      \<and> (important_rules result \<or> ad_band a = prio_user_allow)"
    and "r \<in> set (block_regex_irreducible result) \<Longrightarrow> rx_band r \<in> {1..prio_user_block}"
    and "r \<in> set (allow_regex_irreducible result) \<Longrightarrow>
      important_rules result \<or> rx_provenance r = User"
    and "r \<in> set (block_regex_irreducible result) \<Longrightarrow>
      important_rules result \<or> rx_provenance r = User"
proof -
  let ?s = "survivors_of rules"
  from assms have r: "result = emit_of ex ?s (empty_result\<lparr>skipped_badfilter := length (filter r_badfilter rules),
       pruned := length (filter (\<lambda>r. \<not> r_badfilter r \<and> r_provenance r = Feed \<and> r_signature r \<in> bad_sigs rules) rules)\<rparr>)"
    using reconcile_emit_of [of rules ex tally] by simp
  show "b \<in> set (block_domains result) \<Longrightarrow> bd_band b \<in> {1..prio_user_block}"
    unfolding r by (auto simp: emit_of_def empty_result_def map_filter_mem block_rule_of_def rule_band_values
        prio_defs split: if_splits)
  show "a \<in> set (allow_domains result) \<Longrightarrow> ad_band a \<in> {1..prio_user_allow}
      \<and> (important_rules result \<or> ad_band a = prio_user_allow)"
    unfolding r by (auto simp: emit_of_def empty_result_def map_filter_mem allow_rule_of_def rule_band_values
        prio_defs list_ex_iff engages_def intro: provenance.exhaust split: if_splits)
  show "r \<in> set (block_regex_irreducible result) \<Longrightarrow> rx_band r \<in> {1..prio_user_block}"
    unfolding r by (auto simp: emit_of_def empty_result_def regex_rule_of_def rule_band_values prio_defs)
  show "r \<in> set (allow_regex_irreducible result) \<Longrightarrow> important_rules result \<or> rx_provenance r = User"
    "r \<in> set (block_regex_irreducible result) \<Longrightarrow> important_rules result \<or> rx_provenance r = User"
    unfolding r by (auto simp: emit_of_def empty_result_def regex_rule_of_def list_ex_iff engages_def
        intro: provenance.exhaust)
qed

subsection \<open>The user allows\<close>

lemma white_new_band [simp]: "white_entry_band (white_new w i n) = n"
  by (simp add: white_new_def white_entry_band_def)

definition user_only :: "white_db \<Rightarrow> bool" where
  "user_only white \<longleftrightarrow> (\<forall>e \<in> snd ` set white. white_entry_band e = prio_user_allow)"

lemma user_only_update: "user_only white \<Longrightarrow> white_entry_band e = prio_user_allow \<Longrightarrow> user_only (AList.update d e white)"
  unfolding user_only_def by (rule update_ball)

lemma user_only_get: "user_only white \<Longrightarrow> map_of white d = Some e \<Longrightarrow> white_entry_band e = prio_user_allow"
  by (force simp: user_only_def dest: map_of_SomeD)

lemma widen_band: "white_entry_band (white_widen_entry a b) = max (white_entry_band a) (white_entry_band b)"
  by (simp add: white_widen_entry_def)

lemma whitelist_step_user: "user_only (fst st) \<Longrightarrow> user_only (fst (whitelist_step source raw st))"
  by (auto simp: whitelist_step_def Let_def widen_band user_only_get intro!: user_only_update
      split: prod.split sum.split option.split)

interpretation whitelist: loop_step "\<lambda>st. user_only (fst st)" "whitelist_step source"
  by unfold_locales (rule whitelist_step_user)

lemma normalise_whitelist_user: "user_only (fst (dnsbl_normalise_whitelist lines tally source))"
  unfolding dnsbl_normalise_whitelist_def by (rule whitelist.loop) (simp add: user_only_def)

lemma unlock_fold_user: "user_only white \<Longrightarrow> user_only unlock \<Longrightarrow> user_only (fold unlock_step unlock white)"
proof (induction unlock arbitrary: white)
  case (Cons x unlock)
  obtain d e where x: "x = (d, e)" by (cases x)
  have e: "white_entry_band e = prio_user_allow" using Cons.prems(2) by (simp add: user_only_def x)
  have "user_only (unlock_step x white)"
  proof (cases "map_of white d")
    case None
    then show ?thesis using user_only_update [OF Cons.prems(1) e] by (simp add: unlock_step_def x)
  next
    case (Some f)
    have "white_entry_band (white_widen_entry f e) = prio_user_allow"
      using user_only_get [OF Cons.prems(1) Some] e by (simp add: widen_band)
    from user_only_update [OF Cons.prems(1) this] Some show ?thesis by (simp add: unlock_step_def x)
  qed
  moreover have "user_only unlock" using Cons.prems(2) by (simp add: user_only_def)
  ultimately show ?case using Cons.IH [of "unlock_step x white"] by simp
qed simp

lemma user_allows_user: "user_only (fst (user_allows config))"
  using normalise_whitelist_user unlock_fold_user
  by (auto simp: user_allows_def Let_def split: prod.split) (metis fst_conv)

subsection \<open>The zones of the result\<close>

definition zone_ok :: "nat \<Rightarrow> zone_payload \<Rightarrow> bool" where
  "zone_ok n e \<longleftrightarrow> payload_ok n e \<and> fallback_ok n (z_fallback e)"

lemma finalise_ok:
  assumes "fst ` set zt \<subseteq> fst ` set zone" "\<forall>f \<in> snd ` set zt. fallback_ok n f"
    "\<forall>e \<in> snd ` set zone. zone_ok n e"
  shows "\<exists>zone'. finalise_zones top1m zt zone = Inr zone' \<and> (\<forall>e \<in> snd ` set zone'. zone_ok n e)
    \<and> fst ` set zone' = fst ` set zone"
  using assms
proof (induction zt arbitrary: zone)
  case (Cons x zt)
  obtain k f where x: "x = (k, f)" by (cases x)
  with Cons.prems(1) obtain e where e: "map_of zone k = Some e"
    by (cases "map_of zone k") (auto simp: map_of_eq_None_iff)
  let ?e = "e\<lparr>z_top1m := Some top1m, z_fallback := (if f \<noteq> None then f else z_fallback e)\<rparr>"
  have "zone_ok n e" using bspec [OF Cons.prems(3) imageI [OF map_of_SomeD [OF e]]] by simp
  then have "zone_ok n ?e"
    using Cons.prems(2) by (simp add: x zone_ok_def payload_ok_def)
  note upd = update_ball [OF Cons.prems(3) this, of k]
  have keys: "fst ` set (AList.update k ?e zone) = fst ` set zone"
    using imageI [OF map_of_SomeD [OF e], of fst] by (simp add: insert_absorb)
  have pre: "fst ` set zt \<subseteq> fst ` set (AList.update k ?e zone)" "\<forall>f \<in> snd ` set zt. fallback_ok n f"
    using Cons.prems(1,2) unfolding keys by (simp_all add: x)
  show ?case
    using Cons.IH [OF pre upd] unfolding keys by (simp add: x e)
qed simp

subsection \<open>The emitted stream\<close>

lemma compiled_bands:
  assumes "dnsbl_compile_regex_rules E rules cap d = Inr (db, n, d')" "(k, p) \<in> set db"
  shows "\<exists>r \<in> set rules. re_band p = rx_band r"
proof -
  from compile_rules_value [of E rules cap d] assms(1)
  have m: "map snd db = List.map_filter (accepted_payload E cap) rules" by auto
  have "p \<in> set (map snd db)" using assms(2) by force
  then obtain r where "r \<in> set rules" "accepted_payload E cap r = Some p" unfolding m map_filter_mem by blast
  then show ?thesis by (auto simp: accepted_payload_def split: sum.splits)
qed

lemma compile_nil: "dnsbl_compile_regex_rules E [] cap d = Inr (db, n, d') \<Longrightarrow> db = []"
  using compile_rules_value [of E "[]" cap d] by (auto simp: map_filter_simps)

lemma compile_lists_value:
  obtains compd d' where "compile_lists E cap result d = Inr (compd, d')"
    "\<forall>(k, p) \<in> set (cl_regex compd @ cl_user_regex compd). \<exists>r \<in> set (block_regex_irreducible result). re_band p = rx_band r"
    "filter (\<lambda>r. rx_provenance r \<noteq> User) (allow_regex_irreducible result) = [] \<Longrightarrow> cl_allow_regex compd = []"
    "filter (\<lambda>r. rx_provenance r \<noteq> User) (block_regex_irreducible result) = [] \<Longrightarrow> cl_regex compd = []"
    "list_all (\<lambda>db. distinct (map fst db)) [cl_regex compd, cl_allow_regex compd, cl_user_regex compd, cl_user_allow_regex compd]"
proof -
  let ?f = "filter (\<lambda>r. rx_provenance r \<noteq> User)" and ?u = "filter (\<lambda>r. rx_provenance r = User)"
  obtain fb n1 d1 where 1: "dnsbl_compile_regex_rules E (?f (block_regex_irreducible result)) cap d = Inr (fb, n1, d1)" "distinct (map fst fb)"
    using compile_rules_value by blast
  obtain fa n2 d2 where 2: "dnsbl_compile_regex_rules E (?f (allow_regex_irreducible result)) cap d1 = Inr (fa, n2, d2)" "distinct (map fst fa)"
    using compile_rules_value by blast
  obtain ub n3 d3 where 3: "dnsbl_compile_regex_rules E (?u (block_regex_irreducible result)) cap d2 = Inr (ub, n3, d3)" "distinct (map fst ub)"
    using compile_rules_value by blast
  obtain ua n4 d4 where 4: "dnsbl_compile_regex_rules E (?u (allow_regex_irreducible result)) cap d3 = Inr (ua, n4, d4)" "distinct (map fst ua)"
    using compile_rules_value by blast
  let ?c = "\<lparr>cl_regex = fb, cl_allow_regex = fa, cl_user_regex = ub, cl_user_allow_regex = ua,
    cl_count = n1 + n2 + n3 + n4\<rparr>"
  have "compile_lists E cap result d = Inr (?c, d4)" by (simp add: compile_lists_def Let_def 1(1) 2(1) 3(1) 4(1))
  moreover have "\<forall>(k, p) \<in> set (cl_regex ?c @ cl_user_regex ?c). \<exists>r \<in> set (block_regex_irreducible result).
      re_band p = rx_band r"
    using compiled_bands [OF 1(1)] compiled_bands [OF 3(1)] by fastforce
  moreover have "?f (allow_regex_irreducible result) = [] \<Longrightarrow> cl_allow_regex ?c = []"
    using 2(1) compile_nil by simp
  moreover have "?f (block_regex_irreducible result) = [] \<Longrightarrow> cl_regex ?c = []"
    using 1(1) compile_nil by simp
  moreover have "list_all (\<lambda>db. distinct (map fst db)) [cl_regex ?c, cl_allow_regex ?c, cl_user_regex ?c, cl_user_allow_regex ?c]"
    using 1(2) 2(2) 3(2) 4(2) by simp
  ultimately show thesis by (rule that)
qed

lemma emit_block_permit [simp]: "bs_permit (emit_block env b st) = bs_permit st"
proof -
  have i: "bs_permit (snd (index_for f g s)) = bs_permit s" for f g s
    by (simp add: index_for_def Let_def split: option.split)
  have p: "bs_permit (put_zone env fl k p s) = bs_permit s" "bs_permit (put_data env fl k p s) = bs_permit s"
    "bs_permit (tally_state f g bk s) = bs_permit s" for fl k p s f g bk
    by (simp_all add: put_zone_def put_data_def tally_state_def track_zone_top1m_def Let_def)
  show ?thesis
    unfolding emit_block_def Let_def by (simp add: p split_beta i)
qed

lemma emit_blocks_ok:
  "build_ok st \<Longrightarrow> \<forall>b \<in> set bs. bd_band b \<in> {1..prio_user_block} \<Longrightarrow>
    build_ok (fold (emit_block env) bs st) \<and> bs_permit (fold (emit_block env) bs st) = bs_permit st"
  by (induction bs arbitrary: st) (simp_all add: emit_block_ok del: atLeastAtMost_iff)

lemma emit_allows_ok:
  "\<forall>e \<in> snd ` set white. allow_ok b e \<Longrightarrow>
    \<forall>a \<in> set as. ad_band a \<in> {1..prio_user_allow} \<and> (b \<or> ad_band a = prio_user_allow) \<Longrightarrow>
    \<forall>e \<in> snd ` set (fold emit_allow as white). allow_ok b e"
proof (induction as arbitrary: white)
  case (Cons a as)
  from Cons.IH [OF emit_allow_ok [OF Cons.prems(1), of a]] Cons.prems(2) show ?case by simp
qed simp

lemma emit_stream_ok:
  assumes "build_ok st"
  obtains st' compd imp d' where "emit_stream E env cap st d = Inr ((st', compd, imp), d')"
    "build_ok (st'\<lparr>bs_permit := imp\<rparr>)"
    "\<forall>(k, p) \<in> set (cl_regex compd @ cl_user_regex compd). re_band p \<in> {1..prio_user_block}"
    "imp \<or> cl_allow_regex compd = [] \<and> cl_user_allow_regex compd = [] \<and> cl_user_regex compd = [] \<and> cl_regex compd = []"
    "list_all (\<lambda>db. distinct (map fst db)) [cl_regex compd, cl_allow_regex compd, cl_user_regex compd, cl_user_allow_regex compd]"
proof (cases "bs_abp st = []")
  case True
  have "build_ok (st\<lparr>bs_permit := bs_permit st\<rparr>)" using assms by simp
  with True show thesis
    by (intro that [of st no_lists "bs_permit st" d]) (simp_all add: emit_stream_def no_lists_def)
next
  case False
  obtain result tally where r: "reconcile (bs_abp st) (set (be_exclusion env)) (Some (bs_rejects st)) = (result, tally)"
    by (cases "reconcile (bs_abp st) (set (be_exclusion env)) (Some (bs_rejects st))")
  define st1 where "st1 = st\<lparr>bs_rejects := (case tally of Some t \<Rightarrow> t | None \<Rightarrow> bs_rejects st)\<rparr>"
  define st2 where "st2 = fold (emit_block env) (block_domains result) st1"
  define white where "white = fold emit_allow (allow_domains result) (bs_white st2)"
  obtain compd d' where c: "compile_lists E cap result d = Inr (compd, d')"
    "\<forall>(k, p) \<in> set (cl_regex compd @ cl_user_regex compd). \<exists>r \<in> set (block_regex_irreducible result). re_band p = rx_band r"
    "filter (\<lambda>r. rx_provenance r \<noteq> User) (allow_regex_irreducible result) = [] \<Longrightarrow> cl_allow_regex compd = []"
    "filter (\<lambda>r. rx_provenance r \<noteq> User) (block_regex_irreducible result) = [] \<Longrightarrow> cl_regex compd = []"
    "list_all (\<lambda>db. distinct (map fst db)) [cl_regex compd, cl_allow_regex compd, cl_user_regex compd, cl_user_allow_regex compd]"
    using compile_lists_value [of E cap result d] by blast
  let ?imp = "bs_permit st2 \<or> important_rules result \<or> cl_user_regex compd \<noteq> [] \<or> cl_user_allow_regex compd \<noteq> []"
  have "build_ok st1" using assms by (simp add: build_ok_def st1_def)
  then have st2: "build_ok st2" unfolding st2_def using emit_blocks_ok reconcile_bands(1) [OF r] by blast
  have "\<forall>e \<in> snd ` set white. allow_ok ?imp e"
    unfolding white_def
  proof (rule emit_allows_ok)
    show "\<forall>e \<in> snd ` set (bs_white st2). allow_ok ?imp e"
      using st2 unfolding build_ok_def allow_ok_def by blast
    show "\<forall>a \<in> set (allow_domains result). ad_band a \<in> {1..prio_user_allow} \<and> (?imp \<or> ad_band a = prio_user_allow)"
      using reconcile_bands(2) [OF r] by blast
  qed
  then have ok: "build_ok (st2\<lparr>bs_white := white, bs_permit := ?imp\<rparr>)"
    using st2 by (simp add: build_ok_def)
  have allow: "?imp \<or> cl_allow_regex compd = [] \<and> cl_user_allow_regex compd = [] \<and> cl_user_regex compd = [] \<and> cl_regex compd = []"
    using c(3,4) reconcile_bands(4,5) [OF r] by (auto simp: filter_empty_conv)
  have eq: "emit_stream E env cap st d = Inr ((st2\<lparr>bs_white := white\<rparr>, compd, ?imp), d')"
    using False c(1) unfolding emit_stream_def r Let_def prod.case st1_def [symmetric] st2_def [symmetric]
      white_def [symmetric] by simp
  have bands: "\<forall>(k, p) \<in> set (cl_regex compd @ cl_user_regex compd). re_band p \<in> {1..prio_user_block}"
    using c(2) reconcile_bands(3) [OF r] by (fastforce simp del: atLeastAtMost_iff)
  have "build_ok (st2\<lparr>bs_white := white\<rparr>\<lparr>bs_permit := ?imp\<rparr>)" using ok by simp
  from that [OF eq this bands allow c(5)] show thesis .
qed

subsection \<open>What build returns\<close>

definition result_ok :: "BuildResult \<Rightarrow> bool" where
  "result_ok r \<longleftrightarrow> (\<exists>n. (\<forall>i. map_of (br_feed_group_index r) i \<noteq> None \<longleftrightarrow> i < n)
       \<and> (\<forall>p \<in> snd ` set (br_data r). payload_ok n p) \<and> (\<forall>e \<in> snd ` set (br_zone r). zone_ok n e))
     \<and> (\<forall>e \<in> snd ` set (br_white r). allow_ok (br_important_rules r) e)
     \<and> (\<forall>(k, p) \<in> set (br_regex r @ br_user_regex r). re_band p \<in> {1..prio_user_block})
     \<and> (br_important_rules r \<or> br_allow_regex r = [] \<and> br_user_allow_regex r = [] \<and> br_user_regex r = [] \<and> br_regex r = [])
     \<and> br_counts r = length (br_data r) + length (br_zone r)
     \<and> list_all (\<lambda>db. distinct (map fst db)) [br_regex r, br_allow_regex r, br_user_regex r, br_user_allow_regex r]"

definition build_start :: "build_env \<Rightarrow> build_config \<Rightarrow> build_state" where
  "build_start env config =
    (fold (blacklist_step (dict_get (bc_builtin_log_flag config) ''0'')) (sort (be_blacklist env))
      \<lparr>bs_data = [], bs_zone = [], bs_zone_top1m = [], bs_index = [], bs_feed_group = [],
        bs_next = 0, bs_white = [], bs_rejects = [], bs_abp = [], bs_permit = False\<rparr>)
     \<lparr>bs_white := fst (user_allows config), bs_rejects := snd (user_allows config)\<rparr>"

lemma build_start_ok: "build_ok (build_start env config)"
proof -
  let ?s0 = "\<lparr>bs_data = [], bs_zone = [], bs_zone_top1m = [], bs_index = [], bs_feed_group = [],
    bs_next = 0, bs_white = [], bs_rejects = [], bs_abp = [], bs_permit = False\<rparr>"
  have "build_ok ?s0" by (simp add: build_ok_def)
  then have "build_ok (fold (blacklist_step (dict_get (bc_builtin_log_flag config) ''0'')) (sort (be_blacklist env)) ?s0)"
    using blacklist.loop [of ?s0] by simp
  then show ?thesis
    unfolding build_start_def using user_allows_user [of config]
    by (auto simp: build_ok_def user_only_def allow_ok_def prio_defs)
qed

lemma build_after_rows:
  assumes "rows_loop line_reader (build_env_of U feeds config en ls) feeds
      (build_start (build_env_of U feeds config en ls) config) = Inr s3"
  shows "\<exists>r d'. build U E feeds config line_reader en ls d = Inr (r, d') \<and> result_ok r"
proof -
  let ?env = "build_env_of U feeds config en ls" and ?flag = "dict_get (bc_builtin_log_flag config) ''0''"
  obtain white rejects where ua: "user_allows config = (white, rejects)" by (cases "user_allows config")
  have "build_ok s3" using rows_loop_ok [OF _ assms] build_start_ok by blast
  then obtain s4 compd imp d' where e: "emit_stream E ?env (dict_get (bc_regex_cap config) False) s3 d
      = Inr ((s4, compd, imp), d')" "build_ok (s4\<lparr>bs_permit := imp\<rparr>)"
    "\<forall>(k, p) \<in> set (cl_regex compd @ cl_user_regex compd). re_band p \<in> {1..prio_user_block}"
    "imp \<or> cl_allow_regex compd = [] \<and> cl_user_allow_regex compd = [] \<and> cl_user_regex compd = [] \<and> cl_regex compd = []"
    "list_all (\<lambda>db. distinct (map fst db)) [cl_regex compd, cl_allow_regex compd, cl_user_regex compd, cl_user_allow_regex compd]"
    by (rule emit_stream_ok)
  let ?zone = "map (\<lambda>(k, p). (k, plain_zone p)) (bs_zone s4)"
  have "fst ` set ?zone = fst ` set (bs_zone s4)" by (simp add: image_image split_beta)
  then have k: "fst ` set (bs_zone_top1m s4) \<subseteq> fst ` set ?zone"
    using e(2) by (simp add: build_ok_def)
  have f: "\<forall>f \<in> snd ` set (bs_zone_top1m s4). fallback_ok (bs_next s4) f"
    using e(2) by (simp add: build_ok_def)
  have z: "\<forall>e \<in> snd ` set ?zone. zone_ok (bs_next s4) e"
  proof -
    have "payload_ok n p \<Longrightarrow> zone_ok n (plain_zone p)" for n p
      by (simp add: zone_ok_def plain_zone_def payload_ok_def fallback_ok_def payload.extend_def)
    moreover have "\<forall>p \<in> snd ` set (bs_zone s4). payload_ok (bs_next s4) p" using e(2) by (simp add: build_ok_def)
    ultimately show ?thesis by fastforce
  qed
  from finalise_ok [OF k f z, of "be_top1m ?env"] obtain zone where
    zone: "finalise_zones (be_top1m ?env) (bs_zone_top1m s4) ?zone = Inr zone"
      "\<forall>e \<in> snd ` set zone. zone_ok (bs_next s4) e" by blast
  let ?r = "\<lparr>br_data = bs_data s4, br_zone = zone, br_feed_group_index = bs_index s4, br_white = bs_white s4,
    br_counts = length (bs_data s4) + length zone, br_regex = cl_regex compd, br_allow_regex = cl_allow_regex compd,
    br_user_regex = cl_user_regex compd, br_user_allow_regex = cl_user_allow_regex compd,
    br_important_rules = imp, br_regex_count = cl_count compd, br_rejects = bs_rejects s4,
    br_psl_rules = be_psl ?env, br_builtin_log_flag = ?flag\<rparr>"
  have "build U E feeds config line_reader en ls d = Inr (?r, d')"
    using assms by (simp add: build_def Let_def build_start_def ua e(1) zone(1))
  moreover have "result_ok ?r"
    unfolding result_ok_def BuildResult.simps
    using e(2-5) zone(2) by (intro conjI exI [of _ "bs_next s4"]) (simp_all add: build_ok_def)
  ultimately show ?thesis by blast
qed

lemma build_value:
  assumes "\<And>st. \<exists>st'. rows_loop line_reader (build_env_of U feeds config en ls) feeds st = Inr st'"
  shows "\<exists>r d'. build U E feeds config line_reader en ls d = Inr (r, d') \<and> result_ok r"
  using assms [of "build_start (build_env_of U feeds config en ls) config"] build_after_rows by blast

lemma build_returned_ok:
  assumes "build U E feeds config line_reader en ls d = Inr (r, d')"
  shows "result_ok r"
proof (cases "rows_loop line_reader (build_env_of U feeds config en ls) feeds
    (build_start (build_env_of U feeds config en ls) config)")
  case (Inl e)
  then show ?thesis using assms by (simp add: build_def Let_def build_start_def split: prod.splits)
next
  case (Inr s3)
  then show ?thesis using build_after_rows [OF Inr, of E d] assms by auto
qed

end
