(* ===== verification/BuildPolicy.thy ===== *)
theory BuildPolicy
  imports Build
begin

text \<open>
  What \<open>build\<close> guarantees: it fails only with its reader, its structures are well formed, the TOP1M
  filter and the suffix policy hold of everything the rows write.  The last two are instances of
  one argument, the locale \<open>emission\<close>.
\<close>

subsection \<open>What the rows may write\<close>

text \<open>An invariant of the blocks alone that every admissible write keeps.  \<open>row_is\<close> says of a rule,
  by its provenance and its TOP1M mark, that a row could have produced it.\<close>

lemma index_for_frame:
  "bs_data (snd (index_for f g s)) = bs_data s" "bs_zone (snd (index_for f g s)) = bs_zone s"
  "bs_zone_top1m (snd (index_for f g s)) = bs_zone_top1m s" "bs_abp (snd (index_for f g s)) = bs_abp s"
  by (simp_all add: index_for_def Let_def split: option.split)

lemma put_abp [simp]:
  "bs_abp (put_zone env fl k p s) = bs_abp s" "bs_abp (put_data env fl k p s) = bs_abp s"
  "bs_abp (tally_state f g b s) = bs_abp s"
  by (simp_all add: put_zone_def put_data_def tally_state_def track_zone_top1m_def Let_def)

locale emission =
  fixes env :: build_env and inv :: "build_state \<Rightarrow> bool" and row_is :: "provenance \<Rightarrow> bool \<Rightarrow> bool"
  assumes frame: "inv st \<Longrightarrow> bs_data st' = bs_data st \<Longrightarrow> bs_zone st' = bs_zone st
      \<Longrightarrow> bs_zone_top1m st' = bs_zone_top1m st \<Longrightarrow> inv st'"
    and data: "inv st \<Longrightarrow> row_is prov fl \<Longrightarrow> feed_policy env prov k \<noteq> Some ''ignore'' \<Longrightarrow> inv (put_data env fl k p st)"
    and zone: "inv st \<Longrightarrow> row_is prov fl \<Longrightarrow> feed_policy env prov k \<noteq> Some ''ignore''
      \<Longrightarrow> feed_policy env prov k \<noteq> Some ''apex'' \<Longrightarrow> inv (put_zone env fl k p st)"
    and start: "bs_data st = [] \<Longrightarrow> bs_zone st = [] \<Longrightarrow> bs_zone_top1m st = [] \<Longrightarrow> inv st"
begin

definition rules_from_rows :: "build_state \<Rightarrow> bool" where
  "rules_from_rows st \<longleftrightarrow>
     (\<forall>r \<in> set (bs_abp st). row_is (r_provenance r) ((r_feed r, r_group r) \<in> set (be_top1m_rows env)))"

definition both :: "build_state \<Rightarrow> bool" where
  "both st \<longleftrightarrow> inv st \<and> rules_from_rows st"

lemma index: "inv st \<Longrightarrow> inv (snd (index_for f g st))"
  by (erule frame) (simp_all add: index_for_frame)

lemma tally: "inv st \<Longrightarrow> inv (tally_state f g b st)"
  by (erule frame) (simp_all add: tally_state_def)

lemma classified_key: "snd (tld_wildcard_classify U d rules ex pv bl) = d"
  by (simp add: tld_wildcard_classify_def Let_def split: sum.split)

lemma plain:
  assumes "inv st" "row_is (row_provenance row) (row_filtered env row)"
  shows "inv (plain_block env row d st)"
proof -
  obtain i st' where i: "index_for (fr_feed row) (fr_group row) st = (i, st')"
    by (cases "index_for (fr_feed row) (fr_group row) st")
  have st': "inv st'" using index [OF assms(1), of "fr_feed row" "fr_group row"] by (simp add: i)
  obtain cls where c: "tld_wildcard_classify (be_unicode env) d (be_class_psl env) (set (be_exclusion env))
      (be_include_private env) (set (be_blacklist env)) = (cls, d)"
    using classified_key by (metis prod.collapse)
  show ?thesis
    unfolding plain_block_def Let_def i c prod.case
    using assms st' by (auto intro!: tally data zone)
qed

lemma line:
  assumes "both st" "row_is (row_provenance row) (row_filtered env row)"
  shows "both (block_line env row raw st)"
proof -
  have a: "bs_abp (plain_block env row d st) = bs_abp st" for d
    by (simp add: plain_block_def Let_def split_beta index_for_frame)
  obtain rule t where pa: "parse_abp (strip raw) (row_provenance row) (fr_feed row) (fr_group row)
      (fr_log_flag row) (Some (bs_rejects st)) = (rule, t)"
    by (cases "parse_abp (strip raw) (row_provenance row) (fr_feed row) (fr_group row)
      (fr_log_flag row) (Some (bs_rejects st))")
  have inv': "inv (st\<lparr>bs_rejects := x\<rparr>)" "inv (st\<lparr>bs_rejects := x, bs_abp := y\<rparr>)" for x y
    using assms(1) by (auto simp: both_def intro: frame [of st])
  have rule_rows: "row_is (r_provenance r) ((r_feed r, r_group r) \<in> set (be_top1m_rows env))" if "rule = Some r" for r
    using parse_abp_rule [of "strip raw" "row_provenance row" "fr_feed row" "fr_group row" "fr_log_flag row"] pa
      that assms(2) by (auto simp: rule_from_def row_filtered_def)
  show ?thesis
    using assms plain [OF _ assms(2), of st] inv' rule_rows
    unfolding block_line_def Let_def pa prod.case both_def rules_from_rows_def
    by (auto simp: a tally split: option.split sum.split)
qed

lemma permit: "both st \<Longrightarrow> both (permit_line row raw st)"
proof -
  assume st: "both st"
  have f: "bs_data (permit_line row raw st) = bs_data st" "bs_zone (permit_line row raw st) = bs_zone st"
    "bs_zone_top1m (permit_line row raw st) = bs_zone_top1m st" "bs_abp (permit_line row raw st) = bs_abp st"
    by (simp_all add: permit_line_def permit_insert_def tally_state_def Let_def split_beta index_for_frame
        split: option.split sum.split)
  with st frame [of st] show ?thesis by (simp add: both_def rules_from_rows_def)
qed

lemma rows:
  assumes "\<forall>row \<in> set rows. row_is (row_provenance row) (row_filtered env row)"
  shows "both st \<Longrightarrow> rows_loop line_reader env rows st = Inr st' \<Longrightarrow> both st'"
  using assms
proof (induction rows arbitrary: st)
  case (Cons row rows)
  have b: "both s \<Longrightarrow> both (fold (block_line env row) ls s)" for ls s
    using Cons.prems(3) by (induction ls arbitrary: s) (simp_all add: line)
  have p: "both s \<Longrightarrow> both (fold (permit_line row) ls s)" for ls s
    by (induction ls arbitrary: s) (simp_all add: permit)
  obtain s1 where s1: "row_step line_reader env row st = Inr s1" "rows_loop line_reader env rows s1 = Inr st'"
    using Cons.prems(2) by (auto split: sum.splits)
  then have "both s1" using b p Cons.prems(1) by (auto simp: row_step_def split: sum.splits if_splits)
  from Cons.IH [OF this s1(2)] Cons.prems(3) show ?case by simp
qed simp

lemma emit:
  assumes "inv st" "row_is (bd_provenance b) ((bd_feed b, bd_group b) \<in> set (be_top1m_rows env))"
  shows "inv (emit_block env b st)"
proof -
  let ?feed = "or_text (bd_feed b) ''DNSBL''" and ?grp = "or_text (bd_group b) ''DNSBL''"
  have i: "inv s \<Longrightarrow> inv (snd (index_for ?feed ?grp s))" for s by (rule index)
  show ?thesis
    unfolding emit_block_def Let_def split_beta
    using assms i [OF assms(1)] i [OF tally [OF assms(1)]] by (auto intro!: data zone tally)
qed

lemma emits:
  "inv st \<Longrightarrow> \<forall>b \<in> set bs. row_is (bd_provenance b) ((bd_feed b, bd_group b) \<in> set (be_top1m_rows env))
    \<Longrightarrow> inv (fold (emit_block env) bs st)"
  by (induction bs arbitrary: st) (simp_all add: emit)

lemma stream:
  assumes "both st" "emit_stream E env cap st d = Inr ((st', compd, imp), d')"
  shows "inv st'"
proof (cases "bs_abp st = []")
  case True
  with assms show ?thesis by (simp add: emit_stream_def both_def)
next
  case False
  obtain result tl where r: "reconcile (bs_abp st) (set (be_exclusion env)) (Some (bs_rejects st)) = (result, tl)"
    by (cases "reconcile (bs_abp st) (set (be_exclusion env)) (Some (bs_rejects st))")
  define st1 where "st1 = st\<lparr>bs_rejects := (case tl of Some t \<Rightarrow> t | None \<Rightarrow> bs_rejects st)\<rparr>"
  have "inv st1" using assms(1) frame [of st st1] by (simp add: both_def st1_def)
  moreover have "\<forall>b \<in> set (block_domains result).
      row_is (bd_provenance b) ((bd_feed b, bd_group b) \<in> set (be_top1m_rows env))"
    using assms(1) reconcile_emit_of [of "bs_abp st" "set (be_exclusion env)" "Some (bs_rejects st)"]
    by (auto simp: r both_def rules_from_rows_def emit_of_def empty_result_def map_filter_mem block_rule_of_def
        survivors_of_def split: if_splits)
  ultimately have inv2: "inv (fold (emit_block env) (block_domains result) st1)"
    by (rule emits)
  obtain compd' d2 where c: "compile_lists E cap result d = Inr (compd', d2)"
    using compile_lists_value [of E cap result d] by blast
  have "st' = (fold (emit_block env) (block_domains result) st1)
      \<lparr>bs_white := fold emit_allow (allow_domains result) (bs_white (fold (emit_block env) (block_domains result) st1))\<rparr>"
    using False assms(2) unfolding emit_stream_def r Let_def prod.case st1_def [symmetric] by (simp add: c)
  with frame [OF inv2, of st'] show ?thesis by simp
qed

lemma build_inv:
  assumes "build U E feeds config line_reader en ls d = Inr (r, d')"
    and env: "env = build_env_of U feeds config en ls" and bl: "be_blacklist env = []"
    and marks: "\<forall>row \<in> set feeds. row_is (row_provenance row) (row_filtered env row)"
  obtains st where "inv st" "br_data r = bs_data st"
    "finalise_zones (be_top1m env) (bs_zone_top1m st) (map (\<lambda>(k, p). (k, plain_zone p)) (bs_zone st)) = Inr (br_zone r)"
proof -
  obtain white rejects where ua: "user_allows config = (white, rejects)" by (cases "user_allows config")
  define s2 where "s2 = \<lparr>bs_data = [], bs_zone = [], bs_zone_top1m = [], bs_index = [], bs_feed_group = [],
    bs_next = 0, bs_white = white, bs_rejects = rejects, bs_abp = [], bs_permit = False\<rparr>"
  have s2: "both s2" using start [of s2] by (simp add: both_def rules_from_rows_def s2_def)
  from assms(1) obtain s3 s4 compd imp d2 zone where s3: "rows_loop line_reader env feeds s2 = Inr s3"
    and s4: "emit_stream E env (dict_get (bc_regex_cap config) False) s3 d = Inr ((s4, compd, imp), d2)"
    and z: "finalise_zones (be_top1m env) (bs_zone_top1m s4) (map (\<lambda>(k, p). (k, plain_zone p)) (bs_zone s4)) = Inr zone"
      "br_data r = bs_data s4" "br_zone r = zone"
    unfolding build_def Let_def env [symmetric] bl ua prod.case
    by (auto simp: s2_def split: sum.splits prod.splits)
  have "both s3" by (rule rows [OF marks s2 s3])
  then have "inv s4" using s4 by (rule stream)
  from that [of s4] this z show thesis by simp
qed

end

text \<open>Two rows of one policy: TOP1M-filtered rows, and feed rows under the suffix policy.\<close>

lemma update_none: "\<forall>f \<in> snd ` set zt. f = None \<Longrightarrow> \<forall>f \<in> snd ` set (AList.update k None zt). f = None"
  by (rule update_ball) simp_all

interpretation filtered: emission env
  "\<lambda>st. (\<forall>k \<in> fst ` set (bs_data st). \<not> top1m_listed k (be_top1m env))
     \<and> fst ` set (bs_zone st) \<subseteq> fst ` set (bs_zone_top1m st) \<and> (\<forall>f \<in> snd ` set (bs_zone_top1m st). f = None)"
  "\<lambda>prov fl. fl \<and> be_top1m_rows env \<noteq> []"
proof (unfold_locales, goal_cases)
  case (3 st prov fl k p)
  let ?fb = "if map_of (bs_zone st) k \<noteq> None \<and> map_of (bs_zone_top1m st) k = None then map_of (bs_zone st) k
    else case map_of (bs_zone_top1m st) k of Some v \<Rightarrow> v | None \<Rightarrow> None"
  have "map_of (bs_zone st) k \<noteq> None \<Longrightarrow> map_of (bs_zone_top1m st) k \<noteq> None"
    using 3(1) by (auto simp: map_of_eq_None_iff)
  moreover have "map_of (bs_zone_top1m st) k = Some v \<Longrightarrow> v = None" for v
    using 3(1) map_of_SomeD by force
  ultimately have fb: "?fb = None" by (auto split: option.split)
  have "put_zone env fl k p st = st\<lparr>bs_zone_top1m := AList.update k ?fb (bs_zone_top1m st),
      bs_zone := AList.update k p (bs_zone st)\<rparr>"
    using 3(2) by (simp add: put_zone_def track_zone_top1m_def Let_def)
  with 3(1) update_none [of "bs_zone_top1m st" k] show ?case
    unfolding fb by (simp del: ball_simps) blast
qed (simp add: put_data_def del: ball_simps; blast)+

interpretation suffixes: emission env
  "\<lambda>st. (\<forall>k \<in> fst ` set (bs_data st). feed_policy env Feed k \<noteq> Some ''ignore'')
     \<and> (\<forall>k \<in> fst ` set (bs_zone st). feed_policy env Feed k \<noteq> Some ''ignore'' \<and> feed_policy env Feed k \<noteq> Some ''apex'')"
  "\<lambda>prov fl. prov = Feed"
  by unfold_locales
    (simp add: put_data_def put_zone_def track_zone_top1m_def Let_def del: ball_simps; blast)+

lemma finalise_get:
  "finalise_zones top1m zt zone = Inr zone' \<Longrightarrow> \<forall>f \<in> snd ` set zt. f = None \<Longrightarrow>
    map_of zone' k = map_option (\<lambda>e. if k \<in> fst ` set zt then e\<lparr>z_top1m := Some top1m\<rparr> else e) (map_of zone k)"
proof (induction zt arbitrary: zone)
  case Nil
  then show ?case by (simp add: option.map_ident)
next
  case (Cons x zt)
  obtain j where x: "x = (j, None)" using Cons.prems(2) by (cases x) auto
  from Cons.prems(1) obtain e where e: "map_of zone j = Some e"
    "finalise_zones top1m zt (AList.update j (e\<lparr>z_top1m := Some top1m\<rparr>) zone) = Inr zone'"
    by (auto simp: x split: option.splits)
  from Cons.IH [OF e(2)] Cons.prems(2) e(1) show ?case
    by (auto simp: x update_conv' option.map_comp comp_def)
qed

lemma finalise_none:
  "finalise_zones top1m zt zone = Inr zone' \<Longrightarrow> map_of zone k = None \<Longrightarrow> map_of zone' k = None"
proof (induction zt arbitrary: zone)
  case (Cons x zt)
  obtain j f where x: "x = (j, f)" by (cases x)
  from Cons.prems(1) obtain e where e: "map_of zone j = Some e"
    "finalise_zones top1m zt (AList.update j (e\<lparr>z_top1m := Some top1m,
       z_fallback := (if f \<noteq> None then f else z_fallback e)\<rparr>) zone) = Inr zone'"
    by (auto simp: x simp del: not_None_eq split: option.splits)
  have "k \<noteq> j" using Cons.prems(2) e(1) by auto
  with Cons.IH [OF e(2)] Cons.prems(2) show ?case by (simp add: update_conv' del: not_None_eq)
qed simp

lemma rows_loop_value:
  "case find (\<lambda>row. isl (line_reader (fr_raw row))) rows of
     Some row \<Rightarrow> rows_loop line_reader env rows st = Inl (projl (line_reader (fr_raw row)))
   | None \<Rightarrow> \<exists>st'. rows_loop line_reader env rows st = Inr st'"
proof (induction rows arbitrary: st)
  case (Cons row rows)
  show ?case
  proof (cases "line_reader (fr_raw row)")
    case (Inr ls)
    then obtain st1 where "row_step line_reader env row st = Inr st1" by (simp add: row_step_def)
    with Cons [of st1] Inr show ?thesis by (simp split: option.splits)
  qed (simp add: row_step_def)
qed simp

lemma build_error:
  assumes "\<And>st. rows_loop line_reader (build_env_of U feeds config en ls) feeds st = Inl e"
  shows "build U E feeds config line_reader en ls d = Inl e"
  using assms by (simp add: build_def Let_def split: prod.split)

text \<open>The table is keyed by the concatenation of the two labels, so two rows may share an index: the
  second is then reported under the labels of the first.\<close>

lemma index_for_shared:
  "feed @ grp = feed' @ grp' \<Longrightarrow>
    fst (index_for feed' grp' (snd (index_for feed grp st))) = fst (index_for feed grp st)"
  by (simp add: index_for_def Let_def update_conv' split: option.split)

text \<open>The manifest of the witnesses.\<close>

definition sample_row :: feed_row where
  "sample_row = \<lparr>fr_raw = ''feed.txt'', fr_feed = ''Feed'', fr_group = ''Group'', fr_log_flag = ''1'',
     fr_mode = None, fr_provenance = Some ''feed'', fr_top1m = Some True\<rparr>"

definition sample_config :: build_config where
  "sample_config = \<lparr>bc_blacklist = None, bc_exclusion = None, bc_regex_cap = None,
     bc_psl_rules = Some sample_rules, bc_psl_wildcard_enabled = None, bc_private_policy = Some ''ignore'',
     bc_icann_policy = Some ''ignore'', bc_psl_include_private = None, bc_builtin_log_flag = None,
     bc_user_whitelist = None, bc_user_unlock = None\<rparr>"

definition sample_reader :: "string \<Rightarrow> py_error + string list" where
  "sample_reader raw = Inr [''||blog.com^'', ''0.0.0.0 top.com'']"

definition sample_diag :: diag where
  "sample_diag = \<lparr>d_warned = [], d_stderr = [], d_clock = 0\<rparr>"

lemma sample_build: "\<exists>r d'. build plain_unicode sample_env [sample_row] sample_config sample_reader True [''top.com'']
    sample_diag = Inr (r, d')"
proof -
  have "\<exists>st'. rows_loop sample_reader (build_env_of plain_unicode [sample_row] sample_config True [''top.com''])
      [sample_row] st = Inr st'" for st
    by (simp add: row_step_def sample_reader_def)
  from build_value [OF this] show ?thesis by blast
qed

subsection \<open>Properties\<close>

text \<open>C13. \<open>build\<close> fails exactly when some row's lines cannot be read, with the error of the first such
  row, and otherwise returns structures the matcher can rely on: every block payload, a TOP1M
  fallback included, has a block band and an index of the feed table, every allow has an allow
  band, and while \<open>important_rules\<close> is unset every allow is a user allow and no regex is loaded.\<close>

theorem build_total:
  "case find (\<lambda>row. isl (line_reader (fr_raw row))) feeds of
     Some row \<Rightarrow> build U E feeds config line_reader top1m_enabled top1m_lines d = Inl (projl (line_reader (fr_raw row)))
   | None \<Rightarrow> \<exists>r d'. build U E feeds config line_reader top1m_enabled top1m_lines d = Inr (r, d') \<and> result_ok r"
proof (cases "find (\<lambda>row. isl (line_reader (fr_raw row))) feeds")
  case None
  with rows_loop_value [where line_reader = line_reader and rows = feeds] have
    "\<exists>st'. rows_loop line_reader (build_env_of U feeds config top1m_enabled top1m_lines) feeds st = Inr st'" for st
    by simp
  from build_value [OF this] None show ?thesis by simp
next
  case (Some row)
  with rows_loop_value [where line_reader = line_reader and rows = feeds] have
    "rows_loop line_reader (build_env_of U feeds config top1m_enabled top1m_lines) feeds st
      = Inl (projl (line_reader (fr_raw row)))" for st
    by simp
  from build_error [OF this] Some show ?thesis by simp
qed





text \<open>The feed table is keyed by the concatenation of a row's two labels, so a block may be
  reported under the labels of another row: here \<open>two.com\<close>, listed by feed \<open>a\<close> of group \<open>bc\<close>, is
  attributed to feed \<open>ab\<close> of group \<open>c\<close>.\<close>

theorem build_shared_attribution:
  "case build plain_unicode sample_env
     [sample_row\<lparr>fr_raw := ''one'', fr_feed := ''ab'', fr_group := ''c''\<rparr>,
      sample_row\<lparr>fr_raw := ''two'', fr_feed := ''a'', fr_group := ''bc''\<rparr>]
     (sample_config\<lparr>bc_psl_rules := None\<rparr>) (\<lambda>raw. Inr [raw @ ''.com'']) False [] sample_diag of
     Inl _ \<Rightarrow> False
   | Inr (r, _) \<Rightarrow> map_option (\<lambda>p. resolve_feed_group (pl_index p) (br_feed_group_index r))
       (map_of (br_data r) ''two.com'') = Some (''ab'', ''c'')"
  by code_simp

end
