(* ===== verification/Cache.thy ===== *)
theory Cache
  imports Prelude
begin

text \<open>
  \<open>_LruCache\<close>: the bounded store behind \<open>decisionDB\<close>.  Its \<open>OrderedDict\<close> is the list of its items,
  least recently used first.  A method of the class runs under the instance's lock, so it is one
  step.  Its reference is a store that stamps every use with a clock and evicts the oldest stamp.
\<close>

record 'a LruCache =
  lc_maxsize :: int
  lc_d :: "(string \<times> 'a) list"

definition lru_new :: "int \<Rightarrow> 'a LruCache" where
  "lru_new maxsize = \<lparr>lc_maxsize = maxsize, lc_d = []\<rparr>"

text \<open>\<open>OrderedDict.move_to_end\<close> of a present key.\<close>

definition move_to_end :: "string \<Rightarrow> (string \<times> 'a) list \<Rightarrow> (string \<times> 'a) list" where
  "move_to_end key d = (case map_of d key of None \<Rightarrow> d | Some v \<Rightarrow> AList.delete key d @ [(key, v)])"

definition lru_get :: "string \<Rightarrow> 'a LruCache \<Rightarrow> 'a option \<times> 'a LruCache" where
  "lru_get key c = (case map_of (lc_d c) key of
       Some v \<Rightarrow> (Some v, c\<lparr>lc_d := move_to_end key (lc_d c)\<rparr>)
     | None \<Rightarrow> (None, c))"

definition lru_getitem :: "string \<Rightarrow> 'a LruCache \<Rightarrow> py_error + 'a \<times> 'a LruCache" where
  "lru_getitem key c = (case map_of (lc_d c) key of
       Some v \<Rightarrow> Inr (v, c\<lparr>lc_d := move_to_end key (lc_d c)\<rparr>)
     | None \<Rightarrow> Inl (KeyError key))"

definition lru_setitem :: "string \<Rightarrow> 'a \<Rightarrow> 'a LruCache \<Rightarrow> 'a LruCache" where
  "lru_setitem key v c =
    (let d = move_to_end key (AList.update key v (lc_d c)) in
     c\<lparr>lc_d := (if 0 < lc_maxsize c \<and> lc_maxsize c < int (length d) then tl d else d)\<rparr>)"

definition lru_contains :: "string \<Rightarrow> 'a LruCache \<Rightarrow> bool" where
  "lru_contains key c \<longleftrightarrow> map_of (lc_d c) key \<noteq> None"

definition lru_delitem :: "string \<Rightarrow> 'a LruCache \<Rightarrow> py_error + 'a LruCache" where
  "lru_delitem key c = (case map_of (lc_d c) key of
       None \<Rightarrow> Inl (KeyError key)
     | Some v \<Rightarrow> Inr (c\<lparr>lc_d := AList.delete key (lc_d c)\<rparr>))"

definition lru_len :: "'a LruCache \<Rightarrow> nat" where
  "lru_len c = length (lc_d c)"

definition lru_clear :: "'a LruCache \<Rightarrow> 'a LruCache" where
  "lru_clear c = c\<lparr>lc_d := []\<rparr>"

subsection \<open>The operations on the item list\<close>

definition lru_ok :: "'a LruCache \<Rightarrow> bool" where
  "lru_ok c \<longleftrightarrow> distinct (map fst (lc_d c)) \<and> (0 < lc_maxsize c \<longrightarrow> int (length (lc_d c)) \<le> lc_maxsize c)"

lemma delete_fresh [simp]: "k \<notin> fst ` set (AList.delete k d)"
  by (auto simp: AList.delete_eq)

lemma delete_distinct: "distinct (map fst d) \<Longrightarrow> distinct (map fst (AList.delete k d))"
  by (rule distinct_delete)

lemma update_delete [simp]: "AList.delete k (AList.update k v d) = AList.delete k d"
  by (induction d) (auto simp: AList.delete_eq)

lemma map_of_update_same [simp]: "map_of (AList.update k v d) k = Some v"
  by (simp add: update_conv')

lemma setitem_items:
  "lc_d (lru_setitem k v c) = (let d = AList.delete k (lc_d c) @ [(k, v)] in
     if 0 < lc_maxsize c \<and> lc_maxsize c < int (length d) then tl d else d)"
  by (simp add: lru_setitem_def move_to_end_def Let_def)

lemma move_items: "map_of d k = Some v \<Longrightarrow> move_to_end k d = AList.delete k d @ [(k, v)]"
  by (simp add: move_to_end_def)

lemma delete_length: "length (AList.delete k d) \<le> length d"
  by (simp add: AList.delete_eq)

lemma delete_shorter: "map_of d k = Some v \<Longrightarrow> length (AList.delete k d) < length d"
  unfolding AList.delete_eq
  by (rule length_filter_less [where x = "(k, v)"]) (auto dest: map_of_SomeD)

lemma maxsize_setitem [simp]: "lc_maxsize (lru_setitem k v c) = lc_maxsize c"
  by (simp add: lru_setitem_def Let_def)

lemma lru_ok_setitem:
  assumes "lru_ok c"
  shows "lru_ok (lru_setitem k v c)"
proof -
  let ?d = "AList.delete k (lc_d c) @ [(k, v)]"
  have d: "distinct (map fst ?d)" using assms by (simp add: lru_ok_def delete_distinct)
  then have t: "distinct (map fst (tl ?d))" by (metis distinct_tl map_tl)
  have l: "0 < lc_maxsize c \<longrightarrow> int (length (AList.delete k (lc_d c))) \<le> lc_maxsize c"
    using assms delete_length [of k "lc_d c"] by (auto simp: lru_ok_def)
  show ?thesis
    using d t l unfolding lru_ok_def setitem_items Let_def by auto
qed

lemma lru_ok_get:
  assumes "lru_ok c"
  shows "lru_ok (snd (lru_get k c))"
proof (cases "map_of (lc_d c) k")
  case None
  then show ?thesis using assms by (simp add: lru_get_def)
next
  case (Some v)
  have "distinct (map fst (AList.delete k (lc_d c) @ [(k, v)]))"
    using assms by (simp add: lru_ok_def delete_distinct)
  then show ?thesis
    using assms delete_shorter [OF Some] by (auto simp: Some lru_ok_def lru_get_def move_items)
qed

lemma lru_ok_clear: "lru_ok (lru_clear c)"
  by (simp add: lru_ok_def lru_clear_def)

subsection \<open>The contract its clients rely on\<close>

text \<open>A bounded memo: a read returns what was last stored under the key or nothing, a write is
  readable at once, and reads do not change what is stored.\<close>

locale memo_store =
  fixes lookup :: "'s \<Rightarrow> string \<Rightarrow> 'a option"
    and reach :: "'s \<Rightarrow> bool"
    and read :: "string \<Rightarrow> 's \<Rightarrow> 'a option \<times> 's"
    and store :: "string \<Rightarrow> 'a \<Rightarrow> 's \<Rightarrow> 's"
    and wipe :: "'s \<Rightarrow> 's"
  assumes read_value: "fst (read k s) = lookup s k"
    and read_keeps: "reach s \<Longrightarrow> lookup (snd (read k s)) k' = lookup s k'"
    and store_same: "reach s \<Longrightarrow> lookup (store k v s) k = Some v"
    and store_other: "reach s \<Longrightarrow> k' \<noteq> k \<Longrightarrow> lookup (store k v s) k' = Some w \<Longrightarrow> lookup s k' = Some w"
    and wipe_empty: "lookup (wipe s) k = None"
    and read_reach: "reach s \<Longrightarrow> reach (snd (read k s))"
    and store_reach: "reach s \<Longrightarrow> reach (store k v s)"
    and wipe_reach: "reach (wipe s)"
begin

definition all_entries :: "(string \<Rightarrow> 'a \<Rightarrow> bool) \<Rightarrow> 's \<Rightarrow> bool" where
  "all_entries P s \<longleftrightarrow> (\<forall>k v. lookup s k = Some v \<longrightarrow> P k v)"

lemma entries_read: "reach s \<Longrightarrow> all_entries P s \<Longrightarrow> all_entries P (snd (read k s))"
  by (simp add: all_entries_def read_keeps)

lemma entries_store:
  assumes "reach s" and "all_entries P s" and "P k v"
  shows "all_entries P (store k v s)"
  unfolding all_entries_def
proof (intro allI impI)
  fix k' w assume w: "lookup (store k v s) k' = Some w"
  show "P k' w"
  proof (cases "k' = k")
    case True
    then show ?thesis using w store_same [OF assms(1), of k v] assms(3) by simp
  next
    case False
    then show ?thesis using store_other [OF assms(1) False w] assms(2) by (simp add: all_entries_def)
  qed
qed

lemma entries_wipe: "all_entries P (wipe s)"
  by (simp add: all_entries_def wipe_empty)

lemma entries_value: "all_entries P s \<Longrightarrow> fst (read k s) = Some v \<Longrightarrow> P k v"
  by (simp add: all_entries_def read_value)

lemma entries_mono: "all_entries P s \<Longrightarrow> (\<And>k v. P k v \<Longrightarrow> Q k v) \<Longrightarrow> all_entries Q s"
  by (auto simp: all_entries_def)

end

definition lru_lookup :: "'a LruCache \<Rightarrow> string \<Rightarrow> 'a option" where
  "lru_lookup c k = map_of (lc_d c) k"

lemma map_of_tl: "distinct (map fst d) \<Longrightarrow> map_of (tl d) k = Some w \<Longrightarrow> map_of d k = Some w"
proof (cases d)
  case (Cons p r)
  assume d: "distinct (map fst d)" and w: "map_of (tl d) k = Some w"
  have "k \<in> fst ` set r" using w Cons by (force dest: map_of_SomeD)
  then have "fst p \<noteq> k" using d Cons by auto
  then show ?thesis using w Cons by (cases p) simp
qed simp

lemma map_of_append_last:
  "map_of (AList.delete k d @ [(k, v)]) k' = (if k' = k then Some v else map_of d k')"
proof -
  have n: "map_of (AList.delete k d) k = None" by (simp add: map_of_eq_None_iff)
  have "k' \<noteq> k \<Longrightarrow> map_of (AList.delete k d) k' = map_of d k'" by (simp add: delete_conv')
  then show ?thesis using n by (cases "k' = k") (simp_all add: map_add_def split: option.split)
qed

lemma lru_lookup_move: "map_of d k = Some v \<Longrightarrow> map_of (move_to_end k d) k' = map_of d k'"
  unfolding move_items map_of_append_last by simp

lemma tl_last:
  assumes "AList.delete k d \<noteq> []"
  shows "map_of (tl (AList.delete k d @ [(k, v)])) k = Some v"
proof -
  obtain p r where r: "AList.delete k d = p # r" using assms by (cases "AList.delete k d") auto
  have "k \<notin> fst ` set r" using delete_fresh [of k d] unfolding r by simp
  then have "map_of r k = None" by (simp add: map_of_eq_None_iff)
  then show ?thesis by (simp add: r map_add_def)
qed

lemma lru_store_same: "lru_lookup (lru_setitem k v c) k = Some v"
proof (cases "AList.delete k (lc_d c) = []")
  case True
  then show ?thesis by (auto simp: lru_lookup_def setitem_items Let_def)
next
  case False
  then show ?thesis
    using tl_last [OF False, of v]
    by (auto simp: lru_lookup_def setitem_items Let_def map_of_append_last simp del: map_of_append)
qed

lemma lru_store_other:
  assumes "distinct (map fst (lc_d c))" and "k' \<noteq> k" and "lru_lookup (lru_setitem k v c) k' = Some w"
  shows "lru_lookup c k' = Some w"
proof -
  let ?d = "AList.delete k (lc_d c) @ [(k, v)]"
  have d: "distinct (map fst ?d)" using assms(1) by (simp add: delete_distinct)
  have "map_of ?d k' = Some w"
    using assms(3) map_of_tl [OF d]
    by (auto simp: lru_lookup_def setitem_items Let_def simp del: map_of_append split: if_splits)
  then show ?thesis using assms(2) by (simp add: lru_lookup_def map_of_append_last del: map_of_append)
qed

lemma lru_read_keeps: "lru_lookup (snd (lru_get k c)) k' = lru_lookup c k'"
  by (simp add: lru_lookup_def lru_get_def lru_lookup_move split: option.split)

interpretation memo: memo_store lru_lookup lru_ok lru_get lru_setitem lru_clear
proof
  fix k k' :: string and v w :: 'a and s :: "'a LruCache"
  show "fst (lru_get k s) = lru_lookup s k"
    by (simp add: lru_get_def lru_lookup_def split: option.split)
  show "lru_lookup (lru_setitem k v s) k = Some v" by (rule lru_store_same)
  show "lru_lookup (lru_clear s) k = None" by (simp add: lru_lookup_def lru_clear_def)
  show "lru_ok (lru_clear s)" by (rule lru_ok_clear)
  show "lru_ok s \<Longrightarrow> k' \<noteq> k \<Longrightarrow> lru_lookup (lru_setitem k v s) k' = Some w \<Longrightarrow>
    lru_lookup s k' = Some w" by (rule lru_store_other [of s k' k v w]) (simp_all add: lru_ok_def)
qed (simp_all add: lru_read_keeps lru_ok_get lru_ok_setitem)

subsection \<open>The reference: a store that stamps every use\<close>

text \<open>The reference keeps, beside the values, the time of the last use of every key and a clock.
  A store that has grown over its bound forgets the key with the smallest stamp.\<close>

record 'a Stamped =
  sv_max :: int
  sv_val :: "string \<rightharpoonup> 'a"
  sv_stamp :: "string \<Rightarrow> nat"
  sv_clock :: nat

definition stamp :: "string \<Rightarrow> 'a Stamped \<Rightarrow> 'a Stamped" where
  "stamp key a = a\<lparr>sv_stamp := (sv_stamp a)(key := sv_clock a), sv_clock := Suc (sv_clock a)\<rparr>"

definition evict_oldest :: "'a Stamped \<Rightarrow> 'a Stamped" where
  "evict_oldest a = a\<lparr>sv_val := sv_val a |`
     {key. \<exists>older. sv_val a older \<noteq> None \<and> sv_stamp a older < sv_stamp a key}\<rparr>"

definition stamped_set :: "string \<Rightarrow> 'a \<Rightarrow> 'a Stamped \<Rightarrow> 'a Stamped" where
  "stamped_set key v a =
    (let b = stamp key (a\<lparr>sv_val := (sv_val a)(key \<mapsto> v)\<rparr>) in
     if 0 < sv_max a \<and> sv_max a < int (card (dom (sv_val b))) then evict_oldest b else b)"

text \<open>A call of the class's interface, and what it hands back.\<close>

datatype 'a lru_call = Get string | GetItem string | SetItem string 'a | Contains string
  | DelItem string | Len | Clear

datatype 'a lru_answer = Value "'a option" | Flag bool | Count nat | Raised py_error | NoValue

fun lru_apply :: "'a lru_call \<Rightarrow> 'a LruCache \<Rightarrow> 'a lru_answer \<times> 'a LruCache" where
  "lru_apply (Get k) c = (case lru_get k c of (v, c') \<Rightarrow> (Value v, c'))"
| "lru_apply (GetItem k) c = (case lru_getitem k c of Inl e \<Rightarrow> (Raised e, c) | Inr (v, c') \<Rightarrow> (Value (Some v), c'))"
| "lru_apply (SetItem k v) c = (NoValue, lru_setitem k v c)"
| "lru_apply (Contains k) c = (Flag (lru_contains k c), c)"
| "lru_apply (DelItem k) c = (case lru_delitem k c of Inl e \<Rightarrow> (Raised e, c) | Inr c' \<Rightarrow> (NoValue, c'))"
| "lru_apply Len c = (Count (lru_len c), c)"
| "lru_apply Clear c = (NoValue, lru_clear c)"

fun stamped_apply :: "'a lru_call \<Rightarrow> 'a Stamped \<Rightarrow> 'a lru_answer \<times> 'a Stamped" where
  "stamped_apply (Get k) a = (Value (sv_val a k), if sv_val a k = None then a else stamp k a)"
| "stamped_apply (GetItem k) a = (case sv_val a k of
     None \<Rightarrow> (Raised (KeyError k), a) | Some v \<Rightarrow> (Value (Some v), stamp k a))"
| "stamped_apply (SetItem k v) a = (NoValue, stamped_set k v a)"
| "stamped_apply (Contains k) a = (Flag (sv_val a k \<noteq> None), a)"
| "stamped_apply (DelItem k) a = (case sv_val a k of
     None \<Rightarrow> (Raised (KeyError k), a) | Some v \<Rightarrow> (NoValue, a\<lparr>sv_val := (sv_val a)(k := None)\<rparr>))"
| "stamped_apply Len a = (Count (card (dom (sv_val a))), a)"
| "stamped_apply Clear a = (NoValue, a\<lparr>sv_val := Map.empty\<rparr>)"

fun answers :: "('c \<Rightarrow> 's \<Rightarrow> 'r \<times> 's) \<Rightarrow> 'c list \<Rightarrow> 's \<Rightarrow> 'r list" where
  "answers step [] s = []"
| "answers step (c # cs) s = (case step c s of (r, s') \<Rightarrow> r # answers step cs s')"

definition lru_rel :: "'a LruCache \<Rightarrow> 'a Stamped \<Rightarrow> bool" where
  "lru_rel c a \<longleftrightarrow> sv_max a = lc_maxsize c \<and> sv_val a = map_of (lc_d c) \<and>
     sorted_wrt (<) (map (sv_stamp a \<circ> fst) (lc_d c)) \<and>
     (\<forall>k\<in>fst ` set (lc_d c). sv_stamp a k < sv_clock a)"

lemma sorted_stamps_distinct:
  fixes f :: "string \<Rightarrow> nat"
  shows "sorted_wrt (<) (map (f \<circ> fst) d) \<Longrightarrow> distinct (map fst d)"
  by (induction d) auto

lemma rel_distinct: "lru_rel c a \<Longrightarrow> distinct (map fst (lc_d c))"
  unfolding lru_rel_def using sorted_stamps_distinct by blast

lemma card_dom: "distinct (map fst d) \<Longrightarrow> card (dom (map_of d)) = length d"
  using distinct_card [of "map fst d"] by (simp add: dom_map_of_conv_image_fst)

lemma rel_card: "lru_rel c a \<Longrightarrow> card (dom (sv_val a)) = length (lc_d c)"
  using rel_distinct [of c a] by (simp add: lru_rel_def card_dom)

text \<open>Moving a key to the end is stamping it.\<close>

lemma sorted_filter_stamps:
  fixes f :: "string \<Rightarrow> nat"
  shows "sorted_wrt (<) (map (f \<circ> fst) d) \<Longrightarrow> sorted_wrt (<) (map (f \<circ> fst) (AList.delete k d))"
  by (induction d) (auto simp: AList.delete_eq)

lemma restamp_delete:
  "map (g(k := n) \<circ> fst) (AList.delete k d) = map (g \<circ> fst) (AList.delete k d)"
  by (auto simp: AList.delete_eq)

lemma sorted_append_stamp:
  fixes f :: "string \<Rightarrow> nat"
  assumes "sorted_wrt (<) (map (f \<circ> fst) d)" and "\<forall>k\<in>fst ` set d. f k < n"
  shows "sorted_wrt (<) (map (f(k := n) \<circ> fst) (AList.delete k d @ [(k, v)]))"
  using sorted_filter_stamps [OF assms(1), of k] assms(2)
  unfolding map_append restamp_delete
  by (auto simp: sorted_wrt_append AList.delete_eq)

lemma rel_append:
  assumes "lru_rel c a"
  shows "lru_rel (c\<lparr>lc_d := AList.delete k (lc_d c) @ [(k, v)]\<rparr>)
    (stamp k (a\<lparr>sv_val := (sv_val a)(k \<mapsto> v)\<rparr>))"
proof -
  let ?d = "AList.delete k (lc_d c) @ [(k, v)]"
  have rel: "sv_max a = lc_maxsize c" "sv_val a = map_of (lc_d c)"
    "sorted_wrt (<) (map (sv_stamp a \<circ> fst) (lc_d c))"
    "\<forall>k\<in>fst ` set (lc_d c). sv_stamp a k < sv_clock a"
    using assms by (simp_all add: lru_rel_def)
  have m: "map_of ?d = (map_of (lc_d c))(k \<mapsto> v)"
    by (rule ext) (simp only: map_of_append_last fun_upd_apply)
  have "\<forall>k'\<in>fst ` set ?d. ((sv_stamp a)(k := sv_clock a)) k' < Suc (sv_clock a)"
    using rel(4) by (auto simp: AList.delete_eq less_Suc_eq)
  then show ?thesis
    using rel(1,2) sorted_append_stamp [OF rel(3,4), of k v]
    by (simp add: lru_rel_def stamp_def m del: map_of_append)
qed

lemma rel_evict:
  assumes "lru_rel c a" and "lc_d c = p # r"
  shows "lru_rel (c\<lparr>lc_d := r\<rparr>) (evict_oldest a)"
proof -
  have rel: "sv_max a = lc_maxsize c" "sv_val a = map_of (p # r)"
    "sorted_wrt (<) (map (sv_stamp a \<circ> fst) (p # r))"
    "\<forall>k\<in>fst ` set (p # r). sv_stamp a k < sv_clock a"
    using assms by (simp_all add: lru_rel_def)
  have first: "\<forall>k\<in>fst ` set r. sv_stamp a (fst p) < sv_stamp a k" using rel(3) by auto
  have keys: "fst p \<notin> fst ` set r" using first by auto
  have "sv_val a |` {key. \<exists>older. sv_val a older \<noteq> None \<and> sv_stamp a older < sv_stamp a key} = map_of r"
  proof
    fix k
    have young: "(\<exists>older. sv_val a older \<noteq> None \<and> sv_stamp a older < sv_stamp a k)" if "k \<in> fst ` set r"
      using first that by (intro exI [of _ "fst p"]) (auto simp: rel(2))
    show "(sv_val a |` {key. \<exists>older. sv_val a older \<noteq> None \<and> sv_stamp a older < sv_stamp a key}) k = map_of r k"
    proof (cases "k \<in> fst ` set r")
      case True
      then have "k \<noteq> fst p" using keys by metis
      then show ?thesis using young [OF True] by (cases p) (simp add: restrict_map_def rel(2))
    next
      case False
      then have none: "map_of r k = None" by (simp add: map_of_eq_None_iff)
      have "\<not> (\<exists>older. sv_val a older \<noteq> None \<and> sv_stamp a older < sv_stamp a (fst p))"
        using first by (auto simp: rel(2) image_iff dest!: map_of_SomeD split: if_splits)
      then show ?thesis using none
        by (cases "k = fst p"; cases p) (simp_all add: restrict_map_def rel(2))
    qed
  qed
  then show ?thesis using rel by (simp add: lru_rel_def evict_oldest_def)
qed

lemma rel_get: "lru_rel c a \<Longrightarrow> map_of (lc_d c) k = Some v \<Longrightarrow>
    lru_rel (c\<lparr>lc_d := move_to_end k (lc_d c)\<rparr>) (stamp k a)"
proof -
  assume rel: "lru_rel c a" and v: "map_of (lc_d c) k = Some v"
  have "(sv_val a)(k \<mapsto> v) = sv_val a" using rel v by (simp add: lru_rel_def fun_upd_idem)
  then have "a\<lparr>sv_val := (sv_val a)(k \<mapsto> v)\<rparr> = a" by simp
  then show ?thesis using rel_append [OF rel, of k v] unfolding move_items [OF v] by simp
qed

lemma rel_set:
  assumes "lru_rel c a"
  shows "lru_rel (lru_setitem k v c) (stamped_set k v a)"
proof -
  let ?d = "AList.delete k (lc_d c) @ [(k, v)]"
  let ?c = "c\<lparr>lc_d := ?d\<rparr>" and ?a = "stamp k (a\<lparr>sv_val := (sv_val a)(k \<mapsto> v)\<rparr>)"
  have rel: "lru_rel ?c ?a" by (rule rel_append [OF assms])
  have n: "card (dom (sv_val ?a)) = length ?d" using rel_card [OF rel] by simp
  have m: "sv_max a = lc_maxsize c" using assms by (simp add: lru_rel_def)
  have c: "lru_setitem k v c = (if 0 < lc_maxsize c \<and> lc_maxsize c < int (length ?d)
      then c\<lparr>lc_d := tl ?d\<rparr> else ?c)"
    by (simp add: lru_setitem_def move_to_end_def Let_def)
  have e: "lru_rel (c\<lparr>lc_d := tl ?d\<rparr>) (evict_oldest ?a)"
    using rel_evict [OF rel, of "hd ?d" "tl ?d"] by simp
  show ?thesis
    unfolding c stamped_set_def Let_def n m using rel e by (simp del: length_append)
qed

lemma lru_step_sim:
  assumes "lru_rel c a"
  shows "fst (lru_apply op c) = fst (stamped_apply op a)"
    and "lru_rel (snd (lru_apply op c)) (snd (stamped_apply op a))"
proof -
  have v: "sv_val a = map_of (lc_d c)" using assms by (simp add: lru_rel_def)
  have del: "lru_rel (c\<lparr>lc_d := AList.delete k (lc_d c)\<rparr>) (a\<lparr>sv_val := (sv_val a)(k := None)\<rparr>)" for k
  proof -
    have "\<forall>k'\<in>fst ` set (AList.delete k (lc_d c)). sv_stamp a k' < sv_clock a"
      using assms by (auto simp: lru_rel_def AList.delete_eq)
    moreover have "map_of (AList.delete k (lc_d c)) = (map_of (lc_d c))(k := None)"
      by (rule ext) (simp add: delete_conv')
    ultimately show ?thesis
      using assms sorted_filter_stamps [of "sv_stamp a" "lc_d c" k] by (simp add: lru_rel_def)
  qed
  have clr: "lru_rel (lru_clear c) (a\<lparr>sv_val := Map.empty\<rparr>)"
    using assms by (simp add: lru_rel_def lru_clear_def)
  show "fst (lru_apply op c) = fst (stamped_apply op a)"
    using rel_card [OF assms]
    by (cases op) (auto simp: v lru_get_def lru_getitem_def lru_contains_def lru_delitem_def lru_len_def
        split: option.split)
  show "lru_rel (snd (lru_apply op c)) (snd (stamped_apply op a))"
    using assms rel_get [OF assms] rel_set [OF assms] clr del
    by (cases op) (auto simp: v lru_get_def lru_getitem_def lru_delitem_def split: option.split)
qed

lemma lru_answers:
  "lru_rel c a \<Longrightarrow> answers lru_apply ops c = answers stamped_apply ops a"
proof (induction ops arbitrary: c a)
  case (Cons op ops)
  then show ?case using lru_step_sim [OF Cons.prems, of op] by (simp add: case_prod_beta)
qed simp

text \<open>C16. For every sequence of calls, \<open>_LruCache\<close> returns exactly what the stamped store returns:
  the \<open>OrderedDict\<close> order is the order of last use, the entry it pops is the least recently used
  one, and every read, membership test, length and \<open>KeyError\<close> is that of the reference.
\<close>

theorem lru_refines:
  "answers lru_apply ops (lru_new maxsize) =
   answers stamped_apply ops \<lparr>sv_max = maxsize, sv_val = Map.empty, sv_stamp = (\<lambda>_. 0), sv_clock = 0\<rparr>"
  by (rule lru_answers) (simp add: lru_rel_def lru_new_def)

end
