(* ===== verification/Swap.thy ===== *)
theory Swap
  imports BuildPolicy Cache
begin

text \<open>
  The live state of the module: the \<open>pfb\<close> settings a query or a swap reads, the immutable
  \<open>Snapshot\<close>, the per-name memo (\<open>Decision\<close>, \<open>_decision_for\<close>, \<open>decisionDB\<close>), the reload builder
  \<open>_build_swap_snapshot\<close>, \<open>rebuild_and_swap\<close>, the query channel's \<open>dnsbl_query_answer\<close> and the
  RAM-gated reload loop.  A \<open>Decision\<close> is a mutable object: the memo maps a name to an address of
  a heap of decisions.
\<close>

subsection \<open>Settings\<close>

text \<open>The keys of \<open>pfb\<close> read with \<open>pfb.get\<close> are optional.\<close>

record pfb =
  p_python_blacklist :: bool
  p_python_blocking :: bool
  p_tld_allow :: bool
  p_tld_allow_list :: "string list option"
  p_dnsbl_ipv4 :: string
  p_dnsbl_ipv6 :: string
  p_python_idn :: bool
  p_idn_mode :: raw_mode
  p_idn_block_malicious :: "bool option"
  p_idn_escalate_suspicious :: "bool option"
  p_regex_warn_ms :: int
  p_python_tld_seg :: nat
  p_hsts_tlds :: "string list"
  p_python_hsts :: bool
  p_regex_cap :: bool
  p_psl_include_private :: "bool option"
  p_psl_allow_private :: "bool option"
  p_private_policy :: "string option"
  p_icann_policy :: "string option"
  p_forwarding :: "bool option"
  p_mod_sqlite3 :: bool
  p_sqlite3_dnsbl_con :: bool
  p_reload_applied :: "string option"
  p_reject_stats :: "string option"

subsection \<open>Snapshots\<close>

record Snapshot =
  sn_data :: data_db
  sn_zone :: zone_db
  sn_white :: white_db
  sn_regex :: regex_obj
  sn_allow_regex :: regex_obj
  sn_user_regex :: regex_obj
  sn_user_allow_regex :: regex_obj
  sn_feed_group_index :: feed_group_index
  sn_hsts :: "string list"
  sn_important_rules :: bool
  sn_counts :: nat
  sn_regex_count :: nat
  sn_rejects :: reject_tally
  sn_psl_rules :: PslRules
  sn_tld_allow_roots :: "string list option"
  sn_psl_include_private :: bool
  sn_psl_allow_private :: bool
  sn_private_policy :: string
  sn_icann_policy :: string
  sn_builtin_log_flag :: string
  sn_gen :: nat

text \<open>\<open>Snapshot.containers\<close>, less the keys \<open>evaluate_domain\<close> never reads.\<close>

definition snapshot_containers :: "Snapshot \<Rightarrow> containers" where
  "snapshot_containers snap = \<lparr>ct_data = sn_data snap, ct_zone = sn_zone snap, ct_white = sn_white snap,
     ct_regex = sn_regex snap, ct_allow_regex = sn_allow_regex snap, ct_user_regex = sn_user_regex snap,
     ct_user_allow_regex = sn_user_allow_regex snap, ct_feed_group_index = sn_feed_group_index snap,
     ct_hsts = sn_hsts snap, ct_psl_rules = sn_psl_rules snap,
     ct_tld_allow_roots = (case sn_tld_allow_roots snap of Some roots \<Rightarrow> roots | None \<Rightarrow> []),
     ct_psl_allow_private = sn_psl_allow_private snap\<rparr>"

text \<open>\<open>pfb.get("idn_mode") or idn_mode_from_legacy(...)\<close>: an absent or empty value falls back.\<close>

definition idn_mode_setting :: "pfb \<Rightarrow> raw_mode" where
  "idn_mode_setting p = (case p_idn_mode p of
       Raw_mode m \<Rightarrow> Raw_mode m
     | Raw_text s \<Rightarrow> if s = [] then Raw_mode (idn_mode_from_legacy (p_python_idn p)) else Raw_text s
     | Raw_absent \<Rightarrow> Raw_mode (idn_mode_from_legacy (p_python_idn p)))"

definition evaluate_cfg :: "pfb \<Rightarrow> Snapshot \<Rightarrow> cfg" where
  "evaluate_cfg p snap = \<lparr>cf_python_blocking = p_python_blocking p,
     cf_dataDB = (sn_data snap \<noteq> []), cf_zoneDB = (sn_zone snap \<noteq> []), cf_tld_allow = p_tld_allow p,
     cf_tld_allow_list = (case sn_tld_allow_roots snap of
         Some roots \<Rightarrow> roots | None \<Rightarrow> selected_tld_roots (dict_get (p_tld_allow_list p) [])),
     cf_dnsbl_ipv4 = p_dnsbl_ipv4 p, cf_dnsbl_ipv6 = p_dnsbl_ipv6 p, cf_python_idn = p_python_idn p,
     cf_idn_mode = idn_mode_setting p, cf_idn_block_malicious = dict_get (p_idn_block_malicious p) True,
     cf_idn_escalate_suspicious = dict_get (p_idn_escalate_suspicious p) False,
     cf_regexDB = (snd (sn_regex snap) \<noteq> []), cf_whiteDB = (sn_white snap \<noteq> []),
     cf_allowRegexDB = (snd (sn_allow_regex snap) \<noteq> []),
     cf_userRegexDB = (snd (sn_user_regex snap) \<noteq> []),
     cf_userAllowRegexDB = (snd (sn_user_allow_regex snap) \<noteq> []),
     cf_important_rules = sn_important_rules snap, cf_regex_warn_ms = p_regex_warn_ms p,
     cf_python_tld_seg = p_python_tld_seg p, cf_hstsDB = (sn_hsts snap \<noteq> []),
     cf_hsts_tlds = p_hsts_tlds p, cf_builtin_log_flag = sn_builtin_log_flag snap\<rparr>"

subsection \<open>The module's state\<close>

text \<open>An axis that holds \<open>UNSET\<close> is \<open>None\<close>.  A SafeSearch entry is its \<open>A\<close>, \<open>AAAA\<close>, \<open>v4\<close> and
  \<open>v6\<close> values.\<close>

record safesearch =
  ss_A :: string
  ss_AAAA :: string
  ss_v4 :: "string option"
  ss_v6 :: "string option"

record Decision =
  de_dnsbl :: "DnsblDecision option"
  de_noaaaa :: "bool option"
  de_safesearch :: "safesearch option option"
  de_snap_gen :: nat

definition new_decision :: "nat \<Rightarrow> Decision" where
  "new_decision gen = \<lparr>de_dnsbl = None, de_noaaaa = None, de_safesearch = None, de_snap_gen = gen\<rparr>"

text \<open>What the module writes besides its logs.\<close>

datatype emission_file = Count_file nat | Regex_count_file nat | Reject_stats reject_tally | Applied_marker int

record state =
  st_pfb :: pfb
  st_snapshot :: "Snapshot option"
  st_next_gen :: nat
  st_next_id :: nat
  st_cache :: "nat LruCache"
  st_heap :: "Decision list"
  st_eval :: eval_state
  st_files :: "emission_file list"
  st_log :: "string list"

definition stderr :: "string \<Rightarrow> state \<Rightarrow> state" where
  "stderr line s = s\<lparr>st_eval := (st_eval s)\<lparr>es_diag := write_line line (es_diag (st_eval s))\<rparr>\<rparr>"

definition log_info :: "string \<Rightarrow> state \<Rightarrow> state" where
  "log_info line s = s\<lparr>st_log := st_log s @ [line]\<rparr>"

definition write_file :: "emission_file \<Rightarrow> state \<Rightarrow> state" where
  "write_file f s = s\<lparr>st_files := st_files s @ [f]\<rparr>"

definition error_text :: "py_error \<Rightarrow> string" where
  "error_text e = (case e of ValueError m \<Rightarrow> m | KeyError k \<Rightarrow> [CHR 0x27] @ k @ [CHR 0x27]
     | NameError n \<Rightarrow> ''name '' @ [CHR 0x27] @ n @ [CHR 0x27] @ '' is not defined''
     | OSError m \<Rightarrow> m | GenerationError m \<Rightarrow> m)"

subsection \<open>The memo\<close>

text \<open>\<open>_decision_for\<close> is two operations on the memo, with other threads in between: the \<open>get\<close>, and
  the choice of the decision to fill, which creates and stores one unless the fetched one is of
  this generation; an older reader gets a decision no name refers to.\<close>

definition decision_fetch :: "string \<Rightarrow> state \<Rightarrow> nat option \<times> state" where
  "decision_fetch name s = (case lru_get name (st_cache s) of (r, c) \<Rightarrow> (r, s\<lparr>st_cache := c\<rparr>))"

definition decision_settle :: "string \<Rightarrow> nat \<Rightarrow> nat option \<Rightarrow> state \<Rightarrow> nat \<times> state" where
  "decision_settle name gen fetched s =
    (let created = s\<lparr>st_heap := st_heap s @ [new_decision gen]\<rparr>;
         ref = length (st_heap s);
         stored = created\<lparr>st_cache := lru_setitem name ref (st_cache created)\<rparr> in
     case fetched of
       None \<Rightarrow> (ref, stored)
     | Some r \<Rightarrow>
         if de_snap_gen (st_heap s ! r) > gen then (ref, created)
         else if de_snap_gen (st_heap s ! r) \<noteq> gen then (ref, stored)
         else (r, s))"

definition decision_for :: "string \<Rightarrow> nat \<Rightarrow> state \<Rightarrow> nat \<times> state" where
  "decision_for name gen s = (case decision_fetch name s of (r, s') \<Rightarrow> decision_settle name gen r s')"

definition set_dnsbl :: "nat \<Rightarrow> DnsblDecision \<Rightarrow> state \<Rightarrow> state" where
  "set_dnsbl ref v s = s\<lparr>st_heap := (st_heap s)[ref := (st_heap s ! ref)\<lparr>de_dnsbl := Some v\<rparr>]\<rparr>"

definition set_noaaaa :: "nat \<Rightarrow> bool \<Rightarrow> state \<Rightarrow> state" where
  "set_noaaaa ref v s = s\<lparr>st_heap := (st_heap s)[ref := (st_heap s ! ref)\<lparr>de_noaaaa := Some v\<rparr>]\<rparr>"

definition set_safesearch :: "nat \<Rightarrow> safesearch option \<Rightarrow> state \<Rightarrow> state" where
  "set_safesearch ref v s = s\<lparr>st_heap := (st_heap s)[ref := (st_heap s ! ref)\<lparr>de_safesearch := Some v\<rparr>]\<rparr>"

text \<open>The memoised verdict of a name, valid for the generation of the reader's snapshot only.\<close>

definition memo_verdict :: "string \<Rightarrow> nat \<Rightarrow> state \<Rightarrow> DnsblDecision option \<times> state" where
  "memo_verdict name gen s = (case decision_fetch name s of
       (None, s') \<Rightarrow> (None, s')
     | (Some r, s') \<Rightarrow>
         ((if de_snap_gen (st_heap s' ! r) = gen then de_dnsbl (st_heap s' ! r) else None), s'))"

definition run_evaluate ::
  "unicode_env \<Rightarrow> re_env \<Rightarrow> string \<Rightarrow> string \<Rightarrow> string \<Rightarrow> bool \<Rightarrow> Snapshot \<Rightarrow> state
     \<Rightarrow> py_error + DnsblDecision \<times> state" where
  "run_evaluate U E q_name q_name_original tld is_cname snap s =
    (case evaluate_domain U E q_name q_name_original tld is_cname (evaluate_cfg (st_pfb s) snap)
        (snapshot_containers snap) (st_eval s) of
       Inl e \<Rightarrow> Inl e
     | Inr (d, es) \<Rightarrow> Inr (d, s\<lparr>st_eval := es\<rparr>))"

subsection \<open>The query channel\<close>

record query_answer =
  qa_blocked :: bool
  qa_b_type :: string
  qa_group :: string
  qa_b_eval :: "nat list"
  qa_feed :: string
  qa_p_type :: string

definition miss_answer :: query_answer where
  "miss_answer = \<lparr>qa_blocked = False, qa_b_type = [], qa_group = [], qa_b_eval = [], qa_feed = [], qa_p_type = []\<rparr>"

definition is_block :: "DnsblDecision \<Rightarrow> bool" where
  "is_block d \<longleftrightarrow> dd_is_found d \<and> \<not> dd_in_whitelist d"

definition answer_of :: "DnsblDecision \<Rightarrow> query_answer" where
  "answer_of d = (if is_block d
     then \<lparr>qa_blocked = True, qa_b_type = dd_b_type d, qa_group = dd_group d,
       qa_b_eval = dd_b_eval d, qa_feed = dd_feed d, qa_p_type = dd_p_type d\<rparr>
     else miss_answer)"

lemma answer_blocked [simp]: "qa_blocked (answer_of d) = is_block d"
  by (simp add: answer_of_def miss_answer_def)

text \<open>\<open>_snapshot\<close> is bound by \<open>init_standard\<close> before the channel's thread starts; until then reading it
  raises.\<close>

definition dnsbl_query_answer ::
  "unicode_env \<Rightarrow> re_env \<Rightarrow> string \<Rightarrow> state \<Rightarrow> py_error + query_answer \<times> state" where
  "dnsbl_query_answer U E domain s =
    (case st_snapshot s of
       None \<Rightarrow> Inl (NameError ''_snapshot'')
     | Some snap \<Rightarrow>
        (let q_name = lower (rstrip_dots domain) in
         case run_evaluate U E q_name q_name (get_tld_from_name q_name) False snap s of
           Inl e \<Rightarrow> Inl e
         | Inr (d, s) \<Rightarrow>
            (let (ref, s) = decision_for q_name (sn_gen snap) s;
                 s = set_dnsbl ref d s in
             Inr (answer_of d, s))))"

subsection \<open>Building and swapping\<close>

definition dict_update :: "('k \<times> 'v) list \<Rightarrow> ('k \<times> 'v) list \<Rightarrow> ('k \<times> 'v) list" where
  "dict_update new d = fold (\<lambda>(k, v). AList.update k v) new d"

text \<open>What the builder finds on disk: the entries of the regex ini (absent, unreadable or read) and
  the lines of the HSTS file, with the error that ended the reading early, if any.\<close>

record reload_disk =
  rd_ini :: "(py_error + (string \<times> string) list) option"
  rd_hsts :: "(string list \<times> py_error option) option"
  rd_hsts_path :: string

definition hsts_keys :: "string list \<Rightarrow> string list" where
  "hsts_keys lines = remdups (filter (\<lambda>key. key \<noteq> [] \<and> \<not> prefix ''#'' key) (map strip lines))"

definition reload_user_regex :: "re_env \<Rightarrow> bool \<Rightarrow> reload_disk \<Rightarrow> diag \<Rightarrow> regex_db \<times> diag" where
  "reload_user_regex E regex_cap disk d =
    (let failed = (\<lambda>e d. ([], write_line
       (''[pfBlockerNG]: reload: failed to load user REGEX ini: '' @ error_text e) d)) in
     case rd_ini disk of
       None \<Rightarrow> ([], d)
     | Some (Inl e) \<Rightarrow> failed e d
     | Some (Inr entries) \<Rightarrow>
        (case dnsbl_compile_user_regex E entries regex_cap d of
           Inl e \<Rightarrow> failed e d
         | Inr (db, d) \<Rightarrow> (db, d)))"

definition reload_hsts :: "bool \<Rightarrow> reload_disk \<Rightarrow> diag \<Rightarrow> string list \<times> diag" where
  "reload_hsts python_hsts disk d =
    (case (if python_hsts then rd_hsts disk else None) of
       None \<Rightarrow> ([], d)
     | Some (lines, None) \<Rightarrow> (hsts_keys lines, d)
     | Some (lines, Some e) \<Rightarrow> (hsts_keys lines, write_line (''[pfBlockerNG]: reload: failed to load ''
         @ rd_hsts_path disk @ '': '' @ error_text e) d))"

text \<open>The dictionaries of a snapshot are new objects: the four regex lists get fresh identities.\<close>

definition build_swap_snapshot ::
  "re_env \<Rightarrow> reload_disk \<Rightarrow> BuildResult option \<Rightarrow> state \<Rightarrow> Snapshot option \<times> state" where
  "build_swap_snapshot E disk build_result s =
    (case build_result of
       None \<Rightarrow> (None, s)
     | Some r \<Rightarrow>
        (let p = st_pfb s; n = st_next_id s;
             (ini, d) = reload_user_regex E (p_regex_cap p) disk (es_diag (st_eval s));
             user = dict_update (br_user_regex r) ini;
             (hsts, d) = reload_hsts (p_python_hsts p) disk d in
         (Some \<lparr>sn_data = br_data r, sn_zone = br_zone r, sn_white = br_white r,
            sn_regex = (n, br_regex r), sn_allow_regex = (n + 1, br_allow_regex r),
            sn_user_regex = (n + 2, user), sn_user_allow_regex = (n + 3, br_user_allow_regex r),
            sn_feed_group_index = br_feed_group_index r, sn_hsts = hsts,
            sn_important_rules = (br_important_rules r \<or> user \<noteq> []),
            sn_counts = length (br_data r) + length (br_zone r),
            sn_regex_count = length (br_regex r) + length (br_allow_regex r) + length user
              + length (br_user_allow_regex r),
            sn_rejects = br_rejects r, sn_psl_rules = br_psl_rules r,
            sn_tld_allow_roots = Some (selected_tld_roots (dict_get (p_tld_allow_list p) [])),
            sn_psl_include_private = dict_get (p_psl_include_private p) True,
            sn_psl_allow_private = dict_get (p_psl_allow_private p) False,
            sn_private_policy = dict_get (p_private_policy p) ''honor'',
            sn_icann_policy = dict_get (p_icann_policy p) ''honor'',
            sn_builtin_log_flag = br_builtin_log_flag r, sn_gen = st_next_gen s\<rparr>,
          s\<lparr>st_next_gen := st_next_gen s + 1, st_next_id := n + 4,
            st_eval := (st_eval s)\<lparr>es_diag := d\<rparr>\<rparr>)))"

text \<open>The production builder, on what \<open>dnsbl_build_from_manifest\<close> returned.\<close>

definition reload_builder ::
  "re_env \<Rightarrow> reload_disk \<Rightarrow> BuildResult option \<Rightarrow> state \<Rightarrow> (py_error + Snapshot option) \<times> state" where
  "reload_builder E disk build_result s =
    (case build_swap_snapshot E disk build_result s of (snap, s) \<Rightarrow> (Inr snap, s))"

definition dnsbl_stats_wanted :: "pfb \<Rightarrow> bool" where
  "dnsbl_stats_wanted p \<longleftrightarrow> p_python_blacklist p \<or> dict_get (p_forwarding p) False"

text \<open>\<open>opened\<close> is what \<open>_validate_db_with_recovery\<close> returns.\<close>

definition open_dnsbl_stats_db_if_wanted :: "bool \<Rightarrow> state \<Rightarrow> state" where
  "open_dnsbl_stats_db_if_wanted opened s =
    (let p = st_pfb s in
     if p_mod_sqlite3 p \<and> \<not> p_sqlite3_dnsbl_con p \<and> dnsbl_stats_wanted p then
       (if opened then s\<lparr>st_pfb := p\<lparr>p_sqlite3_dnsbl_con := True\<rparr>\<rparr>
        else stderr (''[pfBlockerNG]: Failed to open pfb_py_dnsbl.sqlite database after recovery attempt''
          @ [CHR 0x0A]) s)
     else s)"

definition has_strata :: "Snapshot \<Rightarrow> bool" where
  "has_strata snap \<longleftrightarrow> sn_data snap \<noteq> [] \<or> sn_zone snap \<noteq> [] \<or> snd (sn_regex snap) \<noteq> []
     \<or> snd (sn_allow_regex snap) \<noteq> [] \<or> snd (sn_user_regex snap) \<noteq> [] \<or> snd (sn_user_allow_regex snap) \<noteq> []"

definition emit_counts_of :: "Snapshot \<Rightarrow> state \<Rightarrow> state" where
  "emit_counts_of snap s =
    (let s = write_file (Regex_count_file (sn_regex_count snap)) (write_file (Count_file (sn_counts snap)) s) in
     case p_reject_stats (st_pfb s) of
       None \<Rightarrow> s
     | Some path \<Rightarrow> if path = [] then s else write_file (Reject_stats (sn_rejects snap)) s)"

definition install_snapshot :: "Snapshot \<Rightarrow> state \<Rightarrow> state" where
  "install_snapshot snap s = s\<lparr>st_snapshot := Some snap\<rparr>"

definition clear_memo :: "state \<Rightarrow> state" where
  "clear_memo s = s\<lparr>st_cache := lru_clear (st_cache s)\<rparr>"

definition clear_regex_warned :: "state \<Rightarrow> state" where
  "clear_regex_warned s =
     s\<lparr>st_eval := (st_eval s)\<lparr>es_diag := (es_diag (st_eval s))\<lparr>d_warned := []\<rparr>\<rparr>\<rparr>"

definition rebuild_and_swap ::
  "bool \<Rightarrow> (state \<Rightarrow> (py_error + Snapshot option) \<times> state) \<Rightarrow> bool \<Rightarrow> state \<Rightarrow> bool \<times> state" where
  "rebuild_and_swap opened build_snapshot emit_counts s =
    (case build_snapshot s of
       (Inl e, s) \<Rightarrow> (False, stderr (''[pfBlockerNG]: DNSBL rebuild failed, keeping current snapshot: ''
          @ error_text e) s)
     | (Inr None, s) \<Rightarrow> (False, s)
     | (Inr (Some snap), s) \<Rightarrow>
        (let s = clear_regex_warned (clear_memo (install_snapshot snap s));
             s = (if has_strata snap then s\<lparr>st_pfb := (st_pfb s)\<lparr>p_python_blacklist := True\<rparr>\<rparr> else s);
             s = open_dnsbl_stats_db_if_wanted opened s in
         (True, if emit_counts then emit_counts_of snap s else s)))"

subsection \<open>The reload loop\<close>

definition reload_bytes_per_entry :: int where "reload_bytes_per_entry = 276"

definition reload_ram_headroom_bytes :: int where "reload_ram_headroom_bytes = 64 * 1024 * 1024"

definition reload_ram_gate_ok :: "int option \<Rightarrow> int \<Rightarrow> bool" where
  "reload_ram_gate_ok total_ram entry_count = (case total_ram of
       None \<Rightarrow> False
     | Some ram \<Rightarrow>
         2 * max entry_count 0 * reload_bytes_per_entry + reload_ram_headroom_bytes \<le> ram)"

text \<open>\<open>failure\<close> is the \<open>OSError\<close> of the temporary file or the rename, if any.\<close>

definition reload_write_applied :: "py_error option \<Rightarrow> int \<Rightarrow> state \<Rightarrow> state" where
  "reload_write_applied failure gen s =
    (case p_reload_applied (st_pfb s) of
       None \<Rightarrow> s
     | Some path \<Rightarrow>
        if path = [] then s
        else (case failure of
           None \<Rightarrow> write_file (Applied_marker gen) s
         | Some e \<Rightarrow> stderr (''[pfBlockerNG]: failed to write applied-generation marker [ '' @ path
             @ '' ]: '' @ error_text e @ [CHR 0x0A]) s))"

text \<open>One turn of the reload loop: what it reads and what the world does while it works.\<close>

record reload_turn =
  rt_stop :: bool
  rt_gen :: "int option"
  rt_total_ram :: "int option"
  rt_disk :: reload_disk
  rt_result :: "BuildResult option"
  rt_opened :: bool
  rt_marker_failure :: "py_error option"

definition reload_run_swap :: "re_env \<Rightarrow> reload_turn \<Rightarrow> state \<Rightarrow> bool \<times> state" where
  "reload_run_swap E t s =
    (let entry_count = (case st_snapshot s of None \<Rightarrow> 0 | Some snap \<Rightarrow> sn_counts snap + sn_regex_count snap) in
     if \<not> reload_ram_gate_ok (rt_total_ram t) (int entry_count) then
       (False, log_info (''[pfBlockerNG]: DNSBL reload DECLINED -- RAM-constrained box (projected ~''
          @ nat_text (2 * entry_count * nat reload_bytes_per_entry div (1024 * 1024))
          @ '' MiB for '' @ nat_text entry_count @ '' entries would not fit total RAM); ''
          @ ''keeping current lists, the update needs the restart fallback'') s)
     else (case rebuild_and_swap (rt_opened t) (reload_builder E (rt_disk t) (rt_result t)) True s of
         (True, s) \<Rightarrow> (True, log_info
            ''[pfBlockerNG]: DNSBL lists reloaded with no restart (zero-downtime swap)'' s)
       | (False, s) \<Rightarrow> (False, s)))"

text \<open>The loop of \<open>drain_and_swap\<close> over the turns the world grants it, and the watcher: the
  baseline, then one drain per wake.\<close>

fun reload_drain :: "re_env \<Rightarrow> reload_turn list \<Rightarrow> int option \<Rightarrow> state \<Rightarrow> int option \<times> state" where
  "reload_drain E [] last_gen s = (last_gen, s)"
| "reload_drain E (t # ts) last_gen s =
    (if rt_stop t then (last_gen, s)
     else (case rt_gen t of
         None \<Rightarrow> (last_gen, s)
       | Some cur \<Rightarrow>
          if (case last_gen of None \<Rightarrow> False | Some g \<Rightarrow> cur \<le> g) then (last_gen, s)
          else (case reload_run_swap E t s of
              (True, s) \<Rightarrow> reload_drain E ts (Some cur) (reload_write_applied (rt_marker_failure t) cur s)
            | (False, s) \<Rightarrow> reload_drain E ts (Some cur) s)))"

definition reload_watcher ::
  "re_env \<Rightarrow> int option \<Rightarrow> py_error option \<Rightarrow> reload_turn list list \<Rightarrow> state \<Rightarrow> int option \<times> state" where
  "reload_watcher E baseline failure wakes s =
    fold (\<lambda>turns (g, s). reload_drain E turns g s) wakes
      (baseline, case baseline of None \<Rightarrow> s | Some g \<Rightarrow> reload_write_applied failure g s)"

end
