(* ===== verification/SwapPolicy.thy ===== *)
theory SwapPolicy
  imports Swap
begin

text \<open>
  The properties of the live state: from \<open>build\<close> to the verdict of a query, the fail-closed swap
  and the reload loop.  \<open>live\<close> is the invariant on object identities: the cached prefilter indexes
  and the lists of the snapshots in use are those of the dictionaries allocated so far.
\<close>

subsection \<open>Identities\<close>

definition same_below :: "nat \<Rightarrow> (nat \<Rightarrow> regex_db) \<Rightarrow> (nat \<Rightarrow> regex_db) \<Rightarrow> bool" where
  "same_below n heap heap' \<longleftrightarrow> (\<forall>i < n. heap' i = heap i)"

definition live_in :: "re_env \<Rightarrow> (nat \<Rightarrow> regex_db) \<Rightarrow> Snapshot set \<Rightarrow> state \<Rightarrow> bool" where
  "live_in E heap snaps s \<longleftrightarrow> (\<forall>heap'. same_below (st_next_id s) heap heap' \<longrightarrow>
     slots_ok E heap' (st_eval s) \<and> (\<forall>snap \<in> snaps. lists_ok heap' (snapshot_containers snap)))"

definition live :: "re_env \<Rightarrow> Snapshot set \<Rightarrow> state \<Rightarrow> bool" where
  "live E snaps s \<longleftrightarrow> (\<exists>heap. live_in E heap snaps s)"

lemma same_refl [simp]: "same_below n heap heap"
  by (simp add: same_below_def)

lemma live_diag:
  "live E snaps s \<Longrightarrow> es_block es = es_block (st_eval s) \<Longrightarrow> es_allow es = es_allow (st_eval s) \<Longrightarrow>
    es_user_block es = es_user_block (st_eval s) \<Longrightarrow> es_user_allow es = es_user_allow (st_eval s) \<Longrightarrow>
    st_eval s' = es \<Longrightarrow> st_next_id s' = st_next_id s \<Longrightarrow> live E snaps s'"
  unfolding live_def live_in_def slots_ok_def by simp

lemma live_same: "live E snaps s \<Longrightarrow> st_eval s' = st_eval s \<Longrightarrow> st_next_id s' = st_next_id s \<Longrightarrow> live E snaps s'"
  unfolding live_def live_in_def by simp

lemma live_subset: "live E snaps s \<Longrightarrow> snaps' \<subseteq> snaps \<Longrightarrow> live E snaps' s"
  unfolding live_def live_in_def by blast

lemma live_ok:
  "live E snaps s \<Longrightarrow> \<exists>heap. slots_ok E heap (st_eval s) \<and> (\<forall>snap \<in> snaps. lists_ok heap (snapshot_containers snap))"
  unfolding live_def live_in_def using same_refl by blast

definition snapshot_verdict ::
  "unicode_env \<Rightarrow> re_env \<Rightarrow> pfb \<Rightarrow> Snapshot \<Rightarrow> string \<Rightarrow> string \<Rightarrow> string \<Rightarrow> bool \<Rightarrow> DnsblDecision" where
  "snapshot_verdict U E p snap q q0 tld is_cname =
     verdict U E q q0 tld is_cname (evaluate_cfg p snap) (snapshot_containers snap)"

text \<open>Evaluating against a live snapshot: it returns the verdict, and only the prefilter slots and
  the diagnostics change.\<close>

lemma run_evaluate_live:
  assumes "env_ok E" "live E snaps s" "snap \<in> snaps"
  obtains s' where "run_evaluate U E q q0 tld is_cname snap s
      = Inr (snapshot_verdict U E (st_pfb s) snap q q0 tld is_cname, s')"
    "live E snaps s'" "s' = s\<lparr>st_eval := st_eval s'\<rparr>"
proof -
  let ?cf = "evaluate_cfg (st_pfb s) snap" and ?ct = "snapshot_containers snap"
  obtain heap where h: "live_in E heap snaps s" using assms(2) by (auto simp: live_def)
  have ev: "\<exists>es. evaluate_domain U E q q0 tld is_cname ?cf ?ct (st_eval s)
      = Inr (verdict U E q q0 tld is_cname ?cf ?ct, es) \<and> slots_ok E heap' es" if "same_below (st_next_id s) heap heap'" for heap'
    using h that assms(3) evaluate_value [OF assms(1), of heap' ?ct "st_eval s" U q q0 tld is_cname ?cf]
    unfolding live_in_def by blast
  obtain es where es: "evaluate_domain U E q q0 tld is_cname ?cf ?ct (st_eval s)
      = Inr (verdict U E q q0 tld is_cname ?cf ?ct, es)"
    using ev [OF same_refl] by blast
  have "live_in E heap snaps (s\<lparr>st_eval := es\<rparr>)"
    using h ev es unfolding live_in_def by auto
  then show thesis
    using es by (intro that [of "s\<lparr>st_eval := es\<rparr>"]) (auto simp: run_evaluate_def snapshot_verdict_def live_def)
qed

subsection \<open>The built snapshot\<close>

definition snapshot_ok :: "Snapshot \<Rightarrow> bool" where
  "snapshot_ok snap \<longleftrightarrow> block_bands_ok (snapshot_containers snap)
     \<and> list_all (\<lambda>db. distinct (map fst db)) [snd (sn_regex snap), snd (sn_allow_regex snap),
         snd (sn_user_regex snap), snd (sn_user_allow_regex snap)]
     \<and> (sn_important_rules snap \<or> snd (sn_allow_regex snap) = [] \<and> snd (sn_user_allow_regex snap) = []
         \<and> (\<forall>(d, e) \<in> set (sn_white snap). white_entry_band e = prio_user_allow))"

lemma cfg_gates: "gates_ok (evaluate_cfg p snap) (snapshot_containers snap)"
  by (simp add: gates_ok_def evaluate_cfg_def snapshot_containers_def)

lemma user_loop_db:
  "user_regex_loop E cap rs (db, log) = Inr (db', log') \<Longrightarrow> distinct (map fst db) \<Longrightarrow>
    \<forall>p \<in> snd ` set db. re_band p = prio_user_block \<Longrightarrow>
    distinct (map fst db') \<and> (\<forall>p \<in> snd ` set db'. re_band p = prio_user_block)"
proof (induction rs arbitrary: db log)
  case (Cons r rs)
  obtain db1 log1 where s: "user_regex_step E cap r (db, log) = Inr (db1, log1)"
    "user_regex_loop E cap rs (db1, log1) = Inr (db', log')"
    using Cons.prems(1) by (auto split: sum.splits)
  have "db1 = db \<or> (\<exists>name t. db1 = AList.update name
      \<lparr>re_text = t, re_important = False, re_band = prio_user_block\<rparr> db)"
    using s(1) unfolding user_regex_step_def Let_def
    by (simp split: prod.splits sum.splits option.splits if_split_asm) blast+
  then have "distinct (map fst db1) \<and> (\<forall>p \<in> snd ` set db1. re_band p = prio_user_block)"
  proof (elim disjE exE)
    fix name t
    assume e: "db1 = AList.update name \<lparr>re_text = t, re_important = False, re_band = prio_user_block\<rparr> db"
    show ?thesis
      unfolding e by (intro conjI distinct_update [OF Cons.prems(2)] update_ball [OF Cons.prems(3)]) simp
  qed (use Cons.prems in simp)
  then show ?case using Cons.IH [OF s(2)] by blast
qed auto

lemma user_regex_db:
  "dnsbl_compile_user_regex E entries cap d = Inr (db, d') \<Longrightarrow>
    distinct (map fst db) \<and> (\<forall>p \<in> snd ` set db. re_band p = prio_user_block)"
  using user_loop_db [where db = "[]"]
  by (fastforce simp: dnsbl_compile_user_regex_def split: sum.splits prod.splits)

lemma reload_regex_db:
  assumes "reload_user_regex E cap disk d = (db, d')"
  shows "distinct (map fst db) \<and> (\<forall>p \<in> snd ` set db. re_band p = prio_user_block)"
proof (cases "db = []")
  case False
  then obtain entries where "rd_ini disk = Some (Inr entries)" "dnsbl_compile_user_regex E entries cap d = Inr (db, d')"
    using assms by (auto simp: reload_user_regex_def Let_def split: option.splits sum.splits prod.splits)
  then show ?thesis using user_regex_db by blast
qed simp

lemma dict_update_distinct: "distinct (map fst d) \<Longrightarrow> distinct (map fst (dict_update new d))"
  unfolding dict_update_def by (induction new arbitrary: d) (auto simp: distinct_update split: prod.split)

lemma dict_update_ball:
  "\<forall>v \<in> snd ` set d. P v \<Longrightarrow> \<forall>v \<in> snd ` set new. P v \<Longrightarrow> \<forall>v \<in> snd ` set (dict_update new d). P v"
  unfolding dict_update_def
proof (induction new arbitrary: d)
  case (Cons x xs)
  obtain k v where x: "x = (k, v)" by (cases x)
  have "P v" using Cons.prems(2) x by simp
  then have "\<forall>v \<in> snd ` set (AList.update k v d). P v" by (rule update_ball [OF Cons.prems(1)])
  from Cons.IH [OF this] Cons.prems(2) show ?case by (simp add: x)
qed simp

lemma built_frame:
  assumes "build_swap_snapshot E disk (Some r) s = (snap, s')"
  shows "\<exists>d. s' = s\<lparr>st_next_gen := st_next_gen s + 1, st_next_id := st_next_id s + 4,
    st_eval := (st_eval s)\<lparr>es_diag := d\<rparr>\<rparr>" and "\<exists>v. snap = Some v \<and> sn_gen v = st_next_gen s"
  using assms by (auto simp: build_swap_snapshot_def Let_def split: prod.splits)

lemma built_lists:
  assumes "result_ok r" "build_swap_snapshot E disk (Some r) s = (Some snap, s')"
  shows "sn_regex snap = (st_next_id s, br_regex r) \<and> sn_allow_regex snap = (st_next_id s + 1, br_allow_regex r)
    \<and> fst (sn_user_regex snap) = st_next_id s + 2 \<and> sn_user_allow_regex snap = (st_next_id s + 3, br_user_allow_regex r)
    \<and> sn_data snap = br_data r \<and> sn_zone snap = br_zone r \<and> sn_white snap = br_white r
    \<and> (br_important_rules r \<longrightarrow> sn_important_rules snap)
    \<and> (snd (sn_user_regex snap) \<noteq> [] \<longrightarrow> sn_important_rules snap)
    \<and> (\<not> br_important_rules r \<and> snd (sn_user_regex snap) = [] \<longrightarrow> \<not> sn_important_rules snap)
    \<and> distinct (map fst (snd (sn_user_regex snap)))
    \<and> (\<forall>p \<in> snd ` set (snd (sn_user_regex snap)). re_band p \<in> {1..prio_user_block})"
proof -
  obtain ini d where i: "reload_user_regex E (p_regex_cap (st_pfb s)) disk (es_diag (st_eval s)) = (ini, d)" by fastforce
  have ini: "distinct (map fst ini)" "\<forall>p \<in> snd ` set ini. re_band p = prio_user_block"
    using reload_regex_db [OF i] by simp_all
  have b: "\<forall>p \<in> snd ` set ini. re_band p \<in> {1..prio_user_block}"
    using ini(2) by (simp add: prio_user_block_def)
  have u: "\<forall>p \<in> snd ` set (br_user_regex r). re_band p \<in> {1..prio_user_block}"
    using assms(1) by (fastforce simp: result_ok_def simp del: atLeastAtMost_iff)
  have dist: "distinct (map fst (dict_update (br_user_regex r) ini))" by (rule dict_update_distinct [OF ini(1)])
  have bands: "\<forall>p \<in> snd ` set (dict_update (br_user_regex r) ini). re_band p \<in> {1..prio_user_block}"
    by (rule dict_update_ball [OF b u])
  obtain hs d2 where h: "reload_hsts (p_python_hsts (st_pfb s)) disk d = (hs, d2)" by fastforce
  have "snd (sn_user_regex snap) = dict_update (br_user_regex r) ini"
    using assms(2) by (auto simp: build_swap_snapshot_def Let_def i h)
  then show ?thesis
    using assms(2) dist bands by (auto simp: build_swap_snapshot_def Let_def i h simp del: atLeastAtMost_iff)
qed

lemma built_snapshot_ok:
  assumes "result_ok r" "build_swap_snapshot E disk (Some r) s = (Some snap, s')"
  shows "snapshot_ok snap"
proof -
  note l = built_lists [OF assms]
  note ok = assms(1) [unfolded result_ok_def]
  obtain n where n: "(\<forall>i. map_of (br_feed_group_index r) i \<noteq> None \<longleftrightarrow> i < n)
      \<and> (\<forall>p \<in> snd ` set (br_data r). payload_ok n p) \<and> (\<forall>e \<in> snd ` set (br_zone r). zone_ok n e)"
    using conjunct1 [OF ok] by (elim exE)
  note w = conjunct1 [OF conjunct2 [OF ok]] and rx = conjunct1 [OF conjunct2 [OF conjunct2 [OF ok]]]
  have data: "list_all (\<lambda>(d, e). pl_band e \<in> {1..prio_user_block}) (br_data r)"
    using conjunct1 [OF conjunct2 [OF n]] by (auto simp: list_all_iff payload_ok_def)
  have zone: "list_all (\<lambda>(d, e). pl_band e \<in> {1..prio_user_block}
      \<and> (\<forall>f. z_fallback e = Some f \<longrightarrow> pl_band f \<in> {1..prio_user_block})) (br_zone r)"
    using conjunct2 [OF conjunct2 [OF n]] by (fastforce simp: list_all_iff zone_ok_def payload_ok_def fallback_ok_def split: option.splits)
  have regex: "list_all (\<lambda>(k, r). re_band r \<in> {1..prio_user_block}) (br_regex r @ snd (sn_user_regex snap))"
    using rx l by (fastforce simp: list_all_iff simp del: atLeastAtMost_iff)
  have fast: "sn_important_rules snap \<or> br_allow_regex r = [] \<and> br_user_allow_regex r = []
      \<and> (\<forall>(d, e) \<in> set (br_white r). white_entry_band e = prio_user_allow)"
  proof (cases "br_important_rules r")
    case False
    then have "\<forall>(d, e) \<in> set (br_white r). white_entry_band e = prio_user_allow"
      using w by (auto simp: allow_ok_def)
    then show ?thesis using False assms(1) by (simp add: result_ok_def)
  qed (use l in simp)
  have "block_bands_ok (snapshot_containers snap)"
    unfolding block_bands_ok_def snapshot_containers_def containers.simps using data zone regex l by simp
  moreover have "list_all (\<lambda>db. distinct (map fst db)) [br_regex r, br_allow_regex r, br_user_allow_regex r]"
    using assms(1) by (simp add: result_ok_def)
  ultimately show ?thesis
    unfolding snapshot_ok_def using fast l by simp
qed

lemma built_live:
  assumes "result_ok r" "build_swap_snapshot E disk (Some r) s = (Some snap, s')" "live E snaps s"
  shows "live E (insert snap snaps) s'"
proof -
  note l = built_lists [OF assms(1,2)]
  let ?n = "st_next_id s"
  obtain d where s': "s' = s\<lparr>st_next_gen := st_next_gen s + 1, st_next_id := ?n + 4,
      st_eval := (st_eval s)\<lparr>es_diag := d\<rparr>\<rparr>" using built_frame(1) [OF assms(2)] by blast
  obtain heap where h: "live_in E heap snaps s" using assms(3) by (auto simp: live_def)
  let ?heap = "heap(?n := snd (sn_regex snap), ?n + 1 := snd (sn_allow_regex snap),
    ?n + 2 := snd (sn_user_regex snap), ?n + 3 := snd (sn_user_allow_regex snap))"
  have "slots_ok E heap' ((st_eval s)\<lparr>es_diag := d\<rparr>) \<and> (\<forall>v \<in> insert snap snaps. lists_ok heap' (snapshot_containers v))"
    if same: "same_below (?n + 4) ?heap heap'" for heap'
  proof -
    have old: "same_below ?n heap heap'" using same by (simp add: same_below_def)
    have "lists_ok heap' (snapshot_containers snap)"
      using same l assms(1) by (auto simp: lists_ok_def snapshot_containers_def same_below_def result_ok_def)
    then show ?thesis using h old by (simp add: live_in_def slots_ok_def)
  qed
  then show ?thesis unfolding live_def live_in_def s' by (intro exI [of _ ?heap]) simp
qed

lemma snapshot_live_verdict:
  assumes "env_ok E" "snapshot_ok snap" "live E {snap} s"
  shows "is_block (snapshot_verdict U E p snap q q0 tld is_cname) \<longleftrightarrow>
    h_found (discovered U E q tld (evaluate_cfg p snap) (snapshot_containers snap))
    \<and> (\<exists>b \<in> insert (h_band (discovered U E q tld (evaluate_cfg p snap) (snapshot_containers snap)))
          (set (block_bands E q (snapshot_containers snap))).
        \<forall>a \<in> set (allow_bands E q q0 is_cname (p_python_tld_seg p) (snapshot_containers snap)). a < b)"
proof -
  let ?cf = "evaluate_cfg p snap" and ?ct = "snapshot_containers snap"
  obtain heap where "lists_ok heap ?ct" using live_ok [OF assms(3)] by blast
  moreover have "block_bands_ok ?ct" using assms(2) by (simp add: snapshot_ok_def)
  moreover have "cf_important_rules ?cf \<or> snd (ct_allow_regex ?ct) = [] \<and> snd (ct_user_allow_regex ?ct) = []
      \<and> (\<forall>(d, e) \<in> set (ct_white ?ct). white_entry_band e = prio_user_allow)"
    using assms(2) by (simp add: snapshot_ok_def snapshot_containers_def evaluate_cfg_def)
  moreover have "cf_python_tld_seg ?cf = p_python_tld_seg p" by (simp add: evaluate_cfg_def)
  ultimately show ?thesis
    using verdict_bands [OF assms(1) _ cfg_gates [of p snap], where heap = heap and U = U and q = q
      and q0 = q0 and tld = tld and is_cname = is_cname]
    by (auto simp: is_block_def snapshot_verdict_def verdict_fields(1) not_le)
qed

lemma query_answer_live:
  assumes "env_ok E" "live E {snap} s" "st_snapshot s = Some snap"
  obtains ans s2 where "dnsbl_query_answer U E domain s = Inr (ans, s2)"
    "qa_blocked ans \<longleftrightarrow> is_block (snapshot_verdict U E (st_pfb s) snap (lower (rstrip_dots domain))
      (lower (rstrip_dots domain)) (get_tld_from_name (lower (rstrip_dots domain))) False)"
proof -
  let ?q = "lower (rstrip_dots domain)"
  obtain s1 where s1: "run_evaluate U E ?q ?q (get_tld_from_name ?q) False snap s
      = Inr (snapshot_verdict U E (st_pfb s) snap ?q ?q (get_tld_from_name ?q) False, s1)"
    using run_evaluate_live [OF assms(1,2), of snap U ?q ?q "get_tld_from_name ?q" False] by blast
  obtain ref s2 where s2: "decision_for ?q (sn_gen snap) s1 = (ref, s2)" by fastforce
  have "dnsbl_query_answer U E domain s
      = Inr (answer_of (snapshot_verdict U E (st_pfb s) snap ?q ?q (get_tld_from_name ?q) False),
          set_dnsbl ref (snapshot_verdict U E (st_pfb s) snap ?q ?q (get_tld_from_name ?q) False) s2)"
    using s1 s2 by (simp add: dnsbl_query_answer_def assms(3) Let_def)
  then show thesis by (rule that) (rule answer_blocked)
qed

lemma open_stats_frame [simp]:
  "st_snapshot (open_dnsbl_stats_db_if_wanted opened s) = st_snapshot s"
  "st_cache (open_dnsbl_stats_db_if_wanted opened s) = st_cache s"
  "st_heap (open_dnsbl_stats_db_if_wanted opened s) = st_heap s"
  "st_next_gen (open_dnsbl_stats_db_if_wanted opened s) = st_next_gen s"
  "st_next_id (open_dnsbl_stats_db_if_wanted opened s) = st_next_id s"
  "d_warned (es_diag (st_eval (open_dnsbl_stats_db_if_wanted opened s))) = d_warned (es_diag (st_eval s))"
  "p_python_blacklist (st_pfb (open_dnsbl_stats_db_if_wanted opened s)) = p_python_blacklist (st_pfb s)"
  "p_reload_applied (st_pfb (open_dnsbl_stats_db_if_wanted opened s)) = p_reload_applied (st_pfb s)"
  "st_files (open_dnsbl_stats_db_if_wanted opened s) = st_files s"
  by (simp_all add: open_dnsbl_stats_db_if_wanted_def stderr_def write_line_def Let_def)

lemma emit_counts_frame [simp]:
  "st_snapshot (emit_counts_of snap s) = st_snapshot s" "st_cache (emit_counts_of snap s) = st_cache s"
  "st_heap (emit_counts_of snap s) = st_heap s" "st_next_gen (emit_counts_of snap s) = st_next_gen s"
  "st_pfb (emit_counts_of snap s) = st_pfb s" "st_eval (emit_counts_of snap s) = st_eval s"
  by (simp_all add: emit_counts_of_def write_file_def Let_def split: option.split)

lemma memo_of_cleared: "lc_d (st_cache s) = [] \<Longrightarrow> fst (memo_verdict name g s) = None"
  by (simp add: memo_verdict_def decision_fetch_def lru_get_def)

lemma swap_frame:
  assumes "build_swap_snapshot E disk (Some r) s = (Some snap, s1)"
    and "rebuild_and_swap opened (reload_builder E disk (Some r)) counts s = (ok, s')"
  shows "ok" "st_snapshot s' = Some snap" "lc_d (st_cache s') = []" "st_heap s' = st_heap s"
    "st_next_gen s' = st_next_gen s + 1" "d_warned (es_diag (st_eval s')) = []"
    "p_python_blacklist (st_pfb s') = (p_python_blacklist (st_pfb s) \<or> has_strata snap)"
proof -
  obtain d where s1: "s1 = s\<lparr>st_next_gen := st_next_gen s + 1, st_next_id := st_next_id s + 4,
      st_eval := (st_eval s)\<lparr>es_diag := d\<rparr>\<rparr>" using built_frame(1) [OF assms(1)] by blast
  let ?s = "clear_regex_warned (clear_memo (install_snapshot snap s1))"
  let ?g = "if has_strata snap then ?s\<lparr>st_pfb := (st_pfb ?s)\<lparr>p_python_blacklist := True\<rparr>\<rparr> else ?s"
  have e: "(ok, s') = (True, if counts then emit_counts_of snap (open_dnsbl_stats_db_if_wanted opened ?g)
      else open_dnsbl_stats_db_if_wanted opened ?g)"
    using assms by (simp add: rebuild_and_swap_def reload_builder_def Let_def)
  have g: "st_snapshot ?g = Some snap" "lc_d (st_cache ?g) = []" "st_heap ?g = st_heap s"
    "st_next_gen ?g = st_next_gen s + 1" "d_warned (es_diag (st_eval ?g)) = []"
    "p_python_blacklist (st_pfb ?g) = (p_python_blacklist (st_pfb s) \<or> has_strata snap)"
    by (simp_all add: s1 clear_regex_warned_def clear_memo_def install_snapshot_def lru_clear_def)
  show "ok" "st_snapshot s' = Some snap" "lc_d (st_cache s') = []" "st_heap s' = st_heap s"
    "st_next_gen s' = st_next_gen s + 1" "d_warned (es_diag (st_eval s')) = []"
    "p_python_blacklist (st_pfb s') = (p_python_blacklist (st_pfb s) \<or> has_strata snap)"
    using e g by (simp_all del: if_split split: if_split_asm)
qed

subsection \<open>Properties\<close>

definition sample_pfb :: pfb where
  "sample_pfb = \<lparr>p_python_blacklist = True, p_python_blocking = True, p_tld_allow = False,
     p_tld_allow_list = None, p_dnsbl_ipv4 = ''10.10.10.1'', p_dnsbl_ipv6 = ''::10.10.10.1'',
     p_python_idn = False, p_idn_mode = Raw_absent, p_idn_block_malicious = None,
     p_idn_escalate_suspicious = None, p_regex_warn_ms = 50, p_python_tld_seg = 2, p_hsts_tlds = [],
     p_python_hsts = True, p_regex_cap = False, p_psl_include_private = None,
     p_psl_allow_private = None, p_private_policy = None, p_icann_policy = None, p_forwarding = None,
     p_mod_sqlite3 = True, p_sqlite3_dnsbl_con = False, p_reload_applied = Some ''applied'',
     p_reject_stats = None\<rparr>"

definition sample_state :: state where
  "sample_state = \<lparr>st_pfb = sample_pfb, st_snapshot = None, st_next_gen = 1, st_next_id = 0,
     st_cache = lru_new 2, st_heap = [], st_eval = sample_st, st_files = [], st_log = []\<rparr>"

definition sample_disk :: reload_disk where
  "sample_disk = \<lparr>rd_ini = Some (Inr [(''own'', ''ads'')]), rd_hsts = Some ([''# list'', '' bank.com ''], None),
     rd_hsts_path = ''hsts''\<rparr>"

lemma sample_live: "live sample_env {} sample_state"
  by (simp add: live_def live_in_def sample_state_def sample_st_def slots_ok_def slot_ok_def)

text \<open>C17. From the manifest to the answer: for a snapshot made from a returned build and the reload
  files, the query channel answers every domain, and says it is blocked exactly when a rule found it
  and some matching block outranks every matching allow - whichever of the two resolution paths
  the build selected.\<close>

theorem manifest_to_answer:
  assumes "env_ok E" "build U E feeds config line_reader en ls d = Inr (r, d')" "live E {} s"
    and "build_swap_snapshot E disk (Some r) s = (Some snap, s')"
  shows "\<exists>ans s2. dnsbl_query_answer U E domain (install_snapshot snap s') = Inr (ans, s2)
    \<and> (let q = lower (rstrip_dots domain); ct = snapshot_containers snap;
           h = discovered U E q (get_tld_from_name q) (evaluate_cfg (st_pfb s) snap) ct in
       qa_blocked ans \<longleftrightarrow> h_found h \<and> (\<exists>b \<in> insert (h_band h) (set (block_bands E q ct)).
         \<forall>a \<in> set (allow_bands E q q False (p_python_tld_seg (st_pfb s)) ct). a < b))"
proof -
  note r = build_returned_ok [OF assms(2)]
  have "live E {snap} s'" using built_live [OF r assms(4,3)] .
  then have l: "live E {snap} (install_snapshot snap s')"
    by (rule live_same) (simp_all add: install_snapshot_def)
  have p: "st_pfb (install_snapshot snap s') = st_pfb s"
    using built_frame(1) [OF assms(4)] by (auto simp: install_snapshot_def)
  have i: "st_snapshot (install_snapshot snap s') = Some snap" by (simp add: install_snapshot_def)
  show ?thesis
    using query_answer_live [OF assms(1) l i, of U domain]
      snapshot_live_verdict [OF assms(1) built_snapshot_ok [OF r assms(4)] l]
    unfolding p Let_def by metis
qed

theorem manifest_to_answer_witness:
  "\<exists>r d snap s' ans s2. build plain_unicode sample_env [sample_row] sample_config sample_reader True [''top.com'']
      sample_diag = Inr (r, d)
    \<and> build_swap_snapshot sample_env sample_disk (Some r) sample_state = (Some snap, s')
    \<and> dnsbl_query_answer plain_unicode sample_env ''bad.org.'' (install_snapshot snap s') = Inr (ans, s2)"
proof -
  obtain r d where b: "build plain_unicode sample_env [sample_row] sample_config sample_reader True [''top.com'']
      sample_diag = Inr (r, d)" using sample_build by blast
  obtain snap s' where v: "build_swap_snapshot sample_env sample_disk (Some r) sample_state = (Some snap, s')"
    using built_frame(2) by (metis surj_pair)
  from manifest_to_answer [OF sample_env_ok b sample_live v, of "''bad.org.''"] b v show ?thesis by blast
qed


subsection \<open>The applied markers\<close>

fun applied_markers :: "emission_file list \<Rightarrow> int list" where
  "applied_markers [] = []"
| "applied_markers (Applied_marker m # fs) = m # applied_markers fs"
| "applied_markers (f # fs) = applied_markers fs"

text \<open>Every marker has a publication of new counts between it and the marker before.\<close>

fun markers_follow_swaps :: "bool \<Rightarrow> emission_file list \<Rightarrow> bool" where
  "markers_follow_swaps swapped [] = True"
| "markers_follow_swaps swapped (Applied_marker m # fs) = (swapped \<and> markers_follow_swaps False fs)"
| "markers_follow_swaps swapped (Count_file n # fs) = markers_follow_swaps True fs"
| "markers_follow_swaps swapped (f # fs) = markers_follow_swaps swapped fs"

lemma markers_append [simp]: "applied_markers (fs @ gs) = applied_markers fs @ applied_markers gs"
  by (induction fs rule: applied_markers.induct) simp_all

lemma follow_mono: "markers_follow_swaps b fs \<Longrightarrow> markers_follow_swaps True fs"
  by (induction b fs rule: markers_follow_swaps.induct) simp_all

lemma follow_append:
  "markers_follow_swaps b fs \<Longrightarrow> markers_follow_swaps False gs \<Longrightarrow> markers_follow_swaps b (fs @ gs)"
proof (induction b fs rule: markers_follow_swaps.induct)
  case (1 b)
  then show ?case using follow_mono by (cases b) auto
qed simp_all

text \<open>What a step publishes: no marker, and after a success a marker may follow.\<close>

definition publishes :: "bool \<Rightarrow> state \<Rightarrow> state \<Rightarrow> bool" where
  "publishes swapped s s' \<longleftrightarrow> p_reload_applied (st_pfb s') = p_reload_applied (st_pfb s) \<and>
    (\<exists>fs. st_files s' = st_files s @ fs \<and> applied_markers fs = [] \<and> markers_follow_swaps False fs
      \<and> (swapped \<longrightarrow> (\<forall>m gs. markers_follow_swaps False gs \<longrightarrow> markers_follow_swaps False (fs @ Applied_marker m # gs))))"

lemma publishes_none: "st_files s' = st_files s \<Longrightarrow> p_reload_applied (st_pfb s') = p_reload_applied (st_pfb s) \<Longrightarrow>
    publishes False s s'"
  unfolding publishes_def by (intro conjI exI [of _ "[]"]) simp_all

lemma log_info_frame [simp]:
  "st_files (log_info l s) = st_files s" "st_pfb (log_info l s) = st_pfb s"
  by (simp_all add: log_info_def)

lemma swap_publishes:
  assumes "rebuild_and_swap opened (reload_builder E disk result) True s = (ok, s')"
  shows "publishes ok s s'"
proof (cases result)
  case None
  then show ?thesis
    using assms publishes_none [of s' s] by (simp add: rebuild_and_swap_def reload_builder_def build_swap_snapshot_def)
next
  case (Some r)
  obtain snap0 s1 where b: "build_swap_snapshot E disk (Some r) s = (snap0, s1)" by fastforce
  obtain snap where snap: "snap0 = Some snap" using built_frame(2) [OF b] by blast
  obtain d where s1: "s1 = s\<lparr>st_next_gen := st_next_gen s + 1, st_next_id := st_next_id s + 4,
      st_eval := (st_eval s)\<lparr>es_diag := d\<rparr>\<rparr>" using built_frame(1) [OF b] by blast
  obtain u where u: "(ok, s') = (True, emit_counts_of snap u)" "st_files u = st_files s"
      "p_reload_applied (st_pfb u) = p_reload_applied (st_pfb s)"
    using assms by (auto simp: rebuild_and_swap_def reload_builder_def Some b snap Let_def s1 clear_regex_warned_def
        clear_memo_def install_snapshot_def)
  have "\<exists>fs. st_files s' = st_files s @ [Count_file (sn_counts snap), Regex_count_file (sn_regex_count snap)] @ fs
      \<and> (fs = [] \<or> (\<exists>r. fs = [Reject_stats r]))"
    using u by (auto simp: emit_counts_of_def write_file_def Let_def split: option.split)
  then show ?thesis using u by (auto simp: publishes_def)
qed

lemma run_swap_publishes:
  assumes "reload_run_swap E t s = (ok, s')"
  shows "publishes ok s s'"
proof -
  obtain ok2 s2 where rb: "rebuild_and_swap (rt_opened t) (reload_builder E (rt_disk t) (rt_result t)) True s = (ok2, s2)"
    by fastforce
  have p: "publishes ok2 s s2" by (rule swap_publishes [OF rb])
  obtain l1 l2 where "(ok, s') = (False, log_info l1 s) \<or> (ok, s') = (ok2, if ok2 then log_info l2 s2 else s2)"
    using assms unfolding reload_run_swap_def Let_def rb
    by (cases "reload_ram_gate_ok (rt_total_ram t)
        (int (case st_snapshot s of None \<Rightarrow> 0 | Some snap \<Rightarrow> sn_counts snap + sn_regex_count snap))"; cases ok2) auto
  then show ?thesis
    using p publishes_none [of "log_info l1 s" s] by (auto simp: publishes_def)
qed

lemma write_applied_files:
  "p_reload_applied (st_pfb (reload_write_applied failure g s)) = p_reload_applied (st_pfb s)
   \<and> (st_files (reload_write_applied failure g s) = st_files s
      \<or> st_files (reload_write_applied failure g s) = st_files s @ [Applied_marker g])"
  by (simp add: reload_write_applied_def write_file_def stderr_def split: option.split)

text \<open>What a stretch of the watcher adds to the files, from one generation to a later one.\<close>

definition advances :: "int option \<Rightarrow> int option \<Rightarrow> emission_file list \<Rightarrow> bool" where
  "advances g g' fs \<longleftrightarrow> markers_follow_swaps False fs \<and> sorted_wrt (<) (applied_markers fs)
     \<and> (\<forall>m \<in> set (applied_markers fs). (g = None \<or> the g < m) \<and> g' \<noteq> None \<and> m \<le> the g')
     \<and> (g = None \<or> g' \<noteq> None \<and> the g \<le> the g')"

lemma advances_refl: "advances g g []"
  by (auto simp: advances_def)

lemma advances_trans: "advances g g' fs \<Longrightarrow> advances g' g'' gs \<Longrightarrow> advances g g'' (fs @ gs)"
  unfolding advances_def by (auto simp: sorted_wrt_append intro: follow_append) fastforce+

lemma turn_advances:
  assumes "reload_run_swap E t s = (ok, s1)" "g = None \<or> the g < cur"
    and "s' = (if ok then reload_write_applied (rt_marker_failure t) cur s1 else s1)"
  shows "\<exists>fs. st_files s' = st_files s @ fs \<and> advances g (Some cur) fs"
proof -
  obtain fs where fs: "st_files s1 = st_files s @ fs" "applied_markers fs = []" "markers_follow_swaps False fs"
    "ok \<longrightarrow> (\<forall>m gs. markers_follow_swaps False gs \<longrightarrow> markers_follow_swaps False (fs @ Applied_marker m # gs))"
    using run_swap_publishes [OF assms(1)] by (auto simp: publishes_def)
  have cur: "g = None \<or> the g \<le> cur" using assms(2) by auto
  show ?thesis
  proof (cases "ok \<and> st_files s' = st_files s1 @ [Applied_marker cur]")
    case True
    then have "st_files s' = st_files s @ (fs @ [Applied_marker cur])" using fs(1) by simp
    moreover have "advances g (Some cur) (fs @ [Applied_marker cur])"
      using True fs(2,4) assms(2) cur by (auto simp: advances_def)
    ultimately show ?thesis by blast
  next
    case False
    then have "st_files s' = st_files s1"
      using assms(3) write_applied_files [of "rt_marker_failure t" cur s1] by auto
    then show ?thesis using fs cur by (auto simp: advances_def)
  qed
qed

lemma drain_advances:
  "reload_drain E ts g s = (g', s') \<Longrightarrow> \<exists>fs. st_files s' = st_files s @ fs \<and> advances g g' fs"
proof (induction ts arbitrary: g s)
  case (Cons t ts)
  show ?case
  proof (cases "rt_stop t \<or> rt_gen t = None \<or> (\<exists>a. g = Some a \<and> the (rt_gen t) \<le> a)")
    case True
    then have "g' = g \<and> s' = s" using Cons.prems by (cases "rt_stop t") (auto split: option.splits)
    then show ?thesis using advances_refl by auto
  next
    case False
    obtain cur where "rt_gen t = Some cur" using False by (cases "rt_gen t") auto
    with False have cur: "rt_gen t = Some cur" "\<not> rt_stop t" "g = None \<or> the g < cur" by (cases g; simp)+
    obtain ok s1 where sw: "reload_run_swap E t s = (ok, s1)" by fastforce
    let ?s2 = "if ok then reload_write_applied (rt_marker_failure t) cur s1 else s1"
    have "reload_drain E ts (Some cur) ?s2 = (g', s')"
      using Cons.prems cur by (auto simp: sw split: option.splits bool.splits if_splits)
    then obtain gs where gs: "st_files s' = st_files ?s2 @ gs" "advances (Some cur) g' gs"
      using Cons.IH by blast
    obtain fs where fs: "st_files ?s2 = st_files s @ fs" "advances g (Some cur) fs"
      using turn_advances [OF sw cur(3) refl] by blast
    have "st_files s' = st_files s @ (fs @ gs)" using gs(1) fs(1) by simp
    then show ?thesis using advances_trans [OF fs(2) gs(2)] by blast
  qed
qed (auto intro: advances_refl)

lemma wakes_advance:
  "fold (\<lambda>turns (g, s). reload_drain E turns g s) wakes (g, s) = (g', s') \<Longrightarrow>
    \<exists>fs. st_files s' = st_files s @ fs \<and> advances g g' fs"
proof (induction wakes arbitrary: g s)
  case (Cons turns wakes)
  obtain g1 s1 where d: "reload_drain E turns g s = (g1, s1)" by fastforce
  obtain fs where fs: "st_files s1 = st_files s @ fs" "advances g g1 fs" using drain_advances [OF d] by blast
  obtain gs where gs: "st_files s' = st_files s1 @ gs" "advances g1 g' gs"
    using Cons.IH [of g1 s1] Cons.prems by (auto simp: d)
  have "st_files s' = st_files s @ (fs @ gs)" using fs(1) gs(1) by simp
  then show ?case using advances_trans [OF fs(2) gs(2)] by blast
qed (auto intro: advances_refl)

text \<open>C19. The handshake with PHP: over any number of wakes, failed builds, RAM declines and failed
  marker writes, the applied generations the watcher publishes after its baseline strictly
  increase, lie between the baseline and the last generation seen, and each is preceded by the
  publication of a swap made since the marker before it: no generation is announced twice or
  without its lists being live.\<close>

theorem reload_markers:
  "let s0 = reload_write_applied failure b s; (g, s') = reload_watcher E (Some b) failure wakes s;
       fs = drop (length (st_files s0)) (st_files s') in
     take (length (st_files s0)) (st_files s') = st_files s0
     \<and> markers_follow_swaps False fs \<and> sorted_wrt (<) (applied_markers fs)
     \<and> list_all (\<lambda>m. b < m \<and> m \<le> the g) (applied_markers fs)"
proof -
  obtain g s' where w: "reload_watcher E (Some b) failure wakes s = (g, s')" by fastforce
  let ?s0 = "reload_write_applied failure b s"
  obtain fs where fs: "st_files s' = st_files ?s0 @ fs" "advances (Some b) g fs"
    using wakes_advance [of E wakes "Some b" ?s0 g s'] w by (auto simp: reload_watcher_def)
  show ?thesis unfolding Let_def w prod.case using fs by (simp add: advances_def list_all_iff)
qed

end
