(* ===== verification/Workers.thy ===== *)
theory Workers
  imports SwapPolicy
begin

text \<open>
  The query workers and the reload thread, interleaved.  A worker captures the live snapshot, looks
  a name up in \<open>decisionDB\<close> and reads the decision it got, or evaluates the name and writes the
  verdict through \<open>_decision_for\<close>; every access to the memo, to a decision and to the module's
  references is a step of its own, so any other thread may run between two of them.
\<close>

subsection \<open>Steps\<close>

datatype fill = Fill_dnsbl DnsblDecision | Fill_noaaaa bool | Fill_safesearch "safesearch option"

fun apply_fill :: "fill \<Rightarrow> nat \<Rightarrow> state \<Rightarrow> state" where
  "apply_fill (Fill_dnsbl d) ref s = set_dnsbl ref d s"
| "apply_fill (Fill_noaaaa b) ref s = set_noaaaa ref b s"
| "apply_fill (Fill_safesearch e) ref s = set_safesearch ref e s"

text \<open>Where a worker is, with the snapshot it captured: between names, holding what \<open>decisionDB.get\<close>
  returned, serving a memoised verdict, about to call \<open>_decision_for\<close>, inside it, about to write.\<close>

datatype worker = Idle
  | Captured Snapshot
  | Looked Snapshot string "nat option"
  | Served Snapshot string DnsblDecision
  | Evaluated Snapshot string fill
  | Fetched Snapshot string fill "nat option"
  | Settled Snapshot string nat fill

text \<open>\<open>sy_pending\<close> is the snapshot the reload thread has built and not yet bound; \<open>sy_built\<close> records
  every snapshot ever built.\<close>

record system =
  sy_state :: state
  sy_workers :: "nat \<Rightarrow> worker"
  sy_pending :: "Snapshot option"
  sy_built :: "Snapshot list"

definition at :: "nat \<Rightarrow> worker \<Rightarrow> state \<Rightarrow> system \<Rightarrow> system" where
  "at i w s y = y\<lparr>sy_state := s, sy_workers := (sy_workers y)(i := w)\<rparr>"

definition memo_name :: "string \<Rightarrow> string \<Rightarrow> bool \<Rightarrow> DnsblDecision \<Rightarrow> string" where
  "memo_name q q0 is_cname d = (if is_block d \<and> is_cname then q0 else q)"

inductive step :: "unicode_env \<Rightarrow> re_env \<Rightarrow> system \<Rightarrow> system \<Rightarrow> bool" for U E where
  capture: "sy_workers y i = Idle \<Longrightarrow> st_snapshot (sy_state y) = Some snap \<Longrightarrow>
    step U E y (at i (Captured snap) (sy_state y) y)"
| leave: "sy_workers y i \<in> {Captured snap, Served snap name d} \<Longrightarrow> step U E y (at i Idle (sy_state y) y)"
| look: "sy_workers y i = Captured snap \<Longrightarrow> decision_fetch name (sy_state y) = (r, s) \<Longrightarrow>
    step U E y (at i (Looked snap name r) s y)"
| serve: "sy_workers y i = Looked snap name (Some r) \<Longrightarrow>
    de_snap_gen (st_heap (sy_state y) ! r) = sn_gen snap \<Longrightarrow>
    de_dnsbl (st_heap (sy_state y) ! r) = Some d \<Longrightarrow> step U E y (at i (Served snap name d) (sy_state y) y)"
| miss: "sy_workers y i \<in> {Looked snap name r, Served snap name d} \<Longrightarrow>
    step U E y (at i (Captured snap) (sy_state y) y)"
| evaluate: "sy_workers y i = Captured snap \<Longrightarrow>
    run_evaluate U E q q0 tld is_cname snap (sy_state y) = Inr (d, s) \<Longrightarrow>
    step U E y (at i (Evaluated snap (memo_name q q0 is_cname d) (Fill_dnsbl d)) s y)"
| other_axis: "sy_workers y i = Captured snap \<Longrightarrow> f \<in> {Fill_noaaaa b, Fill_safesearch e} \<Longrightarrow>
    step U E y (at i (Evaluated snap name f) (sy_state y) y)"
| fetch: "sy_workers y i = Evaluated snap name f \<Longrightarrow> decision_fetch name (sy_state y) = (r, s) \<Longrightarrow>
    step U E y (at i (Fetched snap name f r) s y)"
| settle: "sy_workers y i = Fetched snap name f r \<Longrightarrow>
    decision_settle name (sn_gen snap) r (sy_state y) = (ref, s) \<Longrightarrow>
    step U E y (at i (Settled snap name ref f) s y)"
| fill: "sy_workers y i = Settled snap name ref f \<Longrightarrow>
    step U E y (at i (Captured snap) (apply_fill f ref (sy_state y)) y)"
| build: "sy_pending y = None \<Longrightarrow> result_ok r \<Longrightarrow>
    build_swap_snapshot E disk (Some r) (sy_state y) = (Some snap, s) \<Longrightarrow>
    step U E y (y\<lparr>sy_state := s, sy_pending := Some snap, sy_built := snap # sy_built y\<rparr>)"
| install: "sy_pending y = Some snap \<Longrightarrow>
    step U E y (y\<lparr>sy_state := install_snapshot snap (sy_state y), sy_pending := None\<rparr>)"
| clear: "step U E y (y\<lparr>sy_state := clear_memo (sy_state y)\<rparr>)"
| unwarn: "step U E y (y\<lparr>sy_state := clear_regex_warned (sy_state y)\<rparr>)"
| gate: "step U E y (y\<lparr>sy_state := (sy_state y)\<lparr>st_pfb := (st_pfb (sy_state y))\<lparr>p_python_blacklist := b\<rparr>\<rparr>\<rparr>)"

definition start :: "state \<Rightarrow> system" where
  "start s = \<lparr>sy_state = s, sy_workers = (\<lambda>_. Idle), sy_pending = None, sy_built = []\<rparr>"

definition fresh_state :: "re_env \<Rightarrow> state \<Rightarrow> bool" where
  "fresh_state E s \<longleftrightarrow> live E {} s \<and> st_snapshot s = None \<and> lc_d (st_cache s) = [] \<and> st_heap s = []"

inductive reachable :: "unicode_env \<Rightarrow> re_env \<Rightarrow> state \<Rightarrow> system \<Rightarrow> bool" for U E s0 where
  init: "reachable U E s0 (start s0)"
| more: "reachable U E s0 y \<Longrightarrow> step U E y y' \<Longrightarrow> reachable U E s0 y'"

inductive_cases stepE: "step U E y y'"

subsection \<open>The invariant\<close>

definition justified ::
  "unicode_env \<Rightarrow> re_env \<Rightarrow> pfb \<Rightarrow> Snapshot set \<Rightarrow> string \<Rightarrow> nat \<Rightarrow> DnsblDecision \<Rightarrow> bool" where
  "justified U E p built name gen d \<longleftrightarrow> (\<exists>snap \<in> built. \<exists>q q0 tld is_cname. sn_gen snap = gen
     \<and> d = snapshot_verdict U E p snap q q0 tld is_cname \<and> name = memo_name q q0 is_cname d)"

definition fill_ok :: "unicode_env \<Rightarrow> re_env \<Rightarrow> pfb \<Rightarrow> Snapshot set \<Rightarrow> string \<Rightarrow> nat \<Rightarrow> fill \<Rightarrow> bool" where
  "fill_ok U E p built name gen f \<longleftrightarrow> (\<forall>d. f = Fill_dnsbl d \<longrightarrow> justified U E p built name gen d)"

definition ref_ok :: "(nat \<Rightarrow> string) \<Rightarrow> nat \<Rightarrow> string \<Rightarrow> nat \<Rightarrow> bool" where
  "ref_ok owner n name r \<longleftrightarrow> r < n \<and> owner r = name"

fun worker_ok ::
  "unicode_env \<Rightarrow> re_env \<Rightarrow> pfb \<Rightarrow> Snapshot set \<Rightarrow> (nat \<Rightarrow> string) \<Rightarrow> Decision list \<Rightarrow> worker \<Rightarrow> bool" where
  "worker_ok U E p B ow heap Idle = True"
| "worker_ok U E p B ow heap (Captured snap) = (snap \<in> B)"
| "worker_ok U E p B ow heap (Looked snap name r) = (snap \<in> B \<and> (\<forall>x. r = Some x \<longrightarrow> ref_ok ow (length heap) name x))"
| "worker_ok U E p B ow heap (Served snap name d) = (snap \<in> B \<and> justified U E p B name (sn_gen snap) d)"
| "worker_ok U E p B ow heap (Evaluated snap name f) = (snap \<in> B \<and> fill_ok U E p B name (sn_gen snap) f)"
| "worker_ok U E p B ow heap (Fetched snap name f r) = (snap \<in> B \<and> fill_ok U E p B name (sn_gen snap) f
     \<and> (\<forall>x. r = Some x \<longrightarrow> ref_ok ow (length heap) name x))"
| "worker_ok U E p B ow heap (Settled snap name r f) = (snap \<in> B \<and> fill_ok U E p B name (sn_gen snap) f
     \<and> ref_ok ow (length heap) name r \<and> de_snap_gen (heap ! r) = sn_gen snap)"

definition heap_ok :: "unicode_env \<Rightarrow> re_env \<Rightarrow> pfb \<Rightarrow> Snapshot set \<Rightarrow> (nat \<Rightarrow> string) \<Rightarrow> Decision list \<Rightarrow> bool" where
  "heap_ok U E p B ow heap \<longleftrightarrow> (\<forall>r < length heap. \<forall>d. de_dnsbl (heap ! r) = Some d \<longrightarrow>
     justified U E p B (ow r) (de_snap_gen (heap ! r)) d)
     \<and> (\<forall>r < length heap. de_snap_gen (heap ! r) \<in> sn_gen ` B)"

definition owned :: "unicode_env \<Rightarrow> re_env \<Rightarrow> pfb \<Rightarrow> Snapshot set \<Rightarrow> (nat \<Rightarrow> string) \<Rightarrow> state \<Rightarrow> (nat \<Rightarrow> worker) \<Rightarrow> bool" where
  "owned U E p B ow s ws \<longleftrightarrow> heap_ok U E p B ow (st_heap s)
     \<and> memo.all_entries (ref_ok ow (length (st_heap s))) (st_cache s)
     \<and> (\<forall>i. worker_ok U E p B ow (st_heap s) (ws i))"

definition same_settings :: "pfb \<Rightarrow> pfb \<Rightarrow> bool" where
  "same_settings p p' \<longleftrightarrow> (\<forall>snap. evaluate_cfg p' snap = evaluate_cfg p snap)"

definition inv :: "unicode_env \<Rightarrow> re_env \<Rightarrow> pfb \<Rightarrow> system \<Rightarrow> bool" where
  "inv U E p y \<longleftrightarrow> live E (set (sy_built y)) (sy_state y)
     \<and> distinct (map sn_gen (sy_built y)) \<and> (\<forall>snap \<in> set (sy_built y). sn_gen snap < st_next_gen (sy_state y))
     \<and> (\<forall>snap. st_snapshot (sy_state y) = Some snap \<or> sy_pending y = Some snap \<longrightarrow> snap \<in> set (sy_built y))
     \<and> lru_ok (st_cache (sy_state y)) \<and> same_settings p (st_pfb (sy_state y))
     \<and> (\<exists>ow. owned U E p (set (sy_built y)) ow (sy_state y) (sy_workers y))"

subsection \<open>The steps keep the invariant\<close>

definition heap_le :: "Decision list \<Rightarrow> Decision list \<Rightarrow> bool" where
  "heap_le h h' \<longleftrightarrow> length h \<le> length h' \<and> (\<forall>r < length h. de_snap_gen (h' ! r) = de_snap_gen (h ! r))"

lemma heap_le_refl [simp]: "heap_le h h"
  by (simp add: heap_le_def)

lemma justified_mono: "justified U E p B name g d \<Longrightarrow> B \<subseteq> B' \<Longrightarrow> justified U E p B' name g d"
  unfolding justified_def by blast

lemma fill_ok_mono: "fill_ok U E p B name g f \<Longrightarrow> B \<subseteq> B' \<Longrightarrow> fill_ok U E p B' name g f"
  unfolding fill_ok_def using justified_mono by blast

lemma ref_ok_mono:
  "ref_ok ow n name r \<Longrightarrow> n \<le> n' \<Longrightarrow> \<forall>r < n. ow' r = ow r \<Longrightarrow> ref_ok ow' n' name r"
  by (auto simp: ref_ok_def)

lemma worker_ok_mono:
  assumes "worker_ok U E p B ow h w" "heap_le h h'" "\<forall>r < length h. ow' r = ow r" "B \<subseteq> B'"
  shows "worker_ok U E p B' ow' h' w"
proof -
  have len: "length h \<le> length h'" using assms(2) by (simp add: heap_le_def)
  have gen: "de_snap_gen (h' ! r) = de_snap_gen (h ! r)" if "ref_ok ow (length h) name r" for r name
    using that assms(2) by (simp add: heap_le_def ref_ok_def)
  note m = justified_mono [OF _ assms(4)] fill_ok_mono [OF _ assms(4)] ref_ok_mono [OF _ len assms(3)]
  show ?thesis using assms(1,4) m by (cases w) (auto dest: gen)
qed

lemma owned_worker: "owned U E p B ow s ws \<Longrightarrow> worker_ok U E p B ow (st_heap s) w \<Longrightarrow> owned U E p B ow s (ws(i := w))"
  by (simp add: owned_def)

lemma owned_state:
  "owned U E p B ow s ws \<Longrightarrow> st_heap s' = st_heap s \<Longrightarrow>
    memo.all_entries (ref_ok ow (length (st_heap s))) (st_cache s') \<Longrightarrow> owned U E p B ow s' ws"
  by (simp add: owned_def)

lemma owned_built:
  assumes "owned U E p B ow s ws" "B \<subseteq> B'" "st_heap s' = st_heap s" "st_cache s' = st_cache s"
  shows "owned U E p B' ow s' ws"
proof -
  have "worker_ok U E p B' ow (st_heap s) (ws i)" for i
    using assms(1) worker_ok_mono [OF _ heap_le_refl _ assms(2), of U E p ow "st_heap s" "ws i" ow]
    by (simp add: owned_def)
  then show ?thesis
    using assms(1,3,4) justified_mono [OF _ assms(2)] image_mono [OF assms(2), of sn_gen]
    by (simp add: owned_def heap_ok_def subset_iff)
qed

text \<open>A new decision is owned by the name it is made for.\<close>

lemma owned_create:
  assumes "owned U E p B ow s ws"
    and "st_heap s' = st_heap s @ [new_decision g]" "st_cache s' = st_cache s" "g \<in> sn_gen ` B"
  shows "owned U E p B (ow(length (st_heap s) := name)) s' ws"
proof -
  let ?ow = "ow(length (st_heap s) := name)" and ?h = "st_heap s"
  have le: "heap_le ?h (st_heap s')" by (simp add: heap_le_def assms(2) nth_append)
  have ow: "\<forall>r < length ?h. ?ow r = ow r" by simp
  have "heap_ok U E p B ?ow (st_heap s')"
    using assms(1,4) by (auto simp: owned_def heap_ok_def assms(2) nth_append new_decision_def less_Suc_eq)
  moreover have "memo.all_entries (ref_ok ?ow (length (st_heap s'))) (st_cache s')"
    unfolding assms(3)
    by (rule memo.entries_mono [of "ref_ok ow (length ?h)"])
      (use assms(1) ow in \<open>auto simp: owned_def assms(2) intro: ref_ok_mono\<close>)
  moreover have "worker_ok U E p B ?ow (st_heap s') (ws i)" for i
    by (rule worker_ok_mono [OF _ le ow subset_refl]) (use assms(1) in \<open>simp add: owned_def\<close>)
  ultimately show ?thesis by (simp add: owned_def)
qed

lemma owned_store:
  assumes "owned U E p B ow s ws" "lru_ok (st_cache s)" "ref_ok ow (length (st_heap s)) name ref"
  shows "owned U E p B ow (s\<lparr>st_cache := lru_setitem name ref (st_cache s)\<rparr>) ws"
  using assms memo.entries_store [OF assms(2), of "ref_ok ow (length (st_heap s))" name ref]
  by (simp add: owned_def)

lemma owned_fill:
  assumes "owned U E p B ow s ws" "fill_ok U E p B name (de_snap_gen (st_heap s ! ref)) f"
    and "ref_ok ow (length (st_heap s)) name ref"
  shows "owned U E p B ow (apply_fill f ref s) ws"
proof -
  let ?s = "apply_fill f ref s"
  have ref: "ref < length (st_heap s)" using assms(3) by (simp add: ref_ok_def)
  have len: "length (st_heap ?s) = length (st_heap s)" "st_cache ?s = st_cache s"
    by (cases f; simp add: set_dnsbl_def set_noaaaa_def set_safesearch_def)+
  have gen: "de_snap_gen (st_heap ?s ! r) = de_snap_gen (st_heap s ! r)" if "r < length (st_heap s)" for r
    using that ref by (cases f; simp add: set_dnsbl_def set_noaaaa_def set_safesearch_def nth_list_update)
  have le: "heap_le (st_heap s) (st_heap ?s)" by (simp add: heap_le_def len gen)
  have val: "de_dnsbl (st_heap ?s ! r) = (if r = ref \<and> (\<exists>d. f = Fill_dnsbl d) then Some (case f of Fill_dnsbl d \<Rightarrow> d)
      else de_dnsbl (st_heap s ! r))" if "r < length (st_heap s)" for r
    using that ref by (cases f; simp add: set_dnsbl_def set_noaaaa_def set_safesearch_def nth_list_update)
  have "heap_ok U E p B ow (st_heap ?s)"
    unfolding heap_ok_def len
  proof (intro conjI allI impI)
    fix r assume "r < length (st_heap s)"
    then show "de_snap_gen (st_heap ?s ! r) \<in> sn_gen ` B"
      using assms(1) gen by (simp add: owned_def heap_ok_def)
  next
    fix r d assume r: "r < length (st_heap s)" and d: "de_dnsbl (st_heap ?s ! r) = Some d"
    show "justified U E p B (ow r) (de_snap_gen (st_heap ?s ! r)) d"
    proof (cases "r = ref \<and> (\<exists>d. f = Fill_dnsbl d)")
      case True
      then have "f = Fill_dnsbl d" using d val [OF r] by auto
      then show ?thesis using True assms(2,3) gen [OF r] by (simp add: fill_ok_def ref_ok_def)
    next
      case False
      have "de_dnsbl (st_heap s ! r) = Some d" using d unfolding val [OF r] if_not_P [OF False] .
      then show ?thesis using assms(1) r gen [OF r] by (simp add: owned_def heap_ok_def)
    qed
  qed
  moreover have "worker_ok U E p B ow (st_heap ?s) (ws i)" for i
    by (rule worker_ok_mono [where ow = ow, OF _ le _ subset_refl]) (use assms(1) in \<open>simp_all add: owned_def\<close>)
  ultimately show ?thesis using assms(1) by (simp add: owned_def len)
qed

text \<open>The parts of the invariant on the system apart from its workers.\<close>

definition frame_ok :: "re_env \<Rightarrow> pfb \<Rightarrow> Snapshot list \<Rightarrow> Snapshot option \<Rightarrow> state \<Rightarrow> bool" where
  "frame_ok E p built pending s \<longleftrightarrow> live E (set built) s \<and> distinct (map sn_gen built)
     \<and> (\<forall>snap \<in> set built. sn_gen snap < st_next_gen s)
     \<and> (\<forall>snap. st_snapshot s = Some snap \<or> pending = Some snap \<longrightarrow> snap \<in> set built)
     \<and> lru_ok (st_cache s) \<and> same_settings p (st_pfb s)"

lemma inv_parts: "inv U E p y \<longleftrightarrow> frame_ok E p (sy_built y) (sy_pending y) (sy_state y)
    \<and> (\<exists>ow. owned U E p (set (sy_built y)) ow (sy_state y) (sy_workers y))"
  by (auto simp: inv_def frame_ok_def)

text \<open>A worker's step: it moves to a state that keeps the frame, with the workers owned.\<close>

lemma inv_at:
  "frame_ok E p (sy_built y) (sy_pending y) s \<Longrightarrow> owned U E p (set (sy_built y)) ow s (sy_workers y) \<Longrightarrow>
    worker_ok U E p (set (sy_built y)) ow (st_heap s) w \<Longrightarrow> inv U E p (at i w s y)"
  unfolding inv_parts at_def using owned_worker by fastforce

lemma frame_cache:
  "frame_ok E p b q s \<Longrightarrow> lru_ok c \<Longrightarrow> frame_ok E p b q (s\<lparr>st_cache := c\<rparr>)"
  using live_same [of E "set b" s "s\<lparr>st_cache := c\<rparr>"] by (simp add: frame_ok_def)

lemma frame_heap: "frame_ok E p b q s \<Longrightarrow> frame_ok E p b q (s\<lparr>st_heap := h\<rparr>)"
  using live_same [of E "set b" s "s\<lparr>st_heap := h\<rparr>"] by (simp add: frame_ok_def)

lemma frame_fill: "frame_ok E p b q s \<Longrightarrow> frame_ok E p b q (apply_fill f ref s)"
  by (cases f) (simp_all add: set_dnsbl_def set_noaaaa_def set_safesearch_def frame_heap)

lemma fetch_ok:
  assumes "decision_fetch name s = (r, s')" "frame_ok E p b q s" "owned U E p B ow s ws"
  shows "frame_ok E p b q s'" "owned U E p B ow s' ws" "st_heap s' = st_heap s"
    "r = Some x \<Longrightarrow> ref_ok ow (length (st_heap s)) name x"
proof -
  obtain c where c: "lru_get name (st_cache s) = (r, c)" "s' = s\<lparr>st_cache := c\<rparr>"
    using assms(1) by (auto simp: decision_fetch_def split: prod.splits)
  have l: "lru_ok (st_cache s)" using assms(2) by (simp add: frame_ok_def)
  have a: "memo.all_entries (ref_ok ow (length (st_heap s))) (st_cache s)" using assms(3) by (simp add: owned_def)
  have "lru_ok c" using lru_ok_get [OF l, of name] c(1) by simp
  then show "frame_ok E p b q s'" using frame_cache assms(2) c(2) by simp
  show h: "st_heap s' = st_heap s" using c(2) by simp
  have "memo.all_entries (ref_ok ow (length (st_heap s))) (st_cache s')"
    using memo.entries_read [OF l a, of name] c by simp
  then show "owned U E p B ow s' ws" by (rule owned_state [OF assms(3) h])
  show "r = Some x \<Longrightarrow> ref_ok ow (length (st_heap s)) name x"
    using memo.entries_value [OF a, of name x] c(1) by simp
qed

lemma settle_cases:
  assumes "decision_settle name g r s = (ref, s')"
  shows "(ref = length (st_heap s) \<and> s' = s\<lparr>st_heap := st_heap s @ [new_decision g]\<rparr>)
    \<or> (ref = length (st_heap s) \<and> s' = s\<lparr>st_heap := st_heap s @ [new_decision g]\<rparr>
         \<lparr>st_cache := lru_setitem name (length (st_heap s)) (st_cache (s\<lparr>st_heap := st_heap s @ [new_decision g]\<rparr>))\<rparr>)
    \<or> (r = Some ref \<and> s' = s \<and> de_snap_gen (st_heap s ! ref) = g)"
  using assms unfolding decision_settle_def Let_def by (cases r) (auto split: if_split_asm)

lemma settle_ok:
  assumes "decision_settle name g r s = (ref, s')" "frame_ok E p b q s" "owned U E p B ow s ws"
    and "\<forall>x. r = Some x \<longrightarrow> ref_ok ow (length (st_heap s)) name x" "g \<in> sn_gen ` B"
  shows "frame_ok E p b q s'" and "\<exists>ow'. owned U E p B ow' s' ws \<and> ref_ok ow' (length (st_heap s')) name ref
    \<and> de_snap_gen (st_heap s' ! ref) = g"
proof -
  let ?c = "s\<lparr>st_heap := st_heap s @ [new_decision g]\<rparr>" and ?n = "length (st_heap s)"
  let ?st = "?c\<lparr>st_cache := lru_setitem name ?n (st_cache ?c)\<rparr>"
  have l: "lru_ok (st_cache ?c)" using assms(2) by (simp add: frame_ok_def)
  have fc: "frame_ok E p b q ?c" by (rule frame_heap [OF assms(2)])
  then have fs: "frame_ok E p b q ?st" by (rule frame_cache) (rule lru_ok_setitem [OF l])
  have oc: "owned U E p B (ow(?n := name)) ?c ws" by (rule owned_create [where g = g, OF assms(3)]) (simp_all add: assms(5))
  have rc: "ref_ok (ow(?n := name)) (length (st_heap ?c)) name ?n" by (simp add: ref_ok_def)
  have os: "owned U E p B (ow(?n := name)) ?st ws" by (rule owned_store [OF oc l rc])
  have g: "de_snap_gen (st_heap ?c ! ?n) = g" by (simp add: new_decision_def)
  consider "ref = ?n" "s' = ?c" | "ref = ?n" "s' = ?st" | "r = Some ref" "s' = s" "de_snap_gen (st_heap s ! ref) = g"
    using settle_cases [OF assms(1)] by (elim disjE conjE)
  then have "frame_ok E p b q s' \<and> (\<exists>ow'. owned U E p B ow' s' ws \<and> ref_ok ow' (length (st_heap s')) name ref
      \<and> de_snap_gen (st_heap s' ! ref) = g)"
  proof cases
    case 1
    then show ?thesis using fc oc rc g by (intro conjI exI [of _ "ow(?n := name)"]) simp_all
  next
    case 2
    then show ?thesis using fs os rc g by (intro conjI exI [of _ "ow(?n := name)"]) simp_all
  next
    case 3
    then show ?thesis using assms(2-4) by (intro conjI exI [of _ ow]) simp_all
  qed
  then show "frame_ok E p b q s'" "\<exists>ow'. owned U E p B ow' s' ws \<and> ref_ok ow' (length (st_heap s')) name ref
    \<and> de_snap_gen (st_heap s' ! ref) = g" by (rule conjunct1, rule conjunct2)
qed

lemma evaluate_ok:
  assumes "env_ok E" "run_evaluate U E q q0 tld is_cname snap s = Inr (d, s')" "frame_ok E p b q' s"
    and "owned U E p (set b) ow s ws" "snap \<in> set b"
  shows "frame_ok E p b q' s'" "owned U E p (set b) ow s' ws"
    "justified U E p (set b) (memo_name q q0 is_cname d) (sn_gen snap) d"
proof -
  have live: "live E (set b) s" using assms(3) by (simp add: frame_ok_def)
  obtain es where e: "d = snapshot_verdict U E (st_pfb s) snap q q0 tld is_cname" "live E (set b) (s\<lparr>st_eval := es\<rparr>)"
    "s' = s\<lparr>st_eval := es\<rparr>"
  proof (rule run_evaluate_live [OF assms(1) live assms(5), of U q q0 tld is_cname])
    fix s1
    assume 1: "run_evaluate U E q q0 tld is_cname snap s = Inr (snapshot_verdict U E (st_pfb s) snap q q0 tld is_cname, s1)"
      "live E (set b) s1" "s1 = s\<lparr>st_eval := st_eval s1\<rparr>"
    have "d = snapshot_verdict U E (st_pfb s) snap q q0 tld is_cname" "s' = s1" using 1(1) assms(2) by simp_all
    moreover have "live E (set b) (s\<lparr>st_eval := st_eval s1\<rparr>)" using 1(2) 1(3) by metis
    ultimately show thesis using that 1(3) by metis
  qed
  have "d = snapshot_verdict U E p snap q q0 tld is_cname"
    using e(1) assms(3) by (simp add: frame_ok_def same_settings_def snapshot_verdict_def)
  then show "justified U E p (set b) (memo_name q q0 is_cname d) (sn_gen snap) d"
    using assms(5) unfolding justified_def by blast
  show "frame_ok E p b q' s'" using assms(3) e(2,3) by (simp add: frame_ok_def)
  show "owned U E p (set b) ow s' ws"
    by (rule owned_built [OF assms(4) subset_refl]) (simp_all add: e(3))
qed

lemma same_refl_settings: "same_settings p p"
  by (simp add: same_settings_def)

lemma gate_cfg: "evaluate_cfg (q\<lparr>p_python_blacklist := b\<rparr>) snap = evaluate_cfg q snap"
proof -
  have sel: "p_tld_allow_list (q\<lparr>p_python_blacklist := b\<rparr>) = p_tld_allow_list q"
    "p_python_idn (q\<lparr>p_python_blacklist := b\<rparr>) = p_python_idn q"
    "p_idn_mode (q\<lparr>p_python_blacklist := b\<rparr>) = p_idn_mode q" by simp_all
  show ?thesis unfolding evaluate_cfg_def idn_mode_setting_def sel by simp
qed

lemma gate_settings: "same_settings p q \<Longrightarrow> same_settings p (q\<lparr>p_python_blacklist := b\<rparr>)"
  by (simp add: same_settings_def gate_cfg)

lemma step_inv:
  assumes env: "env_ok E"
  shows "step U E y y' \<Longrightarrow> inv U E p y \<Longrightarrow> inv U E p y'"
proof (induction rule: step.induct)
  case (capture y i snap)
  then obtain ow where o: "owned U E p (set (sy_built y)) ow (sy_state y) (sy_workers y)" and f: "frame_ok E p (sy_built y) (sy_pending y) (sy_state y)"
    by (auto simp: inv_parts)
  then have "snap \<in> set (sy_built y)" using capture by (simp add: frame_ok_def)
  then show ?case by (intro inv_at [OF f o]) simp
next
  case (leave y i snap name d)
  then obtain ow where "owned U E p (set (sy_built y)) ow (sy_state y) (sy_workers y)" "frame_ok E p (sy_built y) (sy_pending y) (sy_state y)"
    by (auto simp: inv_parts)
  then show ?case by (intro inv_at) simp_all
next
  case (look y i snap name r s)
  then obtain ow where o: "owned U E p (set (sy_built y)) ow (sy_state y) (sy_workers y)" and f: "frame_ok E p (sy_built y) (sy_pending y) (sy_state y)"
    by (auto simp: inv_parts)
  have "worker_ok U E p (set (sy_built y)) ow (st_heap (sy_state y)) (Captured snap)"
    using o look(1) by (metis owned_def)
  then show ?case
    using fetch_ok [OF look(2) f o] by (intro inv_at [of E p y s U ow]) simp_all
next
  case (serve y i snap name r d)
  then obtain ow where o: "owned U E p (set (sy_built y)) ow (sy_state y) (sy_workers y)" and f: "frame_ok E p (sy_built y) (sy_pending y) (sy_state y)"
    by (auto simp: inv_parts)
  have "worker_ok U E p (set (sy_built y)) ow (st_heap (sy_state y)) (Looked snap name (Some r))"
    using o serve(1) by (metis owned_def)
  then have "snap \<in> set (sy_built y)" "justified U E p (set (sy_built y)) name (sn_gen snap) d"
    using o serve(2,3) by (auto simp: owned_def heap_ok_def ref_ok_def)
  then show ?case by (intro inv_at [OF f o]) simp
next
  case (miss y i snap name r d)
  then obtain ow where o: "owned U E p (set (sy_built y)) ow (sy_state y) (sy_workers y)" and f: "frame_ok E p (sy_built y) (sy_pending y) (sy_state y)"
    by (auto simp: inv_parts)
  have "worker_ok U E p (set (sy_built y)) ow (st_heap (sy_state y)) (sy_workers y i)" using o by (simp add: owned_def)
  then have "snap \<in> set (sy_built y)" using miss(1) by auto
  then show ?case by (intro inv_at [OF f o]) simp
next
  case (evaluate y i snap q q0 tld is_cname d s)
  then obtain ow where o: "owned U E p (set (sy_built y)) ow (sy_state y) (sy_workers y)" and f: "frame_ok E p (sy_built y) (sy_pending y) (sy_state y)"
    by (auto simp: inv_parts)
  have snap: "snap \<in> set (sy_built y)" using o evaluate(1) by (metis owned_def worker_ok.simps(2))
  show ?case
    using evaluate_ok [OF env evaluate(2) f o snap] snap by (intro inv_at) (simp_all add: fill_ok_def)
next
  case (other_axis y i snap f b e name)
  then obtain ow where o: "owned U E p (set (sy_built y)) ow (sy_state y) (sy_workers y)" and fr: "frame_ok E p (sy_built y) (sy_pending y) (sy_state y)"
    by (auto simp: inv_parts)
  have snap: "snap \<in> set (sy_built y)" using o other_axis(1) by (metis owned_def worker_ok.simps(2))
  then show ?case using other_axis(2) by (intro inv_at [OF fr o]) (auto simp: fill_ok_def)
next
  case (fetch y i snap name f r s)
  then obtain ow where o: "owned U E p (set (sy_built y)) ow (sy_state y) (sy_workers y)" and fr: "frame_ok E p (sy_built y) (sy_pending y) (sy_state y)"
    by (auto simp: inv_parts)
  have "worker_ok U E p (set (sy_built y)) ow (st_heap (sy_state y)) (Evaluated snap name f)"
    using o fetch(1) by (metis owned_def)
  then show ?case
    using fetch_ok [OF fetch(2) fr o] by (intro inv_at [of E p y s U ow]) simp_all
next
  case (settle y i snap name f r ref s)
  then obtain ow where o: "owned U E p (set (sy_built y)) ow (sy_state y) (sy_workers y)" and fr: "frame_ok E p (sy_built y) (sy_pending y) (sy_state y)"
    by (auto simp: inv_parts)
  have w: "worker_ok U E p (set (sy_built y)) ow (st_heap (sy_state y)) (Fetched snap name f r)"
    using o settle(1) by (metis owned_def)
  then have r: "\<forall>x. r = Some x \<longrightarrow> ref_ok ow (length (st_heap (sy_state y))) name x" by simp
  have g: "sn_gen snap \<in> sn_gen ` set (sy_built y)" using w by simp
  obtain ow' where o': "owned U E p (set (sy_built y)) ow' s (sy_workers y)" "ref_ok ow' (length (st_heap s)) name ref"
    "de_snap_gen (st_heap s ! ref) = sn_gen snap" using settle_ok(2) [OF settle(2) fr o r g] by blast
  show ?case using w o'(2,3) by (intro inv_at [OF settle_ok(1) [OF settle(2) fr o r g] o'(1)]) simp
next
  case (fill y i snap name ref f)
  then obtain ow where o: "owned U E p (set (sy_built y)) ow (sy_state y) (sy_workers y)" and fr: "frame_ok E p (sy_built y) (sy_pending y) (sy_state y)"
    by (auto simp: inv_parts)
  have w: "worker_ok U E p (set (sy_built y)) ow (st_heap (sy_state y)) (Settled snap name ref f)"
    using o fill(1) by (metis owned_def)
  then have "owned U E p (set (sy_built y)) ow (apply_fill f ref (sy_state y)) (sy_workers y)"
    by (intro owned_fill [OF o, of name]) simp_all
  then show ?case using w by (intro inv_at [OF frame_fill [OF fr]]) simp_all
next
  case (build y r disk snap s)
  then obtain ow where o: "owned U E p (set (sy_built y)) ow (sy_state y) (sy_workers y)" and fr: "frame_ok E p (sy_built y) (sy_pending y) (sy_state y)"
    by (auto simp: inv_parts)
  obtain d where s: "s = (sy_state y)\<lparr>st_next_gen := st_next_gen (sy_state y) + 1, st_next_id := st_next_id (sy_state y) + 4,
      st_eval := (st_eval (sy_state y))\<lparr>es_diag := d\<rparr>\<rparr>" using built_frame(1) [OF build(3)] by blast
  have g: "sn_gen snap = st_next_gen (sy_state y)" using built_frame(2) [OF build(3)] by simp
  have "live E (set (snap # sy_built y)) s"
    using built_live [OF build(2,3)] fr by (simp add: frame_ok_def)
  then have "frame_ok E p (snap # sy_built y) (Some snap) s"
    using fr g by (auto simp: frame_ok_def s less_Suc_eq)
  moreover have "owned U E p (set (snap # sy_built y)) ow s (sy_workers y)"
    by (rule owned_built [OF o]) (auto simp: s)
  ultimately show ?case unfolding inv_parts by auto
next
  case (install y snap)
  then show ?case
    using live_same [of E "set (sy_built y)" "sy_state y" "install_snapshot snap (sy_state y)"]
    by (auto simp: inv_def install_snapshot_def owned_def)
next
  case (clear y)
  have "memo.all_entries P (st_cache (clear_memo (sy_state y)))" for P
    using memo.entries_wipe [of P "st_cache (sy_state y)"] by (simp add: clear_memo_def)
  then show ?case
    using clear live_same [of E "set (sy_built y)" "sy_state y" "clear_memo (sy_state y)"]
    by (auto simp: inv_def clear_memo_def owned_def lru_ok_clear)
next
  case (unwarn y)
  have "live E B s \<Longrightarrow> live E B (clear_regex_warned s)" for B s
    by (rule live_diag [of E B s "st_eval (clear_regex_warned s)"]) (simp_all add: clear_regex_warned_def)
  then show ?case using unwarn by (auto simp: inv_def clear_regex_warned_def owned_def)
next
  case (gate y b)
  then show ?case
    using live_same [of E "set (sy_built y)" "sy_state y"] gate_settings [of p "st_pfb (sy_state y)" b]
    by (auto simp: inv_def owned_def)
qed

lemma start_inv: "fresh_state E s \<Longrightarrow> inv U E (st_pfb s) (start s)"
  by (auto simp: inv_def start_def fresh_state_def owned_def heap_ok_def memo.all_entries_def lru_lookup_def
      lru_ok_def same_refl_settings)

lemma reachable_inv: "env_ok E \<Longrightarrow> fresh_state E s \<Longrightarrow> reachable U E s y \<Longrightarrow> inv U E (st_pfb s) y"
  by (rotate_tac 2, induction rule: reachable.induct) (auto intro: start_inv step_inv)

subsection \<open>Properties\<close>

lemma served_verdict:
  assumes "inv U E p y" "sy_workers y i = Served snap name d"
  shows "\<exists>q q0 tld is_cname. d = snapshot_verdict U E p snap q q0 tld is_cname \<and> name = memo_name q q0 is_cname d"
proof -
  obtain ow where o: "owned U E p (set (sy_built y)) ow (sy_state y) (sy_workers y)"
    and dist: "distinct (map sn_gen (sy_built y))" using assms(1) by (auto simp: inv_def)
  have "worker_ok U E p (set (sy_built y)) ow (st_heap (sy_state y)) (sy_workers y i)" using o by (simp add: owned_def)
  then have s: "snap \<in> set (sy_built y)" and j: "justified U E p (set (sy_built y)) name (sn_gen snap) d"
    by (simp_all add: assms(2))
  obtain snap' q q0 tld is_cname where v: "snap' \<in> set (sy_built y)" "sn_gen snap' = sn_gen snap"
    "d = snapshot_verdict U E p snap' q q0 tld is_cname" "name = memo_name q q0 is_cname d"
    using j unfolding justified_def by blast
  have "snap' = snap" using inj_onD [OF conjunct2 [OF dist [unfolded distinct_map]] v(2) v(1) s] .
  then show ?thesis using v(3,4) by blast
qed

lemma captured_built:
  assumes "inv U E p y" "sy_workers y i = Captured snap"
  shows "snap \<in> set (sy_built y)"
proof -
  obtain ow where o: "owned U E p (set (sy_built y)) ow (sy_state y) (sy_workers y)" using assms(1) by (auto simp: inv_def)
  have "worker_ok U E p (set (sy_built y)) ow (st_heap (sy_state y)) (sy_workers y i)" using o by (simp add: owned_def)
  then show ?thesis by (simp add: assms(2))
qed

text \<open>A worker of the newest snapshot, running alone, ends up serving the memoised verdict of the
  name it evaluates.\<close>

lemma at_at [simp]:
  "at i w s (at i w' s' y) = at i w s y" "sy_workers (at i w s y) i = w" "sy_state (at i w s y) = s"
  "sy_built (at i w s y) = sy_built y"
  by (simp_all add: at_def)

lemma settled_lookup:
  assumes "inv U E p y" "sy_workers y i = Evaluated snap name f" "\<forall>v \<in> set (sy_built y). sn_gen v \<le> sn_gen snap"
  obtains ref s where "(step U E)\<^sup>*\<^sup>* y (at i (Settled snap name ref f) s y)"
    "lru_lookup (st_cache s) name = Some ref" "ref < length (st_heap s)" "de_snap_gen (st_heap s ! ref) = sn_gen snap"
proof -
  obtain r s1 where f: "decision_fetch name (sy_state y) = (r, s1)" by fastforce
  obtain ref s where g: "decision_settle name (sn_gen snap) r s1 = (ref, s)" by fastforce
  let ?y1 = "at i (Fetched snap name f r) s1 y"
  have 1: "step U E y ?y1" by (rule step.fetch [OF assms(2) f])
  have 2: "step U E ?y1 (at i (Settled snap name ref f) s y)"
    using step.settle [of ?y1 i snap name f r ref s U E] g by simp
  obtain ow where o: "owned U E p (set (sy_built y)) ow (sy_state y) (sy_workers y)"
    and fr: "frame_ok E p (sy_built y) (sy_pending y) (sy_state y)" using assms(1) by (auto simp: inv_parts)
  note k = fetch_ok [OF f fr o]
  have l: "lru_ok (st_cache s1)" using k(1) by (simp add: frame_ok_def)
  have same: "lru_lookup (st_cache s1) name = r"
    using f by (auto simp: decision_fetch_def lru_read_keeps split: prod.splits)
      (metis fst_conv lru_read_keeps memo.read_value snd_conv)
  have "sn_gen snap \<in> sn_gen ` set (sy_built y)"
    using o assms(2) by (metis imageI owned_def worker_ok.simps(5))
  note settle = settle_ok [OF g k(1,2) _ this]
  have old: "de_snap_gen (st_heap s1 ! x) \<le> sn_gen snap" if "r = Some x" for x
    using k(2) k(4) [OF that] k(3) assms(3) by (auto simp: owned_def heap_ok_def ref_ok_def)
  have look: "lru_lookup (st_cache s) name = Some ref"
  proof (cases "r = Some ref \<and> s = s1")
    case True
    then show ?thesis using same by simp
  next
    case False
    then have "s = s1\<lparr>st_heap := st_heap s1 @ [new_decision (sn_gen snap)]\<rparr>\<lparr>st_cache := lru_setitem name ref (st_cache s1)\<rparr>"
      using g old unfolding decision_settle_def Let_def by (cases r) (auto split: if_split_asm simp: not_less [symmetric])
    then show ?thesis by (simp add: lru_store_same)
  qed
  have "\<forall>x. r = Some x \<longrightarrow> ref_ok ow (length (st_heap s1)) name x" using k(3,4) by simp
  from settle(2) [OF this] have "ref < length (st_heap s)" "de_snap_gen (st_heap s ! ref) = sn_gen snap"
    by (auto simp: ref_ok_def)
  with look 1 2 show thesis by (intro that) (auto intro: converse_rtranclp_into_rtranclp)
qed

lemma fill_read:
  "de_dnsbl (st_heap (apply_fill (Fill_dnsbl d) ref s) ! ref) = (if ref < length (st_heap s) then Some d
     else de_dnsbl (st_heap s ! ref))"
  "de_snap_gen (st_heap (apply_fill (Fill_dnsbl d) ref s) ! ref) = de_snap_gen (st_heap s ! ref)"
  by (simp_all add: set_dnsbl_def list_update_beyond nth_list_update)
    (metis Decision.select_convs(4) Decision.surjective Decision.update_convs(1) list_update_beyond not_less nth_list_update_eq)

lemma evaluated_served:
  assumes "inv U E p y" "sy_workers y i = Evaluated snap name (Fill_dnsbl d)"
    and "\<forall>v \<in> set (sy_built y). sn_gen v \<le> sn_gen snap"
  shows "\<exists>s. (step U E)\<^sup>*\<^sup>* y (at i (Served snap name d) s y)"
proof -
  obtain ref s where s: "(step U E)\<^sup>*\<^sup>* y (at i (Settled snap name ref (Fill_dnsbl d)) s y)"
    "lru_lookup (st_cache s) name = Some ref" "ref < length (st_heap s)" "de_snap_gen (st_heap s ! ref) = sn_gen snap"
    by (rule settled_lookup [OF assms])
  let ?s2 = "apply_fill (Fill_dnsbl d) ref s"
  obtain r s3 where f: "decision_fetch name ?s2 = (r, s3)" by fastforce
  have c: "st_cache ?s2 = st_cache s" by (simp add: set_dnsbl_def)
  have r: "r = Some ref" "st_heap s3 = st_heap ?s2"
    using f s(2) memo.read_value [of name "st_cache s"] unfolding decision_fetch_def c by (auto split: prod.splits)
  have 1: "step U E (at i (Settled snap name ref (Fill_dnsbl d)) s y) (at i (Captured snap) ?s2 y)"
    using step.fill [of "at i (Settled snap name ref (Fill_dnsbl d)) s y" i snap name ref "Fill_dnsbl d" U E] by simp
  have 2: "step U E (at i (Captured snap) ?s2 y) (at i (Looked snap name (Some ref)) s3 y)"
    using step.look [of "at i (Captured snap) ?s2 y" i snap name r s3 U E] f r(1) by simp
  have 3: "step U E (at i (Looked snap name (Some ref)) s3 y) (at i (Served snap name d) s3 y)"
    using step.serve [of "at i (Looked snap name (Some ref)) s3 y" i snap name ref d U E]
    by (simp only: at_at r(2) fill_read s(3,4) if_True)
  show ?thesis using s(1) 1 2 3 by (meson rtranclp.rtrancl_into_rtrancl)
qed

text \<open>C20. Whatever the interleaving of query workers, the reload thread and the control channel - a
  verdict computed before a swap and written after it, the memo cleared in between, entries
  evicted or replaced - a verdict served from \<open>decisionDB\<close> was computed against exactly the snapshot
  the serving worker captured, for the name it is served for (or, for a block found behind a CNAME,
  for the name that was queried).\<close>

theorem memo_generation_safe:
  assumes "env_ok E" "fresh_state E s0" "reachable U E s0 y" "sy_workers y i = Served snap name d"
  shows "\<exists>q q0 tld is_cname. d = snapshot_verdict U E (st_pfb s0) snap q q0 tld is_cname
    \<and> name = memo_name q q0 is_cname d"
  by (rule served_verdict [OF reachable_inv [OF assms(1-3)] assms(4)])

lemma evaluate_step:
  assumes "env_ok E" "inv U E p y" "sy_workers y i = Captured snap"
  obtains s where "step U E y (at i (Evaluated snap
      (memo_name q q0 is_cname (snapshot_verdict U E p snap q q0 tld is_cname))
      (Fill_dnsbl (snapshot_verdict U E p snap q q0 tld is_cname))) s y)"
proof -
  have live: "live E (set (sy_built y)) (sy_state y)" and same: "same_settings p (st_pfb (sy_state y))"
    using assms(2) by (simp_all add: inv_def)
  obtain s where s: "run_evaluate U E q q0 tld is_cname snap (sy_state y)
      = Inr (snapshot_verdict U E (st_pfb (sy_state y)) snap q q0 tld is_cname, s)"
    by (rule run_evaluate_live [OF assms(1) live captured_built [OF assms(2,3)], of U q q0 tld is_cname])
  have "snapshot_verdict U E (st_pfb (sy_state y)) snap q q0 tld is_cname = snapshot_verdict U E p snap q q0 tld is_cname"
    using same by (simp add: same_settings_def snapshot_verdict_def)
  then show thesis using step.evaluate [OF assms(3) s] by (intro that) simp
qed

text \<open>C21. No verdict is lost: from every reachable system a worker that captured the newest snapshot
  and runs on evaluates any name it is given and then serves that verdict from the memo, whatever
  the memo held before - the entry of another generation, one it evicted, or nothing.\<close>

theorem memo_serves_newest:
  assumes "env_ok E" "fresh_state E s0" "reachable U E s0 y" "sy_workers y i = Captured snap"
    and "\<forall>v \<in> set (sy_built y). sn_gen v \<le> sn_gen snap"
  shows "\<exists>s. (step U E)\<^sup>*\<^sup>* y (at i (Served snap
      (memo_name q q0 is_cname (snapshot_verdict U E (st_pfb s0) snap q q0 tld is_cname))
      (snapshot_verdict U E (st_pfb s0) snap q q0 tld is_cname)) s y)"
proof -
  note i = reachable_inv [OF assms(1-3)]
  let ?d = "snapshot_verdict U E (st_pfb s0) snap q q0 tld is_cname"
  obtain s where s: "step U E y (at i (Evaluated snap (memo_name q q0 is_cname ?d) (Fill_dnsbl ?d)) s y)"
    by (rule evaluate_step [OF assms(1) i assms(4)])
  have "inv U E (st_pfb s0) (at i (Evaluated snap (memo_name q q0 is_cname ?d) (Fill_dnsbl ?d)) s y)"
    by (rule step_inv [OF assms(1) s i])
  from evaluated_served [OF this, of i snap "memo_name q q0 is_cname ?d" ?d] assms(5)
  obtain s' where "(step U E)\<^sup>*\<^sup>* (at i (Evaluated snap (memo_name q q0 is_cname ?d) (Fill_dnsbl ?d)) s y)
      (at i (Served snap (memo_name q q0 is_cname ?d) ?d) s' y)" by auto
  with s show ?thesis by (meson converse_rtranclp_into_rtranclp)
qed

text \<open>A run: the lists are built and bound, and worker 0 captures them.\<close>

lemma sample_fresh: "fresh_state sample_env sample_state"
  using sample_live by (simp add: fresh_state_def, simp add: sample_state_def lru_new_def)

lemma sample_captured:
  "\<exists>y snap. reachable plain_unicode sample_env sample_state y \<and> sy_workers y 0 = Captured snap
     \<and> sy_built y = [snap]"
proof -
  obtain r d where "build plain_unicode sample_env [sample_row] sample_config sample_reader True [''top.com'']
      sample_diag = Inr (r, d)" using sample_build by blast
  then have r: "result_ok r" by (rule build_returned_ok)
  obtain snap s where v: "build_swap_snapshot sample_env sample_disk (Some r) sample_state = (Some snap, s)"
    using built_frame(2) by (metis surj_pair)
  let ?y1 = "(start sample_state)\<lparr>sy_state := s, sy_pending := Some snap, sy_built := [snap]\<rparr>"
  let ?y2 = "?y1\<lparr>sy_state := install_snapshot snap s, sy_pending := None\<rparr>"
  let ?U = plain_unicode and ?E = sample_env
  have 1: "step ?U ?E (start sample_state) ?y1"
    using step.build [of "start sample_state" r sample_env sample_disk snap s ?U] r v by (simp add: start_def)
  have 2: "step ?U ?E ?y1 ?y2" using step.install [of ?y1 snap ?U ?E] by simp
  have 3: "step ?U ?E ?y2 (at 0 (Captured snap) (sy_state ?y2) ?y2)"
    by (rule step.capture) (simp_all add: start_def install_snapshot_def)
  have "reachable ?U ?E sample_state (at 0 (Captured snap) (sy_state ?y2) ?y2)"
    using reachable.init 1 2 3 by (meson reachable.more)
  then show ?thesis
    by (intro exI [of _ "at 0 (Captured snap) (sy_state ?y2) ?y2"] exI [of _ snap] conjI) simp_all
qed

theorem memo_serves_newest_witness:
  "\<exists>y snap s. reachable plain_unicode sample_env sample_state y \<and> sy_workers y 0 = Captured snap
    \<and> (step plain_unicode sample_env)\<^sup>*\<^sup>* y (at 0 (Served snap
       (memo_name ''bad.org'' ''bad.org'' False (snapshot_verdict plain_unicode sample_env sample_pfb snap ''bad.org'' ''bad.org'' ''org'' False))
       (snapshot_verdict plain_unicode sample_env sample_pfb snap ''bad.org'' ''bad.org'' ''org'' False)) s y)"
proof -
  obtain y snap where y: "reachable plain_unicode sample_env sample_state y" "sy_workers y 0 = Captured snap"
    "sy_built y = [snap]" using sample_captured by blast
  have p: "st_pfb sample_state = sample_pfb" by (simp add: sample_state_def)
  from memo_serves_newest [OF sample_env_ok sample_fresh y(1,2), of "''bad.org''" "''bad.org''" False "''org''"] y
  show ?thesis unfolding p by auto
qed

theorem memo_generation_safe_witness:
  "\<exists>y snap name d q q0 tld is_cname. reachable plain_unicode sample_env sample_state y \<and> sy_workers y 0 = Served snap name d
    \<and> d = snapshot_verdict plain_unicode sample_env sample_pfb snap q q0 tld is_cname \<and> name = memo_name q q0 is_cname d"
proof -
  obtain y snap where y: "reachable plain_unicode sample_env sample_state y" "sy_workers y 0 = Captured snap"
    "sy_built y = [snap]" using sample_captured by blast
  note i = reachable_inv [OF sample_env_ok sample_fresh y(1)]
  let ?d = "snapshot_verdict plain_unicode sample_env (st_pfb sample_state) snap ''bad.org'' ''bad.org'' ''org'' False"
  let ?n = "memo_name ''bad.org'' ''bad.org'' False ?d"
  obtain s where s: "step plain_unicode sample_env y (at 0 (Evaluated snap ?n (Fill_dnsbl ?d)) s y)"
    by (rule evaluate_step [OF sample_env_ok i y(2)])
  obtain s' where s': "(step plain_unicode sample_env)\<^sup>*\<^sup>* (at 0 (Evaluated snap ?n (Fill_dnsbl ?d)) s y)
      (at 0 (Served snap ?n ?d) s' (at 0 (Evaluated snap ?n (Fill_dnsbl ?d)) s y))"
    using evaluated_served [OF step_inv [OF sample_env_ok s i], of 0 snap ?n ?d] y(3) by auto
  have closed: "reachable plain_unicode sample_env sample_state z"
    if "(step plain_unicode sample_env)\<^sup>*\<^sup>* x z" "reachable plain_unicode sample_env sample_state x" for x z
    using that by (induction rule: rtranclp_induct) (auto intro: reachable.more)
  let ?z = "at 0 (Served snap ?n ?d) s' (at 0 (Evaluated snap ?n (Fill_dnsbl ?d)) s y)"
  have z: "reachable plain_unicode sample_env sample_state ?z"
    by (rule closed [OF s' reachable.more [OF y(1) s]])
  have w: "sy_workers ?z 0 = Served snap ?n ?d" by simp
  have p: "st_pfb sample_state = sample_pfb" by (simp add: sample_state_def)
  from memo_generation_safe [OF sample_env_ok sample_fresh z w] z w show ?thesis unfolding p by blast
qed

end
