(* ===== verification/Control.thy ===== *)
theory Control
  imports Workers
begin

text \<open>
  The DNSBL control commands: the duration check, the timer threads, the one command handler both
  transports share (\<open>pfb_apply_control_command\<close>), the translation of a channel record and the
  watcher that applies each fresh record once.  A JSON value is what \<open>json.loads\<close> returns; the
  validity of an IP text is \<open>ipaddress.ip_address\<close>, a parameter.
\<close>

subsection \<open>State\<close>

text \<open>The timer threads that are asleep: re-enable DNSBL, or drop a bypass.\<close>

datatype timer = Sleep_timer nat | Bypass_timer nat string

datatype db_task = Task_resolver | Task_dnsbl string

text \<open>A row of \<open>dnsbl.log\<close> before it is rendered: name, client, p_type, b_type, group, evaluated name,
  feed, duplicate mark, query type.\<close>

record log_row =
  lr_name :: string
  lr_ip :: string
  lr_p_type :: string
  lr_b_type :: string
  lr_group :: string
  lr_b_eval :: "nat list"
  lr_feed :: string
  lr_dup :: string
  lr_q_type :: string

record modul =
  m_st :: state
  m_mod_threading :: bool
  m_gp_flag :: bool
  m_gp :: "string list"
  m_timers :: "timer list"
  m_event :: "(string \<times> string \<times> DnsblDecision) option"
  m_tasks :: "db_task list"
  m_rows :: "log_row list"

definition set_blacklist :: "bool \<Rightarrow> modul \<Rightarrow> modul" where
  "set_blacklist b m = m\<lparr>m_st := (m_st m)\<lparr>st_pfb := (st_pfb (m_st m))\<lparr>p_python_blacklist := b\<rparr>\<rparr>\<rparr>"

definition blacklist_on :: "modul \<Rightarrow> bool" where
  "blacklist_on m = p_python_blacklist (st_pfb (m_st m))"

subsection \<open>Durations and timers\<close>

text \<open>\<open>str.isnumeric\<close> also accepts the superscripts and fractions, which \<open>int()\<close> rejects, as it
  rejects more than 4300 digits; the exception is logged.\<close>

definition is_numeric_char :: "char \<Rightarrow> bool" where
  "is_numeric_char c \<longleftrightarrow> is_dec c \<or> code_pt c \<in> {178, 179, 185, 188, 189, 190}"

definition python_control_duration :: "string \<Rightarrow> modul \<Rightarrow> nat option \<times> modul" where
  "python_control_duration duration m =
    (if duration = [] \<or> \<not> list_all is_numeric_char duration then (None, m)
     else if \<not> list_all is_dec duration \<or> length duration > 4300 then
       (None, m\<lparr>m_st := stderr (''[pfBlockerNG] python_control_duration: ''
         @ ''invalid literal for int() with base 10: '' @ duration) (m_st m)\<rparr>)
     else (let n = dec_value duration in (if 0 < n \<and> n \<le> 3600 then Some n else None, m)))"

fun is_sleep :: "timer \<Rightarrow> bool" where
  "is_sleep (Sleep_timer n) = True"
| "is_sleep (Bypass_timer n ip) = False"

fun is_bypass :: "string \<Rightarrow> timer \<Rightarrow> bool" where
  "is_bypass ip (Sleep_timer n) = False"
| "is_bypass ip (Bypass_timer n b_ip) = (b_ip = ip)"

text \<open>What a timer does when it wakes.\<close>

definition python_control_sleep :: "bool \<Rightarrow> modul \<Rightarrow> modul" where
  "python_control_sleep opened m =
    (let m = set_blacklist True m in m\<lparr>m_st := open_dnsbl_stats_db_if_wanted opened (m_st m)\<rparr>)"

definition python_control_addbypass :: "string \<Rightarrow> modul \<Rightarrow> bool \<times> modul" where
  "python_control_addbypass b_ip m =
    (if b_ip \<in> set (m_gp m) then (True, m\<lparr>m_gp := removeAll b_ip (m_gp m)\<rparr>) else (False, m))"

definition timer_wakes :: "bool \<Rightarrow> timer \<Rightarrow> modul \<Rightarrow> modul" where
  "timer_wakes opened t m =
    (let m = m\<lparr>m_timers := remove1 t (m_timers m)\<rparr> in
     case t of
       Sleep_timer n \<Rightarrow> python_control_sleep opened m
     | Bypass_timer n ip \<Rightarrow> snd (python_control_addbypass ip m))"

subsection \<open>The command handler\<close>

definition bracketed :: "string \<Rightarrow> string \<Rightarrow> string" where
  "bracketed prompt v = prompt @ ''[ '' @ v @ '' ]''"

definition for_seconds :: "string \<Rightarrow> nat \<Rightarrow> string" where
  "for_seconds msg n = msg @ '' for '' @ nat_text n @ '' second(s)''"

text \<open>\<open>started\<close> is whether the thread starts.\<close>

definition control_disable :: "bool \<Rightarrow> string list \<Rightarrow> modul \<Rightarrow> (bool \<times> string) \<times> modul" where
  "control_disable started cmd m =
    (let msg = ''Python_control: DNSBL disabled''; m = set_blacklist False m in
     if m_mod_threading m \<and> length cmd = 3 \<and> cmd ! 2 \<noteq> [] then
       (case python_control_duration (cmd ! 2) m of
          (None, m) \<Rightarrow> ((False, bracketed (msg @ '': duration '') (cmd ! 2) @ '' out of range (1-3600sec)''), m)
        | (Some n, m) \<Rightarrow>
           if list_ex is_sleep (m_timers m) then ((False, msg @ '': Previous call still in progress''), m)
           else if \<not> started then ((False, msg @ '': Thread failed''), m)
           else ((True, for_seconds msg n), m\<lparr>m_timers := m_timers m @ [Sleep_timer n]\<rparr>))
     else ((True, msg), m))"

definition control_enable :: "bool \<Rightarrow> modul \<Rightarrow> (bool \<times> string) \<times> modul" where
  "control_enable opened m =
    (let m = set_blacklist True m in
     ((True, ''Python_control: DNSBL enabled''), m\<lparr>m_st := open_dnsbl_stats_db_if_wanted opened (m_st m)\<rparr>))"

definition control_addbypass ::
  "bool \<Rightarrow> string list \<Rightarrow> string \<Rightarrow> modul \<Rightarrow> (bool \<times> string) \<times> modul" where
  "control_addbypass started cmd b_ip m =
    (let msg = bracketed ''Python_control: Add bypass for IP: '' b_ip in
     if m_mod_threading m \<and> length cmd = 4 \<and> cmd ! 3 \<noteq> [] then
       (case python_control_duration (cmd ! 3) m of
          (None, m) \<Rightarrow> ((False, bracketed (msg @ '': duration '') (cmd ! 3) @ '' out of range (1-3600sec)''), m)
        | (Some n, m) \<Rightarrow>
           if list_ex (is_bypass b_ip) (m_timers m) then ((False, msg @ '': Previous call still in progress''), m)
           else if \<not> started then ((False, msg @ '' thread failed''), m)
           else ((True, for_seconds msg n),
             m\<lparr>m_timers := m_timers m @ [Bypass_timer n b_ip], m_gp := List.insert b_ip (m_gp m)\<rparr>))
     else ((True, msg), m\<lparr>m_gp := List.insert b_ip (m_gp m)\<rparr>))"

definition control_removebypass :: "string \<Rightarrow> modul \<Rightarrow> (bool \<times> string) \<times> modul" where
  "control_removebypass b_ip m =
    (if b_ip \<in> set (m_gp m)
     then ((True, bracketed ''Python_control: Remove bypass for IP: '' b_ip), m\<lparr>m_gp := removeAll b_ip (m_gp m)\<rparr>)
     else ((True, bracketed ''Python_control: IP not in Group Policy: '' b_ip), m))"

definition dashes_to_dots :: "string \<Rightarrow> string" where
  "dashes_to_dots s = map (\<lambda>c. if c = hyphen then dot else c) s"

definition control_bypass ::
  "(string \<Rightarrow> bool) \<Rightarrow> bool \<Rightarrow> string list \<Rightarrow> modul \<Rightarrow> (bool \<times> string) \<times> modul" where
  "control_bypass ip_ok started cmd m =
    (if length cmd < 3 \<or> cmd ! 2 = [] then ((False, ''Python_control: Missing bypass IP''), m)
     else
      (let b_ip = dashes_to_dots (cmd ! 2) in
       if \<not> ip_ok b_ip then ((False, bracketed ''Python_control: Invalid IP: '' b_ip), m)
       else
        (let m = m\<lparr>m_gp_flag := True\<rparr> in
         if cmd ! 1 = ''addbypass'' then control_addbypass started cmd b_ip m
         else control_removebypass b_ip m)))"

definition pfb_apply_control_command ::
  "(string \<Rightarrow> bool) \<Rightarrow> bool \<Rightarrow> bool \<Rightarrow> string list \<Rightarrow> modul \<Rightarrow> (bool \<times> string) \<times> modul" where
  "pfb_apply_control_command ip_ok started opened cmd m =
    (if length cmd < 2 then ((False, []), m)
     else if cmd ! 1 = ''disable'' then control_disable started cmd m
     else if cmd ! 1 = ''enable'' then control_enable opened m
     else if cmd ! 1 = ''addbypass'' \<or> cmd ! 1 = ''removebypass'' then control_bypass ip_ok started cmd m
     else ((False, []), m))"

subsection \<open>The control channel\<close>

text \<open>A boolean is an \<open>int\<close>; \<open>J_other\<close> is any other value, with its \<open>str()\<close>.\<close>

datatype json = J_null | J_bool bool | J_int int | J_str string | J_other string

type_synonym json_dict = "(string \<times> json) list"

fun json_text :: "json \<Rightarrow> string" where
  "json_text J_null = ''None''"
| "json_text (J_bool b) = (if b then ''True'' else ''False'')"
| "json_text (J_int i) = int_text i"
| "json_text (J_str s) = s"
| "json_text (J_other t) = t"

definition json_get :: "json_dict \<Rightarrow> string \<Rightarrow> json" where
  "json_get d k = (case map_of d k of Some v \<Rightarrow> v | None \<Rightarrow> J_null)"

fun json_int :: "json \<Rightarrow> int option" where
  "json_int (J_int i) = Some i"
| "json_int (J_bool b) = Some (if b then 1 else 0)"
| "json_int j = None"

definition control_record_to_command :: "json_dict \<Rightarrow> string list option" where
  "control_record_to_command rec =
    (let duration = (if map_of rec ''duration'' \<noteq> None then [json_text (json_get rec ''duration'')] else []) in
     case json_get rec ''cmd'' of
       J_str cmd \<Rightarrow>
        (if cmd \<notin> {''disable'', ''enable'', ''addbypass'', ''removebypass''} then None
         else if cmd \<in> {''addbypass'', ''removebypass''} then
          (case json_get rec ''ip'' of
             J_str ip \<Rightarrow> if ip = [] then None
               else Some ([''python_control'', cmd, ip] @ (if cmd = ''addbypass'' then duration else []))
           | _ \<Rightarrow> None)
         else if cmd = ''disable'' then Some ([''python_control'', cmd] @ duration)
         else Some [''python_control'', cmd])
     | _ \<Rightarrow> None)"

text \<open>One reading of the channel and what the world does with the command.\<close>

record control_turn =
  ct_stop :: bool
  ct_record :: "json_dict option"
  ct_started :: bool
  ct_opened :: bool

text \<open>What the watcher does: publish an applied sequence number, run a command.\<close>

datatype control_act = Applied int | Ran "string list" "bool \<times> string"

definition control_apply ::
  "(string \<Rightarrow> bool) \<Rightarrow> control_turn \<Rightarrow> json_dict \<Rightarrow> modul \<Rightarrow> control_act list \<times> modul" where
  "control_apply ip_ok t rec m =
    (case control_record_to_command rec of
       None \<Rightarrow> ([], m)
     | Some cmd \<Rightarrow>
        (case pfb_apply_control_command ip_ok (ct_started t) (ct_opened t) cmd m of
           ((ok, msg), m) \<Rightarrow> ([Ran cmd (ok, msg)],
             if msg = [] then m else m\<lparr>m_st := log_info (''[pfBlockerNG]: '' @ msg) (m_st m)\<rparr>)))"

fun control_drain ::
  "(string \<Rightarrow> bool) \<Rightarrow> control_turn list \<Rightarrow> int \<Rightarrow> modul \<Rightarrow> control_act list \<times> int \<times> modul" where
  "control_drain ip_ok [] last_seq m = ([], last_seq, m)"
| "control_drain ip_ok (t # ts) last_seq m =
    (if ct_stop t then ([], last_seq, m)
     else (case ct_record t of
         None \<Rightarrow> ([], last_seq, m)
       | Some rec \<Rightarrow>
          (case json_int (json_get rec ''seq'') of
             None \<Rightarrow> ([], last_seq, m)
           | Some seq \<Rightarrow>
              if seq \<le> last_seq then ([], last_seq, m)
              else
               (let (acts, m) = control_apply ip_ok t rec m;
                    (more, last_seq, m) = control_drain ip_ok ts seq m in
                (acts @ [Applied seq] @ more, last_seq, m)))))"

fun control_wakes ::
  "(string \<Rightarrow> bool) \<Rightarrow> control_turn list list \<Rightarrow> int \<Rightarrow> modul \<Rightarrow> control_act list \<times> int \<times> modul" where
  "control_wakes ip_ok [] last_seq m = ([], last_seq, m)"
| "control_wakes ip_ok (w # ws) last_seq m =
    (let (acts, last_seq, m) = control_drain ip_ok w last_seq m;
         (more, last_seq, m) = control_wakes ip_ok ws last_seq m in (acts @ more, last_seq, m))"

definition control_watcher ::
  "(string \<Rightarrow> bool) \<Rightarrow> json_dict option \<Rightarrow> control_turn list list \<Rightarrow> modul \<Rightarrow> control_act list \<times> int \<times> modul" where
  "control_watcher ip_ok present wakes m =
    (let base = (case present of None \<Rightarrow> 0 | Some rec \<Rightarrow>
         (case json_int (json_get rec ''seq'') of Some seq \<Rightarrow> seq | None \<Rightarrow> 0));
         (acts, last_seq, m) = control_wakes ip_ok wakes base m in
     (Applied base # acts, last_seq, m))"

subsection \<open>Exactly once\<close>

fun applied_seqs :: "control_act list \<Rightarrow> int list" where
  "applied_seqs [] = []"
| "applied_seqs (Applied n # as) = n # applied_seqs as"
| "applied_seqs (a # as) = applied_seqs as"

text \<open>Between two published numbers at most one command runs.\<close>

fun one_command :: "bool \<Rightarrow> control_act list \<Rightarrow> bool" where
  "one_command busy [] = (\<not> busy)"
| "one_command busy (Applied n # as) = one_command False as"
| "one_command busy (Ran c r # as) = (\<not> busy \<and> one_command True as)"

lemma applied_append [simp]: "applied_seqs (as @ bs) = applied_seqs as @ applied_seqs bs"
  by (induction as rule: applied_seqs.induct) simp_all

lemma one_command_append: "one_command b as \<Longrightarrow> one_command False bs \<Longrightarrow> one_command b (as @ bs)"
  by (induction b as rule: one_command.induct) auto

text \<open>A stretch of the watcher from one sequence number to a later one.\<close>

definition stretch :: "int \<Rightarrow> int \<Rightarrow> control_act list \<Rightarrow> bool" where
  "stretch n n' acts \<longleftrightarrow> n \<le> n' \<and> one_command False acts \<and> sorted_wrt (<) (applied_seqs acts)
     \<and> (\<forall>k \<in> set (applied_seqs acts). n < k \<and> k \<le> n') \<and> (acts = [] \<longrightarrow> n' = n)
     \<and> (acts \<noteq> [] \<longrightarrow> applied_seqs acts \<noteq> [] \<and> last (applied_seqs acts) = n')"

lemma stretch_refl: "stretch n n []"
  by (simp add: stretch_def)

lemma stretch_trans:
  assumes "stretch n n' as" "stretch n' n'' bs"
  shows "stretch n n'' (as @ bs)"
proof (cases "bs = []")
  case True
  then show ?thesis using assms by (simp add: stretch_def)
next
  case False
  have l: "n \<le> n'" "n' \<le> n''" using assms by (simp_all add: stretch_def)
  have k: "\<forall>k \<in> set (applied_seqs as). n < k \<and> k \<le> n'" "\<forall>k \<in> set (applied_seqs bs). n' < k \<and> k \<le> n''"
    using assms by (simp_all add: stretch_def)
  have s: "sorted_wrt (<) (applied_seqs as @ applied_seqs bs)"
    using assms k unfolding sorted_wrt_append by (auto simp: stretch_def dest!: bspec)
  have o: "one_command False (as @ bs)" using assms one_command_append by (simp add: stretch_def)
  have b: "applied_seqs bs \<noteq> []" "last (applied_seqs bs) = n''" using assms(2) False by (simp_all add: stretch_def)
  have r: "\<forall>k \<in> set (applied_seqs as @ applied_seqs bs). n < k \<and> k \<le> n''"
    using k l by (auto dest!: bspec)
  show ?thesis unfolding stretch_def using l s o b r False by simp
qed

lemma control_apply_acts:
  "control_apply ip_ok t rec m = (acts, m') \<Longrightarrow> acts = [] \<or> (\<exists>c r. acts = [Ran c r])"
  by (auto simp: control_apply_def split: option.splits prod.splits)

lemma control_drain_stretch:
  "control_drain ip_ok ts n m = (acts, n', m') \<Longrightarrow> stretch n n' acts"
proof (induction ts arbitrary: n m acts n' m')
  case (Cons t ts)
  show ?case
  proof (cases "\<exists>rec seq. \<not> ct_stop t \<and> ct_record t = Some rec \<and> json_int (json_get rec ''seq'') = Some seq \<and> n < seq")
    case False
    then have "acts = [] \<and> n' = n"
      using Cons.prems by (cases "ct_stop t") (auto split: option.splits prod.splits if_splits)
    then show ?thesis using stretch_refl by simp
  next
    case True
    then obtain rec seq where t: "\<not> ct_stop t" "ct_record t = Some rec" "json_int (json_get rec ''seq'') = Some seq" "n < seq"
      by blast
    obtain as m1 where a: "control_apply ip_ok t rec m = (as, m1)" by fastforce
    obtain bs n2 m2 where b: "control_drain ip_ok ts seq m1 = (bs, n2, m2)" by (metis prod_cases3)
    have e: "acts = (as @ [Applied seq]) @ bs" "n' = n2"
      using Cons.prems t by (simp_all add: a b)
    have "stretch n seq (as @ [Applied seq])"
      using control_apply_acts [OF a] t(4) by (auto simp: stretch_def)
    then show ?thesis unfolding e using stretch_trans Cons.IH [OF b] by blast
  qed
qed (simp add: stretch_def)

lemma control_wakes_stretch: "control_wakes ip_ok ws n m = (acts, n', m') \<Longrightarrow> stretch n n' acts"
proof (induction ws arbitrary: n m acts n' m')
  case (Cons w ws)
  obtain as n1 m1 where a: "control_drain ip_ok w n m = (as, n1, m1)" by (metis prod_cases3)
  obtain bs n2 m2 where b: "control_wakes ip_ok ws n1 m1 = (bs, n2, m2)" by (metis prod_cases3)
  have "acts = as @ bs" "n' = n2" using Cons.prems by (simp_all add: a b)
  then show ?case using stretch_trans [OF control_drain_stretch [OF a]] Cons.IH [OF b] by blast
qed (simp add: stretch_def)

lemma control_watcher_once:
  assumes "control_watcher ip_ok present wakes m = (acts, n, m')"
  shows "sorted_wrt (<) (applied_seqs acts)" "one_command False acts" "last (applied_seqs acts) = n"
proof -
  let ?base = "case present of None \<Rightarrow> 0 | Some rec \<Rightarrow>
      (case json_int (json_get rec ''seq'') of Some seq \<Rightarrow> seq | None \<Rightarrow> 0)"
  obtain as n1 m1 where a: "control_wakes ip_ok wakes ?base m = (as, n1, m1)" by (metis prod_cases3)
  have e: "acts = Applied ?base # as" "n = n1" using assms by (simp_all add: control_watcher_def Let_def a)
  have s: "stretch ?base n1 as" by (rule control_wakes_stretch [OF a])
  show "sorted_wrt (<) (applied_seqs acts)" "one_command False acts" "last (applied_seqs acts) = n"
    using s unfolding e by (auto simp: stretch_def)
qed

subsection \<open>Properties\<close>

lemma duration_frame [simp]:
  "python_control_duration d m = (r, m') \<Longrightarrow> blacklist_on m' = blacklist_on m \<and> m_gp m' = m_gp m
     \<and> m_timers m' = m_timers m \<and> m_gp_flag m' = m_gp_flag m"
  by (auto simp: python_control_duration_def blacklist_on_def stderr_def Let_def split: if_splits)


end
