(* ===== verification/Wire.thy ===== *)
theory Wire
  imports Prelude "HOL-Library.Word"
begin

unbundle bit_operations_syntax

text \<open>
  The DNS wire codec of the proxy (\<open>dns_proxy/dnswire.py\<close>): octets, presentation names, the label
  reader with its compression pointers, \<open>parse\<close> and the compressing \<open>encode\<close>.  An octet is an
  \<open>8 word\<close>, a header field or a type a \<open>16 word\<close>, a TTL a \<open>32 word\<close>.  The texts of the exceptions
  are shortened: they do not repeat the offending name.
\<close>

type_synonym octet = "8 word"

type_synonym bytes = "octet list"

text \<open>\<open>WireError\<close> is a subclass of \<open>ValueError\<close>; \<open>struct.error\<close> is neither.\<close>

datatype wire_error = Wire_error string | Value_error string | Struct_error

fun is_value_error :: "wire_error \<Rightarrow> bool" where
  "is_value_error Struct_error = False"
| "is_value_error e = True"

subsection \<open>Constants\<close>

definition flag_qr :: "16 word" where "flag_qr = 0x8000"
definition flag_aa :: "16 word" where "flag_aa = 0x0400"
definition flag_tc :: "16 word" where "flag_tc = 0x0200"
definition flag_rd :: "16 word" where "flag_rd = 0x0100"
definition flag_ra :: "16 word" where "flag_ra = 0x0080"
definition flag_cd :: "16 word" where "flag_cd = 0x0010"
definition opcode_mask :: "16 word" where "opcode_mask = 0x7800"

definition class_in :: "16 word" where "class_in = 1"
definition class_any :: "16 word" where "class_any = 255"
definition type_cname :: "16 word" where "type_cname = 5"
definition type_opt :: "16 word" where "type_opt = 41"
definition type_rrsig :: "16 word" where "type_rrsig = 46"

definition type_names :: "(16 word \<times> string) list" where
  "type_names = [(1, ''A''), (2, ''NS''), (5, ''CNAME''), (6, ''SOA''), (12, ''PTR''), (15, ''MX''), (16, ''TXT''),
     (24, ''SIG''), (28, ''AAAA''), (33, ''SRV''), (39, ''DNAME''), (41, ''OPT''), (43, ''DS''), (46, ''RRSIG''),
     (47, ''NSEC''), (48, ''DNSKEY''), (50, ''NSEC3''), (51, ''NSEC3PARAM''), (64, ''SVCB''), (65, ''HTTPS''),
     (255, ''ANY'')]"

definition type_str :: "16 word \<Rightarrow> string" where
  "type_str t = (case map_of type_names t of Some n \<Rightarrow> n | None \<Rightarrow> ''TYPE'' @ nat_text (unat t))"

text \<open>The rdata layouts: \<open>Some n\<close> is a run of fixed octets, \<open>None\<close> a domain name.\<close>

definition name_layouts :: "(16 word \<times> nat option list) list" where
  "name_layouts = [(2, [None]), (3, [None]), (4, [None]), (5, [None]), (6, [None, None, Some 20]), (7, [None]),
     (8, [None]), (9, [None]), (12, [None]), (14, [None, None]), (15, [Some 2, None])]"

definition max_name :: nat where "max_name = 255"
definition max_label :: nat where "max_label = 63"
definition max_hops :: nat where "max_hops = 127"
definition header_size :: nat where "header_size = 12"

subsection \<open>Messages\<close>

record Question =
  qn_name :: string
  qn_type :: "16 word"
  qn_class :: "16 word"

record RR =
  rr_name :: string
  rr_type :: "16 word"
  rr_class :: "16 word"
  rr_ttl :: "32 word"
  rr_rdata :: bytes

record Message =
  ms_id :: "16 word"
  ms_flags :: "16 word"
  ms_questions :: "Question list"
  ms_answers :: "RR list"
  ms_authority :: "RR list"
  ms_additional :: "RR list"

definition rcode :: "Message \<Rightarrow> 16 word" where
  "rcode m = ms_flags m AND 0xF"

definition edns_udp_size :: "16 word" where "edns_udp_size = 1232"

definition make_opt :: "16 word \<Rightarrow> bool \<Rightarrow> bytes \<Rightarrow> RR" where
  "make_opt udp_size do_bit options = \<lparr>rr_name = [dot], rr_type = type_opt, rr_class = udp_size,
     rr_ttl = (if do_bit then 0x8000 else 0), rr_rdata = options\<rparr>"

subsection \<open>Octet order\<close>

definition u16_bytes :: "16 word \<Rightarrow> bytes" where
  "u16_bytes w = [ucast (drop_bit 8 w), ucast w]"

definition u16_of :: "octet \<Rightarrow> octet \<Rightarrow> 16 word" where
  "u16_of hi lo = push_bit 8 (ucast hi) OR ucast lo"

definition u32_bytes :: "32 word \<Rightarrow> bytes" where
  "u32_bytes w = [ucast (drop_bit 24 w), ucast (drop_bit 16 w), ucast (drop_bit 8 w), ucast w]"

definition u32_of :: "octet \<Rightarrow> octet \<Rightarrow> octet \<Rightarrow> octet \<Rightarrow> 32 word" where
  "u32_of a b c d = push_bit 24 (ucast a) OR push_bit 16 (ucast b) OR push_bit 8 (ucast c) OR ucast d"

definition read_u16 :: "bytes \<Rightarrow> nat \<Rightarrow> 16 word" where
  "read_u16 data pos = u16_of (data ! pos) (data ! (pos + 1))"

definition read_u32 :: "bytes \<Rightarrow> nat \<Rightarrow> 32 word" where
  "read_u32 data pos = u32_of (data ! pos) (data ! (pos + 1)) (data ! (pos + 2)) (data ! (pos + 3))"

text \<open>\<open>bytes.lower\<close>.\<close>

definition lower_octet :: "octet \<Rightarrow> octet" where
  "lower_octet b = (if 0x41 \<le> b \<and> b \<le> 0x5A then b + 32 else b)"

definition lower_bytes :: "bytes \<Rightarrow> bytes" where
  "lower_bytes l = map lower_octet l"

subsection \<open>Names\<close>

definition pad3 :: "nat \<Rightarrow> string" where
  "pad3 n = [char_of (48 + n div 100), char_of (48 + n div 10 mod 10), char_of (48 + n mod 10)]"

definition octet_chars :: "octet \<Rightarrow> string" where
  "octet_chars b =
    (if b = 0x2E \<or> b = 0x5C then [CHR 0x5C, char_of (unat b)]
     else if 0x21 \<le> b \<and> b \<le> 0x7E then [char_of (unat b)]
     else CHR 0x5C # pad3 (unat b))"

definition label_text :: "bytes \<Rightarrow> string" where
  "label_text label = concat (map octet_chars label)"

definition labels_to_text :: "bytes list \<Rightarrow> string" where
  "labels_to_text labels =
    (let text = concat (map (\<lambda>l. label_text l @ [dot]) labels) in if text = [] then [dot] else text)"

text \<open>\<open>str.encode\<close> of one character, and \<open>str.isdigit\<close>, which also holds for the superscripts.\<close>

definition utf8 :: "char \<Rightarrow> bytes" where
  "utf8 c = (let n = code_pt c in
     if n < 128 then [of_nat n] else [of_nat (192 + n div 64), of_nat (128 + n mod 64)])"

definition is_py_digit :: "char \<Rightarrow> bool" where
  "is_py_digit c \<longleftrightarrow> is_dec c \<or> code_pt c \<in> {178, 179, 185}"

text \<open>The scan of \<open>name_to_labels\<close>: the finished labels and the one under way.  \<open>int()\<close> rejects a
  superscript with the same \<open>ValueError\<close>.\<close>

function name_scan :: "string \<Rightarrow> bytes \<Rightarrow> bytes list \<Rightarrow> wire_error + bytes list \<times> bytes" where
  "name_scan [] current labels = Inr (labels, current)"
| "name_scan (c # s) current labels =
    (if c = CHR 0x5C then
      (case s of
         [] \<Rightarrow> Inl (Value_error ''dangling escape'')
       | d # s' \<Rightarrow>
          if is_py_digit d then
            (if length (take 3 s) \<noteq> 3 \<or> \<not> list_all is_dec (take 3 s) \<or> dec_value (take 3 s) > 255
             then Inl (Value_error ''bad DDD escape'')
             else name_scan (drop 3 s) (current @ [of_nat (dec_value (take 3 s))]) labels)
          else name_scan s' (current @ utf8 d) labels)
     else if c = dot then
      (if current = [] then Inl (Value_error ''empty label'') else name_scan s [] (labels @ [current]))
     else name_scan s (current @ utf8 c) labels)"
  by pat_completeness auto

termination by (relation "measure (\<lambda>(s, _, _). length s)") auto

definition wire_length :: "bytes list \<Rightarrow> nat" where
  "wire_length labels = sum_list (map (\<lambda>l. length l + 1) labels) + 1"

definition name_to_labels :: "string \<Rightarrow> wire_error + bytes list" where
  "name_to_labels name =
    (if name = [dot] then Inr []
     else if name = [] then Inl (Value_error ''empty name'')
     else (case name_scan name [] [] of
         Inl e \<Rightarrow> Inl e
       | Inr (done, current) \<Rightarrow>
          (let labels = (if current = [] then done else done @ [current]) in
           if list_ex (\<lambda>l. max_label < length l) labels then Inl (Value_error ''label longer than 63 octets'')
           else if max_name < wire_length labels then Inl (Value_error ''name longer than 255 octets'')
           else Inr labels)))"

definition plain_name :: "bytes list \<Rightarrow> bytes" where
  "plain_name labels = concat (map (\<lambda>l. of_nat (length l) # l) labels) @ [0]"

definition encode_name :: "string \<Rightarrow> wire_error + bytes" where
  "encode_name name = map_sum id plain_name (name_to_labels name)"

text \<open>\<open>_read_labels\<close>: the loop, with its variables.\<close>

function wire_labels ::
  "bytes \<Rightarrow> nat \<Rightarrow> bytes list \<Rightarrow> nat \<Rightarrow> nat option \<Rightarrow> nat \<Rightarrow> wire_error + bytes list \<times> nat" where
  "wire_labels data cur labels len stop hops =
    (if length data \<le> cur then Inl (Wire_error ''truncated name'')
     else if data ! cur = 0 then Inr (labels, case stop of Some e \<Rightarrow> e | None \<Rightarrow> cur + 1)
     else if data ! cur AND 0xC0 = 0xC0 then
      (if length data \<le> cur + 1 then Inl (Wire_error ''truncated compression pointer'')
       else
        (let goal = push_bit 8 (unat (data ! cur AND 0x3F)) OR unat (data ! (cur + 1)) in
         if cur \<le> goal then Inl (Wire_error ''compression pointer does not point backwards'')
         else if max_hops < hops + 1 then Inl (Wire_error ''more than 127 compression pointers in one name'')
         else wire_labels data goal labels len (case stop of Some e \<Rightarrow> Some e | None \<Rightarrow> Some (cur + 2)) (hops + 1)))
     else if data ! cur AND 0xC0 \<noteq> 0 then Inl (Wire_error ''reserved label type or label longer than 63 octets'')
     else
      (let n = unat (data ! cur) in
       if length data < cur + 1 + n then Inl (Wire_error ''truncated label'')
       else if max_name < len + 1 + n then Inl (Wire_error ''name longer than 255 octets'')
       else wire_labels data (cur + 1 + n) (labels @ [take n (drop (cur + 1) data)]) (len + 1 + n) stop hops))"
  by pat_completeness auto

termination
  by (relation "measures [\<lambda>(_, _, _, _, _, hops). max_hops - hops, \<lambda>(data, cur, _). length data - cur]")
    (auto simp: Let_def)

declare wire_labels.simps [simp del]

definition read_name :: "bytes \<Rightarrow> nat \<Rightarrow> wire_error + bytes list \<times> nat" where
  "read_name data pos = wire_labels data pos [] 1 None 0"

definition name_from_rdata :: "bytes \<Rightarrow> wire_error + string" where
  "name_from_rdata rdata = map_sum id (\<lambda>r. labels_to_text (fst r)) (read_name rdata 0)"

subsection \<open>Parsing\<close>

fun expand_parts :: "bytes \<Rightarrow> nat option list \<Rightarrow> nat \<Rightarrow> nat \<Rightarrow> bytes \<Rightarrow> wire_error + bytes" where
  "expand_parts data [] cur stop out =
    (if cur \<noteq> stop then Inl (Wire_error ''rdata length mismatch'') else Inr out)"
| "expand_parts data (None # parts) cur stop out =
    (case read_name data cur of
       Inl e \<Rightarrow> Inl e
     | Inr (labels, cur') \<Rightarrow>
        if stop < cur' then Inl (Wire_error ''name overruns rdata'')
        else expand_parts data parts cur' stop (out @ plain_name labels))"
| "expand_parts data (Some n # parts) cur stop out =
    (if stop < cur + n then Inl (Wire_error ''fixed rdata field overruns rdata'')
     else expand_parts data parts (cur + n) stop (out @ take n (drop cur data)))"

definition expand_rdata :: "bytes \<Rightarrow> 16 word \<Rightarrow> nat \<Rightarrow> nat \<Rightarrow> wire_error + bytes" where
  "expand_rdata data rtype start stop = (case map_of name_layouts rtype of
       None \<Rightarrow> Inr (take (stop - start) (drop start data))
     | Some layout \<Rightarrow> expand_parts data layout start stop [])"

definition parse_question :: "bytes \<Rightarrow> nat \<Rightarrow> wire_error + Question \<times> nat" where
  "parse_question data pos =
    (case read_name data pos of
       Inl e \<Rightarrow> Inl e
     | Inr (labels, pos) \<Rightarrow>
        if length data < pos + 4 then Inl (Wire_error ''truncated question'')
        else Inr (\<lparr>qn_name = labels_to_text labels, qn_type = read_u16 data pos, qn_class = read_u16 data (pos + 2)\<rparr>,
          pos + 4))"

definition parse_rr :: "bytes \<Rightarrow> nat \<Rightarrow> wire_error + RR \<times> nat" where
  "parse_rr data pos =
    (case read_name data pos of
       Inl e \<Rightarrow> Inl e
     | Inr (labels, pos) \<Rightarrow>
        if length data < pos + 10 then Inl (Wire_error ''truncated record'')
        else
         (let rtype = read_u16 data pos; rclass = read_u16 data (pos + 2); ttl = read_u32 data (pos + 4);
              rdlength = unat (read_u16 data (pos + 8)); pos = pos + 10 in
          if length data < pos + rdlength then Inl (Wire_error ''rdata overruns packet'')
          else (case expand_rdata data rtype pos (pos + rdlength) of
             Inl e \<Rightarrow> Inl e
           | Inr rdata \<Rightarrow> Inr (\<lparr>rr_name = labels_to_text labels, rr_type = rtype, rr_class = rclass,
               rr_ttl = ttl, rr_rdata = rdata\<rparr>, pos + rdlength))))"

text \<open>\<open>count\<close> items read one after the other.\<close>

fun read_items :: "(nat \<Rightarrow> 'e + 'a \<times> nat) \<Rightarrow> nat \<Rightarrow> nat \<Rightarrow> 'e + 'a list \<times> nat" where
  "read_items item 0 pos = Inr ([], pos)"
| "read_items item (Suc count) pos =
    (case item pos of
       Inl e \<Rightarrow> Inl e
     | Inr (x, pos) \<Rightarrow>
        (case read_items item count pos of Inl e \<Rightarrow> Inl e | Inr (xs, pos) \<Rightarrow> Inr (x # xs, pos)))"

definition parse_message :: "bytes \<Rightarrow> wire_error + Message" where
  "parse_message data =
    (if length data < header_size then Inl (Wire_error ''short header'')
     else
      (let count = \<lambda>pos. unat (read_u16 data pos) in
       if length data - header_size < count 4 * 5 + (count 6 + count 8 + count 10) * 11
       then Inl (Wire_error ''record counts exceed packet size'')
       else (case read_items (parse_question data) (count 4) header_size of
           Inl e \<Rightarrow> Inl e
         | Inr (questions, pos) \<Rightarrow>
        (case read_items (parse_rr data) (count 6) pos of
           Inl e \<Rightarrow> Inl e
         | Inr (answers, pos) \<Rightarrow>
        (case read_items (parse_rr data) (count 8) pos of
           Inl e \<Rightarrow> Inl e
         | Inr (authority, pos) \<Rightarrow>
        (case read_items (parse_rr data) (count 10) pos of
           Inl e \<Rightarrow> Inl e
         | Inr (additional, pos) \<Rightarrow>
            Inr \<lparr>ms_id = read_u16 data 0, ms_flags = read_u16 data 2, ms_questions = questions,
              ms_answers = answers, ms_authority = authority, ms_additional = additional\<rparr>))))))"

subsection \<open>Encoding\<close>

text \<open>The output so far and the offset of every suffix written, by its lower-cased labels.\<close>

type_synonym writer = "bytes \<times> (bytes list \<times> nat) list"

fun put_labels :: "bytes list \<Rightarrow> writer \<Rightarrow> writer" where
  "put_labels [] (out, seen) = (out @ [0], seen)"
| "put_labels (l # ls) (out, seen) =
    (let key = map lower_bytes (l # ls) in
     case map_of seen key of
       Some off \<Rightarrow> (out @ u16_bytes (0xC000 OR of_nat off), seen)
     | None \<Rightarrow> put_labels ls (out @ of_nat (length l) # l,
         if length out < 0x4000 then (key, length out) # seen else seen))"

definition put_name :: "string \<Rightarrow> writer \<Rightarrow> wire_error + writer" where
  "put_name name w = map_sum id (\<lambda>labels. put_labels labels w) (name_to_labels name)"

definition put_bytes :: "bytes \<Rightarrow> writer \<Rightarrow> writer" where
  "put_bytes bs w = (fst w @ bs, snd w)"

definition put_question :: "Question \<Rightarrow> writer \<Rightarrow> wire_error + writer" where
  "put_question q w = map_sum id (put_bytes (u16_bytes (qn_type q) @ u16_bytes (qn_class q))) (put_name (qn_name q) w)"

definition put_rr :: "RR \<Rightarrow> writer \<Rightarrow> wire_error + writer" where
  "put_rr rr w = (case put_name (rr_name rr) w of
       Inl e \<Rightarrow> Inl e
     | Inr w \<Rightarrow>
        if 0xFFFF < length (rr_rdata rr) then Inl Struct_error
        else Inr (put_bytes (u16_bytes (rr_type rr) @ u16_bytes (rr_class rr) @ u32_bytes (rr_ttl rr)
          @ u16_bytes (of_nat (length (rr_rdata rr))) @ rr_rdata rr) w))"

text \<open>A loop that stops at the first exception.\<close>

fun put_all :: "('a \<Rightarrow> 'w \<Rightarrow> 'e + 'w) \<Rightarrow> 'a list \<Rightarrow> 'w \<Rightarrow> 'e + 'w" where
  "put_all put [] w = Inr w"
| "put_all put (x # xs) w = (case put x w of Inl e \<Rightarrow> Inl e | Inr w \<Rightarrow> put_all put xs w)"

definition header_bytes :: "Message \<Rightarrow> bytes" where
  "header_bytes m = u16_bytes (ms_id m) @ u16_bytes (ms_flags m) @ u16_bytes (of_nat (length (ms_questions m)))
     @ u16_bytes (of_nat (length (ms_answers m))) @ u16_bytes (of_nat (length (ms_authority m)))
     @ u16_bytes (of_nat (length (ms_additional m)))"

definition encode_message :: "Message \<Rightarrow> wire_error + bytes" where
  "encode_message m =
    (if 0xFFFF < length (ms_questions m) \<or> 0xFFFF < length (ms_answers m) \<or> 0xFFFF < length (ms_authority m)
        \<or> 0xFFFF < length (ms_additional m)
     then Inl Struct_error
     else (case put_all put_question (ms_questions m) (header_bytes m, []) of
         Inl e \<Rightarrow> Inl e
       | Inr w \<Rightarrow> map_sum id fst (put_all put_rr (ms_answers m @ ms_authority m @ ms_additional m) w)))"

subsection \<open>Text records\<close>

text \<open>\<open>ipaddress.IPv4Address\<close> and \<open>IPv6Address\<close> of a text, packed.\<close>

definition v4_octet :: "string \<Rightarrow> octet option" where
  "v4_octet s = (if s \<noteq> [] \<and> list_all is_dec s \<and> length s \<le> 3 \<and> (hd s \<noteq> CHR ''0'' \<or> length s = 1) \<and> dec_value s \<le> 255
     then Some (of_nat (dec_value s)) else None)"

definition ipv4_packed :: "string \<Rightarrow> bytes option" where
  "ipv4_packed s = (let parts = map v4_octet (split_on dot s) in
     if length parts = 4 \<and> list_all (\<lambda>p. p \<noteq> None) parts then Some (map the parts) else None)"

definition hex_value :: "char \<Rightarrow> nat option" where
  "hex_value c = (let n = code_pt c in
     if 48 \<le> n \<and> n \<le> 57 then Some (n - 48)
     else if 65 \<le> n \<and> n \<le> 70 then Some (n - 55)
     else if 97 \<le> n \<and> n \<le> 102 then Some (n - 87) else None)"

definition hextet :: "string \<Rightarrow> bytes option" where
  "hextet s = (if s \<noteq> [] \<and> length s \<le> 4 \<and> list_all (\<lambda>c. hex_value c \<noteq> None) s
     then (let n = fold (\<lambda>c n. 16 * n + the (hex_value c)) s 0 in Some [of_nat (n div 256), of_nat (n mod 256)])
     else None)"

definition hextets :: "string list \<Rightarrow> bytes option" where
  "hextets parts = (let hs = map hextet parts in
     if list_all (\<lambda>h. h \<noteq> None) hs then Some (concat (map the hs)) else None)"

text \<open>The groups of an address whose dotted tail is replaced by two hextets: \<open>skips\<close> are the inner
  indexes of an empty group.\<close>

definition ipv6_groups :: "string list \<Rightarrow> bytes option" where
  "ipv6_groups parts =
    (let n = length parts; skips = filter (\<lambda>i. parts ! i = []) [1..<n - 1] in
     if 9 < n \<or> 1 < length skips then None
     else (case skips of
         [] \<Rightarrow> if n \<noteq> 8 then None else hextets parts
       | skip # _ \<Rightarrow>
          (let hi = (if parts ! 0 = [] then skip - 1 else skip);
               lo = (if parts ! (n - 1) = [] then n - skip - 2 else n - skip - 1) in
           if parts ! 0 = [] \<and> hi \<noteq> 0 \<or> parts ! (n - 1) = [] \<and> lo \<noteq> 0 \<or> 8 < hi + lo + 1 then None
           else (case (hextets (take hi parts), hextets (drop (n - lo) parts)) of
               (Some a, Some b) \<Rightarrow> Some (a @ replicate (2 * (8 - (hi + lo))) 0 @ b)
             | _ \<Rightarrow> None))))"

definition hex4 :: "octet \<Rightarrow> octet \<Rightarrow> string" where
  "hex4 a b = map hex_digit [unat a div 16, unat a mod 16, unat b div 16, unat b mod 16]"

definition ipv6_packed :: "string \<Rightarrow> bytes option" where
  "ipv6_packed s =
    (let parts = split_on (CHR '':'') (before_first (CHR ''%'') s); tail = last parts in
     if CHR ''/'' \<in> set s \<or> CHR ''%'' \<in> set s \<and> (after_first (CHR ''%'') s = [] \<or> CHR ''%'' \<in> set (after_first (CHR ''%'') s))
     then None
     else if length parts < 3 then None
     else if dot \<in> set tail then
      (case ipv4_packed tail of
         Some [a, b, c, d] \<Rightarrow> ipv6_groups (butlast parts @ [hex4 a b, hex4 c d])
       | _ \<Rightarrow> None)
     else ipv6_groups parts)"

text \<open>\<open>shlex.split\<close>: between words, in a word, inside quotes, or after a backslash in a word or in
  double quotes.  \<open>quoted\<close> is whether the word had quotes, so that an empty one counts.\<close>

datatype lex_state = Between | Word | Quote char | Escape "char option"

definition end_word :: "string \<Rightarrow> bool \<Rightarrow> string list" where
  "end_word tok quoted = (if tok \<noteq> [] \<or> quoted then [tok] else [])"

primrec shlex_run :: "string \<Rightarrow> lex_state \<Rightarrow> string \<Rightarrow> bool \<Rightarrow> wire_error + string list" where
  "shlex_run [] st tok quoted = (case st of
       Quote q \<Rightarrow> Inl (Value_error ''No closing quotation'')
     | Escape e \<Rightarrow> Inl (Value_error ''No escaped character'')
     | _ \<Rightarrow> Inr (end_word tok quoted))"
| "shlex_run (c # s) st tok quoted = (case st of
       Quote q \<Rightarrow>
        (if c = q then shlex_run s Word tok True
         else if c = CHR 0x5C \<and> q = CHR 0x22 then shlex_run s (Escape (Some q)) tok True
         else shlex_run s (Quote q) (tok @ [c]) True)
     | Escape None \<Rightarrow> shlex_run s Word (tok @ [c]) quoted
     | Escape (Some q) \<Rightarrow>
         shlex_run s (Quote q) (tok @ (if c \<noteq> CHR 0x5C \<and> c \<noteq> q then [CHR 0x5C] else []) @ [c]) quoted
     | _ \<Rightarrow>
        (if c \<in> {CHR 0x20, CHR 0x09, CHR 0x0D, CHR 0x0A}
         then map_sum id (\<lambda>words. end_word tok quoted @ words) (shlex_run s Between [] False)
         else if c = CHR 0x5C then shlex_run s (Escape None) tok quoted
         else if c = CHR 0x22 \<or> c = CHR 0x27 then shlex_run s (Quote c) tok quoted
         else shlex_run s Word (tok @ [c]) quoted))"

definition shlex_split :: "string \<Rightarrow> wire_error + string list" where
  "shlex_split s = shlex_run s Between [] False"

text \<open>\<open>s.split(None, n)\<close> and \<open>s.split()\<close>.\<close>

fun split_ws :: "nat \<Rightarrow> string \<Rightarrow> string list" where
  "split_ws 0 s = (let t = lstrip_of is_space s in if t = [] then [] else [t])"
| "split_ws (Suc n) s =
    (let t = lstrip_of is_space s in
     if t = [] then []
     else takeWhile (\<lambda>c. \<not> is_space c) t # split_ws n (dropWhile (\<lambda>c. \<not> is_space c) t))"

definition split_all_ws :: "string \<Rightarrow> string list" where
  "split_all_ws s = split_ws (length s) s"

text \<open>\<open>int(s)\<close> of a text without blanks: a sign, digits, single underscores between digits.\<close>

fun int_digits :: "bool \<Rightarrow> string \<Rightarrow> string option" where
  "int_digits ready [] = (if ready then Some [] else None)"
| "int_digits ready (c # s) =
    (if is_dec c then map_option (\<lambda>ds. c # ds) (int_digits True s)
     else if c = CHR ''_'' \<and> ready \<and> s \<noteq> [] then int_digits False s
     else None)"

definition py_int :: "string \<Rightarrow> int option" where
  "py_int s =
    (let (sign, body) = (case s of
         c # t \<Rightarrow> if c = hyphen then (-1, t) else if c = CHR ''+'' then (1, t) else (1, s)
       | [] \<Rightarrow> (1, s)) in
     case int_digits False body of
       Some ds \<Rightarrow> if length ds \<le> 4300 then Some (sign * dec_int ds) else None
     | None \<Rightarrow> None)"

definition txt_rdata :: "string \<Rightarrow> wire_error + bytes" where
  "txt_rdata s = (case shlex_split s of
       Inl e \<Rightarrow> Inl e
     | Inr tokens \<Rightarrow>
        (let strings = map (\<lambda>t. concat (map utf8 t)) tokens in
         if strings = [] \<or> list_ex (\<lambda>t. 255 < length t) strings
         then Inl (Value_error ''TXT needs at least one character-string of at most 255 octets'')
         else Inr (concat (map (\<lambda>t. of_nat (length t) # t) strings))))"

definition soa_rdata :: "string \<Rightarrow> wire_error + bytes" where
  "soa_rdata s =
    (let fields = split_all_ws s; numbers = map py_int (drop 2 fields) in
     if length fields \<noteq> 7 then Inl (Value_error ''SOA rdata is: mname rname serial refresh retry expire minimum'')
     else if list_ex (\<lambda>n. n = None) numbers then Inl (Value_error ''invalid literal for int() with base 10'')
     else if list_ex (\<lambda>n. the n < 0 \<or> 0xFFFFFFFF < the n) numbers then Inl (Value_error ''SOA counter out of range'')
     else (case encode_name (fields ! 0) of
         Inl e \<Rightarrow> Inl e
       | Inr mname \<Rightarrow>
      (case encode_name (fields ! 1) of
         Inl e \<Rightarrow> Inl e
       | Inr rname \<Rightarrow> Inr (mname @ rname @ concat (map (\<lambda>n. u32_bytes (of_int (the n))) numbers)))))"

definition cname_rdata :: "string \<Rightarrow> wire_error + bytes" where
  "cname_rdata s = (case split_all_ws s of
       [f] \<Rightarrow> encode_name f
     | _ \<Rightarrow> Inl (Value_error ''CNAME rdata is one target name''))"

definition address_rdata :: "(string \<Rightarrow> bytes option) \<Rightarrow> string \<Rightarrow> wire_error + bytes" where
  "address_rdata packed s = (case packed (strip s) of
       Some bs \<Rightarrow> Inr bs | None \<Rightarrow> Inl (Value_error ''not an address''))"

definition text_rdata :: "(string \<times> (16 word \<times> (string \<Rightarrow> wire_error + bytes))) list" where
  "text_rdata = [(''a'', 1, address_rdata ipv4_packed), (''aaaa'', 28, address_rdata ipv6_packed),
     (''cname'', 5, cname_rdata), (''txt'', 16, txt_rdata), (''soa'', 6, soa_rdata)]"

text \<open>On Latin-1, two texts have the same upper case when they have the same lower case, if one of
  them is plain ASCII.\<close>

definition rr_from_text :: "string \<Rightarrow> wire_error + RR" where
  "rr_from_text line = (case split_ws 4 line of
       [name, ttl, rclass, rtype, text_of] \<Rightarrow>
        (if ttl = [] \<or> \<not> list_all is_dec ttl \<or> 4300 < length ttl \<or> 0xFFFFFFFF < dec_int ttl
         then Inl (Value_error ''bad ttl'')
         else if lower rclass \<noteq> ''in'' then Inl (Value_error ''unsupported class'')
         else (case map_of text_rdata (lower rtype) of
             None \<Rightarrow> Inl (Value_error ''unsupported RR type'')
           | Some (code, build) \<Rightarrow>
              (case name_to_labels name of
                 Inl e \<Rightarrow> Inl e
               | Inr _ \<Rightarrow> map_sum id (\<lambda>rd. \<lparr>rr_name = name, rr_type = code, rr_class = class_in,
                   rr_ttl = of_int (dec_int ttl), rr_rdata = rd\<rparr>) (build text_of))))
     | _ \<Rightarrow> Inl (Value_error ''expected: name ttl IN type rdata''))"

end
