(* ===== verification/Operate.thy ===== *)
theory Operate
  imports Control Wire
begin

text \<open>
  \<open>operate\<close>: the module's handler of one query event.  It answers an AAAA suppression, a SafeSearch
  rewrite, a control command or a DNSBL block itself and otherwise hands the query on.  Unbound's
  objects are the records below; \<open>DNSMessage.set_return_msg\<close> and the message cache are Unbound's, and
  so are parameters (\<open>unbound\<close>).
\<close>

subsection \<open>Unbound's objects\<close>

text \<open>The first \<open>rr_count\<close> of \<open>rr_datas\<close> are the RRs of the set, each two octets of length and the RDATA,
  then come its \<open>rr_sigs\<close> signatures.\<close>

record rrset =
  rr_type_str :: string
  rr_count :: nat
  rr_sigs :: nat
  rr_datas :: "nat list list"
  rr_ttls :: "nat list"

text \<open>\<open>rp_rrsets\<close> are the sets of the three sections, whose lengths are \<open>rp_an\<close>, \<open>rp_ns\<close> and \<open>rp_ar\<close>.\<close>

record reply =
  rp_flags :: "16 word"
  rp_ttl :: nat
  rp_security :: nat
  rp_authoritative :: bool
  rp_an :: nat
  rp_ns :: nat
  rp_ar :: nat
  rp_rrsets :: "rrset list"

text \<open>\<open>rm_ref\<close> tells one message object from another.\<close>

record return_msg =
  rm_ref :: nat
  rm_qname :: "string option"
  rm_qtype :: nat
  rm_qclass :: nat
  rm_rep :: reply
  rm_answer :: "RR list"
  rm_authority :: "RR list"
  rm_additional :: "RR list"

text \<open>The sets of the answer section and the RRs of a set.\<close>

definition answer_sets :: "return_msg \<Rightarrow> rrset list" where
  "answer_sets m = take (rp_an (rm_rep m)) (rp_rrsets (rm_rep m))"

definition set_rrs :: "rrset \<Rightarrow> nat list list" where
  "set_rrs rr = take (rr_count rr) (rr_datas rr)"

text \<open>\<open>qs_qname_list\<close> is \<open>None\<close> when decoding the labels raises; \<open>qs_addrs\<close> is the client address of
  each entry of the reply list, \<open>None\<close> where \<open>query_reply\<close> is unset.\<close>

record qstate =
  qs_qname :: "string option"
  qs_qtype :: "nat option"
  qs_qtype_str :: string
  qs_qname_list :: "string list option"
  qs_addrs :: "string option list"
  qs_return_msg :: "return_msg option"
  qs_return_rcode :: nat
  qs_ext_state :: nat
  qs_no_cache_store :: bool

record dns_message =
  dm_name :: string
  dm_type :: nat
  dm_flags :: nat
  dm_answer :: "string list"
  dm_authority :: "string list"

record unbound =
  ub_set_return_msg :: "dns_message \<Rightarrow> qstate \<Rightarrow> return_msg option"
  ub_store :: "qstate \<Rightarrow> bool \<Rightarrow> bool"

definition rr_type_a :: nat where "rr_type_a = 1"
definition rr_type_cname :: nat where "rr_type_cname = 5"
definition rr_type_txt :: nat where "rr_type_txt = 16"
definition rr_type_aaaa :: nat where "rr_type_aaaa = 28"
definition rr_type_any :: nat where "rr_type_any = 255"

text \<open>A, AAAA, ANY, CNAME, DNAME, SIG, MX, NS, PTR, SRV, TXT, SVCB and HTTPS.\<close>

definition rr_types :: "nat list" where
  "rr_types = [1, 28, 255, 5, 39, 24, 15, 2, 12, 33, 16, 64, 65]"

definition pkt_qr :: nat where "pkt_qr = 1"
definition pkt_rd :: nat where "pkt_rd = 8"
definition pkt_ra :: nat where "pkt_ra = 32"

definition rcode_noerror :: nat where "rcode_noerror = 0"

definition event_new :: nat where "event_new = 0"
definition event_pass :: nat where "event_pass = 1"
definition event_moddone :: nat where "event_moddone = 5"

definition module_wait_module :: nat where "module_wait_module = 2"
definition module_restart_next :: nat where "module_restart_next = 3"
definition module_error :: nat where "module_error = 5"
definition module_finished :: nat where "module_finished = 6"

definition sec_status_insecure :: nat where "sec_status_insecure = 3"

definition dnsbl_nodata_soa_rdata :: string where
  "dnsbl_nodata_soa_rdata = ''pfb.invalid. nobody.invalid. 1 3600 1200 604800 3600''"

subsection \<open>Reading the query\<close>

definition is_unknown :: "string \<Rightarrow> string" where
  "is_unknown x = (if x = [] then ''Unknown'' else x)"

definition get_q_name_qstate :: "qstate \<Rightarrow> string" where
  "get_q_name_qstate q =
    (let blank = (\<lambda>n. case n of None \<Rightarrow> True | Some s \<Rightarrow> strip s = []);
         name = (if blank (qs_qname q)
           then (case qs_return_msg q of Some m \<Rightarrow> (if rm_qname m \<noteq> None then rm_qname m else qs_qname q)
             | None \<Rightarrow> qs_qname q)
           else qs_qname q) in
     is_unknown (if blank name then [] else rstrip_dots (the name)))"

definition get_q_ip :: "qstate \<Rightarrow> string" where
  "get_q_ip q = is_unknown (case find (\<lambda>a. a \<noteq> None) (qs_addrs q) of Some (Some ip) \<Rightarrow> ip | _ \<Rightarrow> [])"

definition get_q_type :: "qstate \<Rightarrow> string" where
  "get_q_type q = is_unknown (qs_qtype_str q)"

definition get_tld :: "qstate \<Rightarrow> string" where
  "get_tld q = (case qs_qname_list q of
       None \<Rightarrow> []
     | Some labels \<Rightarrow> if length labels > 1 then lower (labels ! (length labels - 2)) else [])"

text \<open>\<open>convert_other\<close>: the labels of an uncompressed name after the two octets of the RDATA length,
  whether a length octet was malformed and whether the root label was reached.\<close>

function read_labels :: "nat list \<Rightarrow> string list \<times> bool \<times> bool" where
  "read_labels [] = ([], False, False)"
| "read_labels (n # buf) =
    (if n = 0 then ([], False, True)
     else if n > 63 \<or> n > length buf then ([], True, False)
     else (case read_labels (drop n buf) of (labels, malformed, rooted) \<Rightarrow>
       (map char_of (take n buf) # labels, malformed, rooted)))"
  by pat_completeness auto

termination by (relation "measure length") auto

definition convert_other :: "nat list \<Rightarrow> string" where
  "convert_other x =
    (if x = [] then ''Unknown''
     else (case read_labels (drop 2 x) of (labels, malformed, rooted) \<Rightarrow>
       is_unknown (if \<not> malformed \<and> (labels \<noteq> [] \<or> rooted) then join_with dot labels else [])))"

text \<open>The names of the CNAME records of an answer with more than one set, lowered, in order.\<close>

definition cname_targets :: "qstate \<Rightarrow> string list" where
  "cname_targets q = (case qs_return_msg q of
       None \<Rightarrow> []
     | Some m \<Rightarrow>
        (if rp_an (rm_rep m) > 1
         then map lower (filter (\<lambda>d. d \<noteq> ''Unknown'') (map convert_other
           (concat (map set_rrs (filter (\<lambda>rr. rr_type_str rr = ''CNAME'') (answer_sets m))))))
         else []))"

subsection \<open>Settings of the handler\<close>

record settings =
  se_noaaaa :: bool
  se_noaaaa_db :: "(string \<times> bool) list"
  se_safesearch :: bool
  se_safesearch_db :: "(string \<times> safesearch) list"
  se_python_cname :: bool
  se_python_control :: bool
  se_python_control_legacy :: bool
  se_python_nolog :: bool
  se_resolver_con :: bool
  se_ip_ok :: "string \<Rightarrow> bool"
  se_in_nets :: "string \<Rightarrow> bool"
  se_nets :: bool

text \<open>\<open>_gp_bypassed\<close>: \<open>se_in_nets\<close> is \<open>_gp_net_match\<close>, over the configured networks.\<close>

definition gp_bypassed :: "settings \<Rightarrow> modul \<Rightarrow> qstate \<Rightarrow> bool" where
  "gp_bypassed se m q =
    (if \<not> m_gp_flag m then False
     else (let q_ip = get_q_ip q in
       if q_ip = ''Unknown'' then False else q_ip \<in> set (m_gp m) \<or> (se_nets se \<and> se_in_nets se q_ip)))"

subsection \<open>Replies\<close>

text \<open>\<open>set_return_msg\<close> and what follows it: an error state when it fails, else the code, the
  security status and the final state.\<close>

definition set_security :: "nat \<Rightarrow> qstate \<Rightarrow> qstate" where
  "set_security n q = q\<lparr>qs_return_msg := map_option (\<lambda>m. m\<lparr>rm_rep := (rm_rep m)\<lparr>rp_security := n\<rparr>\<rparr>) (qs_return_msg q)\<rparr>"

definition finish_with :: "unbound \<Rightarrow> dns_message \<Rightarrow> nat \<Rightarrow> qstate \<Rightarrow> qstate" where
  "finish_with ub msg security q =
    (case ub_set_return_msg ub msg q of
       None \<Rightarrow> q\<lparr>qs_ext_state := module_error\<rparr>
     | Some rm \<Rightarrow> (set_security security (q\<lparr>qs_return_msg := Some rm, qs_return_rcode := rcode_noerror\<rparr>))
         \<lparr>qs_ext_state := module_finished\<rparr>)"

definition qname_text :: "qstate \<Rightarrow> string" where
  "qname_text q = (case qs_qname q of Some n \<Rightarrow> n | None \<Rightarrow> ''None'')"

definition new_message :: "qstate \<Rightarrow> nat \<Rightarrow> nat \<Rightarrow> string list \<Rightarrow> string list \<Rightarrow> dns_message" where
  "new_message q typ flags ans auth = \<lparr>dm_name = qname_text q, dm_type = typ, dm_flags = flags,
     dm_answer = ans, dm_authority = auth\<rparr>"

subsection \<open>Logging a block\<close>

text \<open>\<open>get_details_dnsbl\<close>: counters, the duplicate mark, and the row unless the mode is silent.\<close>

definition dedup :: "string \<times> string \<times> DnsblDecision \<Rightarrow> modul \<Rightarrow> string \<times> modul" where
  "dedup sig m = (if m_event m = Some sig then (''-'', m) else (''+'', m\<lparr>m_event := Some sig\<rparr>))"

definition get_details_dnsbl :: "settings \<Rightarrow> qstate \<Rightarrow> string \<Rightarrow> DnsblDecision \<Rightarrow> modul \<Rightarrow> modul" where
  "get_details_dnsbl se q q_ip d m =
    (let q_name = get_q_name_qstate q;
         m = (if se_resolver_con se then m\<lparr>m_tasks := m_tasks m @ [Task_resolver]\<rparr> else m) in
     if \<not> is_block d then m
     else if se_python_nolog se \<and> \<not> dd_null_blocking d then m
     else
      (let m = (if p_sqlite3_dnsbl_con (st_pfb (m_st m)) \<and> dd_group d \<noteq> []
                then m\<lparr>m_tasks := m_tasks m @ [Task_dnsbl (dd_group d)]\<rparr> else m);
           q_type = get_q_type q;
           (mark, m) = dedup (lower q_name, q_type, d) m in
       if dd_log_type d \<in> {Some ''2'', Some ''4'', Some ''6''} then m
       else m\<lparr>m_rows := m_rows m @ [\<lparr>lr_name = q_name,
         lr_ip = (if is_unknown q_ip = ''Unknown'' then ''127.0.0.1'' else q_ip),
         lr_p_type = dd_p_type d, lr_b_type = dd_b_type d, lr_group = dd_group d, lr_b_eval = dd_b_eval d,
         lr_feed = dd_feed d, lr_dup = mark, lr_q_type = q_type\<rparr>]\<rparr>))"

definition log_idn_alert :: "string \<Rightarrow> string \<Rightarrow> string \<times> string \<times> nat list \<Rightarrow> string \<Rightarrow> modul \<Rightarrow> modul" where
  "log_idn_alert q_name q_ip alert q_type m =
    (let (feed, grp, b_eval) = alert in
     m\<lparr>m_rows := m_rows m @ [\<lparr>lr_name = q_name, lr_ip = (if q_ip = ''Unknown'' then ''127.0.0.1'' else q_ip),
       lr_p_type = ''Python'', lr_b_type = ''Homoglyph_Alert'', lr_group = grp, lr_b_eval = b_eval,
       lr_feed = feed, lr_dup = ''+'', lr_q_type = q_type\<rparr>]\<rparr>)"

subsection \<open>The DNSBL stage\<close>

text \<open>One name of the chain: the verdict, and the name the answer is given under.\<close>

definition decide_name ::
  "unicode_env \<Rightarrow> re_env \<Rightarrow> Snapshot \<Rightarrow> qstate \<Rightarrow> string \<Rightarrow> string \<Rightarrow> bool \<Rightarrow> string \<Rightarrow> modul
     \<Rightarrow> py_error + (DnsblDecision \<times> string) \<times> modul" where
  "decide_name U E snap q q_name_original q_ip is_cname q_name m =
    (case memo_verdict q_name (sn_gen snap) (m_st m) of
       (None, s) \<Rightarrow>
        (let tld = (if is_cname then get_tld_from_name q_name else get_tld q) in
         case run_evaluate U E q_name q_name_original tld is_cname snap s of
           Inl e \<Rightarrow> Inl e
         | Inr (d, s) \<Rightarrow>
            (let q_name = (if is_block d \<and> is_cname then q_name_original else q_name);
                 (ref, s) = decision_for q_name (sn_gen snap) s;
                 m = m\<lparr>m_st := set_dnsbl ref d s\<rparr> in
             Inr ((d, q_name), case dd_idn_alert d of
                 Some alert \<Rightarrow> if \<not> is_block d then log_idn_alert q_name q_ip alert (get_q_type q) m else m
               | None \<Rightarrow> m)))
     | (Some d, s) \<Rightarrow>
        (if is_cname \<and> is_block d then
          (case run_evaluate U E q_name q_name_original (get_tld_from_name q_name) True snap s of
             Inl e \<Rightarrow> Inl e
           | Inr (d, s) \<Rightarrow>
              (if is_block d then
                (let (ref, s) = decision_for q_name_original (sn_gen snap) s in
                 Inr ((d, q_name_original), m\<lparr>m_st := set_dnsbl ref d s\<rparr>))
               else Inr ((d, q_name), m\<lparr>m_st := s\<rparr>)))
         else Inr ((d, q_name), m\<lparr>m_st := s\<rparr>)))"

text \<open>The answer to a block.\<close>

definition block_answer :: "pfb \<Rightarrow> nat \<Rightarrow> string \<Rightarrow> DnsblDecision \<Rightarrow> string list" where
  "block_answer p q_type q_name d =
    (if dd_log_type d \<in> {Some ''5'', Some ''6''} then []
     else (if q_type = rr_type_a \<or> q_type = rr_type_any
       then [q_name @ ''. 3600 IN A '' @ (if dd_null_blocking d then ''0.0.0.0'' else p_dnsbl_ipv4 p)] else [])
       @ (if q_type = rr_type_aaaa \<or> q_type = rr_type_any
       then [q_name @ ''. 3600 IN AAAA '' @ (if dd_null_blocking d then ''::'' else p_dnsbl_ipv6 p)] else []))"

definition soa_line :: "string \<Rightarrow> string" where
  "soa_line q_name = q_name @ ''. 3600 IN SOA '' @ dnsbl_nodata_soa_rdata"

definition block_reply ::
  "unbound \<Rightarrow> settings \<Rightarrow> nat \<Rightarrow> string \<Rightarrow> string \<Rightarrow> DnsblDecision \<Rightarrow> qstate \<Rightarrow> modul \<Rightarrow> qstate \<times> modul" where
  "block_reply ub se q_type q_ip q_name d q m =
    (if dd_nxdomain d then
       (q\<lparr>qs_return_rcode := rcode_nxdomain, qs_no_cache_store := True, qs_ext_state := module_finished\<rparr>,
        get_details_dnsbl se q q_ip d m)
     else
      (let ans = block_answer (st_pfb (m_st m)) q_type q_name d;
           msg = new_message q q_type (pkt_qr + pkt_ra) ans (if ans = [] then [soa_line q_name] else []) in
       case ub_set_return_msg ub msg q of
         None \<Rightarrow> (q\<lparr>qs_ext_state := module_error\<rparr>, m)
       | Some rm \<Rightarrow>
          ((set_security 2 (q\<lparr>qs_return_msg := Some rm, qs_return_rcode := rcode_noerror\<rparr>))
             \<lparr>qs_no_cache_store := True, qs_ext_state := module_finished\<rparr>,
           get_details_dnsbl se (q\<lparr>qs_return_msg := Some rm\<rparr>) q_ip d m)))"

text \<open>The loop over the names: it ends at the first block, with the reply set.\<close>

fun dnsbl_loop ::
  "unicode_env \<Rightarrow> re_env \<Rightarrow> unbound \<Rightarrow> settings \<Rightarrow> Snapshot \<Rightarrow> nat \<Rightarrow> string \<Rightarrow> string \<Rightarrow> bool \<Rightarrow> string list
     \<Rightarrow> qstate \<Rightarrow> modul \<Rightarrow> py_error + bool \<times> qstate \<times> modul" where
  "dnsbl_loop U E ub se snap q_type q_name_original q_ip is_cname [] q m = Inr (False, q, m)"
| "dnsbl_loop U E ub se snap q_type q_name_original q_ip is_cname (name # names) q m =
    (case decide_name U E snap q q_name_original q_ip is_cname name m of
       Inl e \<Rightarrow> Inl e
     | Inr ((d, q_name), m) \<Rightarrow>
        (if is_block d then Inr (True, block_reply ub se q_type q_ip q_name d q m)
         else dnsbl_loop U E ub se snap q_type q_name_original q_ip True names q m))"

definition dnsbl_stage ::
  "unicode_env \<Rightarrow> re_env \<Rightarrow> unbound \<Rightarrow> settings \<Rightarrow> nat \<Rightarrow> string \<Rightarrow> string \<Rightarrow> qstate \<Rightarrow> modul
     \<Rightarrow> py_error + bool \<times> qstate \<times> modul" where
  "dnsbl_stage U E ub se q_type q_name_original q_ip q m =
    (let bypass = gp_bypassed se m q; q = (if bypass then q\<lparr>qs_no_cache_store := True\<rparr> else q);
         names = (if \<not> suffix ''.in-addr.arpa'' q_name_original \<and> \<not> bypass
           then q_name_original # (if se_python_cname se then cname_targets q else []) else []) in
     case st_snapshot (m_st m) of
       None \<Rightarrow> Inl (NameError ''_snapshot'')
     | Some snap \<Rightarrow> dnsbl_loop U E ub se snap q_type q_name_original q_ip False names q m)"

subsection \<open>AAAA suppression\<close>

definition noaaaa_stage ::
  "unbound \<Rightarrow> settings \<Rightarrow> nat \<Rightarrow> string \<Rightarrow> qstate \<Rightarrow> modul \<Rightarrow> py_error + bool \<times> qstate \<times> modul" where
  "noaaaa_stage ub se q_type q_name_original q m =
    (if q_type = rr_type_aaaa \<and> se_noaaaa se then
      (case st_snapshot (m_st m) of
         None \<Rightarrow> Inl (NameError ''_snapshot'')
       | Some snap \<Rightarrow>
          (let (ref, s) = decision_for q_name_original (sn_gen snap) (m_st m);
               s = (if de_noaaaa (st_heap s ! ref) = None
                    then set_noaaaa ref (evaluate_noaaaa q_name_original (se_noaaaa_db se)) s else s);
               m = m\<lparr>m_st := s\<rparr> in
           if de_noaaaa (st_heap s ! ref) = Some True then
             Inr (True, finish_with ub (new_message q rr_type_a (pkt_qr + pkt_ra) [] [soa_line q_name_original]) 2 q, m)
           else Inr (False, q, m)))
     else Inr (False, q, m))"

subsection \<open>SafeSearch\<close>

definition safesearch_entry :: "settings \<Rightarrow> string \<Rightarrow> modul \<Rightarrow> py_error + safesearch option \<times> modul" where
  "safesearch_entry se q_name_original m =
    (case st_snapshot (m_st m) of
       None \<Rightarrow> Inl (NameError ''_snapshot'')
     | Some snap \<Rightarrow>
        (let (ref, s) = decision_for q_name_original (sn_gen snap) (m_st m);
             entry = (case map_of (se_safesearch_db se) q_name_original of
                 None \<Rightarrow> if \<not> prefix ''www.'' q_name_original
                   then map_of (se_safesearch_db se) (''www.'' @ q_name_original) else None
               | Some e \<Rightarrow> Some e);
             s = (if de_safesearch (st_heap s ! ref) = None then set_safesearch ref entry s else s) in
         Inr (case de_safesearch (st_heap s ! ref) of Some e \<Rightarrow> e | None \<Rightarrow> None, m\<lparr>m_st := s\<rparr>)))"

text \<open>The pre-resolution pass: an NXDOMAIN, a rewritten address, or nothing for a CNAME entry.\<close>

definition safesearch_stage ::
  "unbound \<Rightarrow> settings \<Rightarrow> nat \<Rightarrow> string \<Rightarrow> qstate \<Rightarrow> modul \<Rightarrow> py_error + bool \<times> qstate \<times> modul" where
  "safesearch_stage ub se q_type q_name_original q m =
    (if \<not> se_safesearch se then Inr (False, q, m)
     else (case safesearch_entry se q_name_original m of
         Inl e \<Rightarrow> Inl e
       | Inr (None, m) \<Rightarrow> Inr (False, q, m)
       | Inr (Some ss, m) \<Rightarrow>
          (let qname = qname_text q in
           if ss_A ss = ''nxdomain'' then
             Inr (True, q\<lparr>qs_return_rcode := rcode_nxdomain, qs_ext_state := module_finished\<rparr>, m)
           else if ss_A ss = ''cname'' then Inr (False, q, m)
           else if (q_type = rr_type_a \<and> ss_A ss \<noteq> []) \<or> (q_type = rr_type_aaaa \<and> ss_AAAA ss = []) then
             Inr (True, finish_with ub (new_message q rr_type_a (pkt_qr + pkt_ra)
               [qname @ '' 300 IN A '' @ ss_A ss] []) 2 q, m)
           else if q_type = rr_type_aaaa \<and> ss_AAAA ss \<noteq> [] then
             Inr (True, finish_with ub (new_message q rr_type_aaaa (pkt_qr + pkt_ra)
               [qname @ '' 300 IN AAAA '' @ ss_AAAA ss] []) 2 q, m)
           else Inr (False, q, m))))"

definition ss_answer_has_cname_to :: "qstate \<Rightarrow> string \<Rightarrow> bool" where
  "ss_answer_has_cname_to q goal =
    (let goal = lower (rstrip_dots goal) in
     case qs_return_msg q of
       None \<Rightarrow> False
     | Some m \<Rightarrow> list_ex (\<lambda>rr. rr_type_str rr = ''CNAME''
         \<and> list_ex (\<lambda>d. lower (rstrip_dots (convert_other d)) = goal) (set_rrs rr)) (answer_sets m))"

definition ss_answer_has_address :: "qstate \<Rightarrow> bool" where
  "ss_answer_has_address q = (case qs_return_msg q of
       None \<Rightarrow> False
     | Some m \<Rightarrow> list_ex (\<lambda>rr. rr_type_str rr \<in> {''A'', ''AAAA''}) (answer_sets m))"

definition safesearch_baked_fallback ::
  "unbound \<Rightarrow> nat \<Rightarrow> safesearch \<Rightarrow> qstate \<Rightarrow> bool \<times> qstate" where
  "safesearch_baked_fallback ub q_type ss q =
    (let ip = dict_get (if q_type = rr_type_a then ss_v4 ss else ss_v6 ss) [] in
     if ip = [] then (False, q)
     else (True, finish_with ub (new_message q q_type (pkt_qr + pkt_ra)
       [qname_text q @ '' 300 IN '' @ (if q_type = rr_type_a then ''A'' else ''AAAA'') @ '' '' @ ip] [])
       sec_status_insecure q))"

text \<open>The post-resolution pass.  \<open>bypassed\<close> is \<open>_gp_bypassed(qstate)\<close>; a log line is returned.\<close>

definition safesearch_cname_redirect ::
  "unbound \<Rightarrow> bool \<Rightarrow> nat \<Rightarrow> safesearch \<Rightarrow> qstate \<Rightarrow> string list \<Rightarrow> bool \<times> qstate \<times> string list" where
  "safesearch_cname_redirect ub bypassed q_type ss q log =
    (let goal = ss_AAAA ss in
     if goal = [] \<or> q_type \<notin> {rr_type_a, rr_type_aaaa} then (False, q, log)
     else if ss_answer_has_cname_to q goal then
      (if ss_answer_has_address q then
        (let q = set_security sec_status_insecure (q\<lparr>qs_return_rcode := rcode_noerror\<rparr>) in
         if bypassed then (True, q\<lparr>qs_ext_state := module_finished\<rparr>, log)
         else
          (let q = q\<lparr>qs_no_cache_store := False\<rparr> in
           (True, q\<lparr>qs_ext_state := module_finished\<rparr>,
            if ub_store ub q False then log
            else log @ [''[pfBlockerNG]: SafeSearch: failed to re-cache chased answer for '' @ qname_text q])))
       else (case safesearch_baked_fallback ub q_type ss q of (b, q) \<Rightarrow> (b, q, log)))
     else
      (case ub_set_return_msg ub (new_message q q_type (pkt_qr + pkt_rd + pkt_ra)
          [qname_text q @ '' 3600 IN CNAME '' @ goal] []) q of
         None \<Rightarrow> (True, q\<lparr>qs_ext_state := module_error\<rparr>, log)
       | Some rm \<Rightarrow>
          (let q = q\<lparr>qs_return_msg := Some rm\<rparr> in
           if ub_store ub q True then
             (True, q\<lparr>qs_no_cache_store := True, qs_ext_state := module_restart_next\<rparr>, log)
           else
            (let log = log @ [''[pfBlockerNG]: SafeSearch: failed to store planted CNAME referral for '' @ qname_text q] in
             case safesearch_baked_fallback ub q_type ss q of
               (True, q) \<Rightarrow> (True, q, log)
             | (False, q) \<Rightarrow> (True, q\<lparr>qs_ext_state := module_error\<rparr>, log)))))"

subsection \<open>The legacy control transport\<close>

definition legacy_control ::
  "unbound \<Rightarrow> settings \<Rightarrow> bool \<Rightarrow> bool \<Rightarrow> nat \<Rightarrow> string \<Rightarrow> string \<Rightarrow> qstate \<Rightarrow> modul \<Rightarrow> bool \<times> qstate \<times> modul" where
  "legacy_control ub se started opened q_type q_name_original q_ip q m =
    (if se_python_control_legacy se \<and> q_type = rr_type_txt \<and> prefix ''python_control.'' q_name_original
        \<and> se_python_control se \<and> q_ip \<in> {''127.0.0.1'', ''::1'', ''::ffff:127.0.0.1''} then
      (case pfb_apply_control_command (se_ip_ok se) started opened (split_on dot q_name_original) m of
         ((ok, msg), m) \<Rightarrow>
          (let msg = (if \<not> ok \<and> msg = []
                 then bracketed ''Python_control: Command not authorized! '' q_name_original else msg);
               q_reply = (if ok then ''python_control'' else ''python_control_fail'') in
           (True, finish_with ub (new_message q rr_type_txt (pkt_qr + pkt_ra)
              [q_reply @ ''. 0 IN TXT '' @ [CHR 0x22] @ msg @ [CHR 0x22]] []) 2 q, m)))
     else (False, q, m))"

subsection \<open>operate\<close>

text \<open>The stages run in order until one of them has answered.\<close>

definition chain ::
  "py_error + bool \<times> qstate \<times> modul \<Rightarrow> (qstate \<Rightarrow> modul \<Rightarrow> py_error + bool \<times> qstate \<times> modul)
     \<Rightarrow> py_error + bool \<times> qstate \<times> modul" where
  "chain r f = (case r of Inl e \<Rightarrow> Inl e | Inr (done, q, m) \<Rightarrow> if done then Inr (True, q, m) else f q m)"

definition pre_resolution ::
  "unbound \<Rightarrow> settings \<Rightarrow> bool \<Rightarrow> bool \<Rightarrow> nat \<Rightarrow> string \<Rightarrow> string \<Rightarrow> qstate \<Rightarrow> modul
     \<Rightarrow> py_error + bool \<times> qstate \<times> modul" where
  "pre_resolution ub se started opened q_type q_name_original q_ip q m =
    chain (chain (noaaaa_stage ub se q_type q_name_original q m)
      (safesearch_stage ub se q_type q_name_original))
      (\<lambda>q m. Inr (legacy_control ub se started opened q_type q_name_original q_ip q m))"

definition moddone ::
  "unbound \<Rightarrow> settings \<Rightarrow> nat \<Rightarrow> string \<Rightarrow> qstate \<Rightarrow> modul \<Rightarrow> py_error + bool \<times> qstate \<times> modul" where
  "moddone ub se q_type q_name_original q m =
    chain
      (if \<not> se_safesearch se then Inr (False, q, m)
       else (case safesearch_entry se q_name_original m of
           Inl e \<Rightarrow> Inl e
         | Inr (Some ss, m) \<Rightarrow>
            (if ss_A ss = ''cname'' then
              (case safesearch_cname_redirect ub (gp_bypassed se m q) q_type ss q (st_log (m_st m)) of
                 (done, q, log) \<Rightarrow> Inr (done, q, m\<lparr>m_st := (m_st m)\<lparr>st_log := log\<rparr>\<rparr>))
             else Inr (False, q, m))
         | Inr (None, m) \<Rightarrow> Inr (False, q, m)))
      (\<lambda>q m. Inr (True, q\<lparr>qs_ext_state := module_finished\<rparr>, m))"

text \<open>\<open>operate\<close> always returns \<open>True\<close>; its effect is the state it leaves.  A query without a type is
  only passed on.  The reply logger, which writes \<open>dns_reply.log\<close> when a resolution is done, is left
  out.\<close>

definition operate ::
  "unicode_env \<Rightarrow> re_env \<Rightarrow> unbound \<Rightarrow> settings \<Rightarrow> bool \<Rightarrow> bool \<Rightarrow> nat \<Rightarrow> qstate \<Rightarrow> modul
     \<Rightarrow> py_error + qstate \<times> modul" where
  "operate U E ub se started opened event q m =
    (let q_name_original = lower (get_q_name_qstate q); q_ip = get_q_ip q;
         asks = event \<in> {event_new, event_pass};
         first = (case qs_qtype q of
             None \<Rightarrow> Inr (False, q, m)
           | Some q_type \<Rightarrow>
              chain (if asks then pre_resolution ub se started opened q_type q_name_original q_ip q m
                     else Inr (False, q, m))
                (\<lambda>q m. if blacklist_on m \<and> q_type \<in> set rr_types
                   then dnsbl_stage U E ub se q_type q_name_original q_ip q m else Inr (False, q, m)));
         after = chain first (\<lambda>q m.
           if asks then Inr (True, q\<lparr>qs_ext_state := module_wait_module\<rparr>, m)
           else if event = event_moddone then
            (case qs_qtype q of
               Some q_type \<Rightarrow> moddone ub se q_type q_name_original q m
             | None \<Rightarrow> Inr (True, q\<lparr>qs_ext_state := module_finished\<rparr>, m))
           else Inr (True, q\<lparr>qs_ext_state := module_error\<rparr>, m)) in
     case after of Inl e \<Rightarrow> Inl e | Inr (done, q, m) \<Rightarrow> Inr (q, m))"

end
