(* ===== verification/Shim.thy ===== *)
theory Shim
  imports Operate "HOL-Library.Multiset"
begin

unbundle bit_operations_syntax

text \<open>
  The Unbound objects the proxy gives the module (\<open>dns_proxy/unbound_shim.py\<close>): the rrsets of a reply,
  \<open>DnsMsg\<close>, \<open>DNSMessage.set_return_msg\<close> and the query state of a client query.  The message cache
  keeps nothing.
\<close>

subsection \<open>The rrsets of a message\<close>

definition rr_data :: "bytes \<Rightarrow> nat list" where
  "rr_data rdata = map unat (u16_bytes (of_nat (length rdata)) @ rdata)"

type_synonym rr_key = "string \<times> 16 word \<times> 16 word"

definition rr_key_of :: "16 word \<Rightarrow> RR \<Rightarrow> rr_key" where
  "rr_key_of rtype rr = (lower (rr_name rr), rtype, rr_class rr)"

definition new_set :: "16 word \<Rightarrow> rrset" where
  "new_set rtype = \<lparr>rr_type_str = type_str rtype, rr_count = 0, rr_sigs = 0, rr_datas = [], rr_ttls = []\<rparr>"

definition insert_at :: "nat \<Rightarrow> 'a \<Rightarrow> 'a list \<Rightarrow> 'a list" where
  "insert_at n x xs = take n xs @ [x] @ drop n xs"

definition add_data :: "RR \<Rightarrow> rrset \<Rightarrow> rrset" where
  "add_data rr s = s\<lparr>rr_datas := insert_at (rr_count s) (rr_data (rr_rdata rr)) (rr_datas s),
     rr_ttls := insert_at (rr_count s) (unat (rr_ttl rr)) (rr_ttls s), rr_count := rr_count s + 1\<rparr>"

definition add_signature :: "RR \<Rightarrow> rrset \<Rightarrow> rrset" where
  "add_signature rr s = s\<lparr>rr_datas := rr_datas s @ [rr_data (rr_rdata rr)], rr_ttls := rr_ttls s @ [unat (rr_ttl rr)],
     rr_sigs := rr_sigs s + 1\<rparr>"

text \<open>The sets of one section by their key, in the order they were met; a set is changed in place.\<close>

type_synonym sets = "(rr_key \<times> rrset) list"

definition change_set :: "rr_key \<Rightarrow> (rrset \<Rightarrow> rrset) \<Rightarrow> sets \<Rightarrow> sets" where
  "change_set key f sets = map (\<lambda>(k, s). (k, if k = key then f s else s)) sets"

definition covers :: "RR \<Rightarrow> 16 word" where
  "covers rr = read_u16 (rr_rdata rr) 0"

definition add_rr :: "RR \<Rightarrow> sets \<Rightarrow> sets" where
  "add_rr rr sets =
    (if rr_type rr = type_opt then sets
     else if rr_type rr = type_rrsig \<and> 2 \<le> length (rr_rdata rr) \<and> map_of sets (rr_key_of (covers rr) rr) \<noteq> None
     then change_set (rr_key_of (covers rr) rr) (add_signature rr) sets
     else
      (let key = rr_key_of (rr_type rr) rr;
           sets = (if map_of sets key = None then sets @ [(key, new_set (rr_type rr))] else sets) in
       change_set key (add_data rr) sets))"

definition section_sets :: "RR list \<Rightarrow> rrset list" where
  "section_sets rrs = map snd (fold add_rr rrs [])"

definition min_ttl :: "RR list \<Rightarrow> nat" where
  "min_ttl rrs = (case map (\<lambda>rr. unat (rr_ttl rr)) (filter (\<lambda>rr. rr_type rr \<noteq> type_opt) rrs) of
       [] \<Rightarrow> 0 | t # ts \<Rightarrow> fold min ts t)"

subsection \<open>Messages\<close>

text \<open>\<open>DnsMsg\<close>, with the \<open>rep\<close> its sections give.\<close>

definition dns_msg :: "nat \<Rightarrow> string option \<Rightarrow> nat \<Rightarrow> nat \<Rightarrow> 16 word \<Rightarrow> RR list \<Rightarrow> RR list \<Rightarrow> RR list \<Rightarrow> return_msg" where
  "dns_msg ref name qtype qclass flags ans auth add =
    \<lparr>rm_ref = ref, rm_qname = name, rm_qtype = qtype, rm_qclass = qclass,
     rm_rep = \<lparr>rp_flags = flags, rp_ttl = min_ttl (ans @ auth @ add), rp_security = 0,
       rp_authoritative = (flags AND flag_aa \<noteq> 0), rp_an = length (section_sets ans), rp_ns = length (section_sets auth),
       rp_ar = length (section_sets add), rp_rrsets = section_sets ans @ section_sets auth @ section_sets add\<rparr>,
     rm_answer = ans, rm_authority = auth, rm_additional = add\<rparr>"

text \<open>\<open>from_message\<close>, for a reply to a question that is the fallback.\<close>

definition from_message :: "nat \<Rightarrow> Message \<Rightarrow> Question \<Rightarrow> return_msg" where
  "from_message ref m fallback =
    (let q = (case ms_questions m of [] \<Rightarrow> fallback | q # _ \<Rightarrow> q) in
     dns_msg ref (Some (qn_name q)) (unat (qn_type q)) (unat (qn_class q)) (ms_flags m AND NOT flag_cd) (ms_answers m)
       (ms_authority m) (filter (\<lambda>rr. rr_type rr \<noteq> type_opt) (ms_additional m)))"

text \<open>The texts of a section, \<open>None\<close> when one cannot be encoded.\<close>

primrec text_section :: "string list \<Rightarrow> RR list option" where
  "text_section [] = Some []"
| "text_section (t # ts) = (case rr_from_text t of
       Inl e \<Rightarrow> None
     | Inr rr \<Rightarrow> map_option (\<lambda>rrs. rr # rrs) (text_section ts))"

definition pkt_wire :: "(nat \<times> 16 word) list" where
  "pkt_wire = [(0, flag_qr), (1, flag_aa), (2, flag_tc), (3, flag_rd), (4, flag_cd), (5, flag_ra), (6, 0x0020)]"

definition wire_flags :: "nat \<Rightarrow> 16 word" where
  "wire_flags query_flags = sum_list (map snd (filter (\<lambda>(k, _). bit query_flags k) pkt_wire))"

text \<open>The message that replaces \<open>qstate.return_msg\<close>.  It is a new object, so it gets a new \<open>rm_ref\<close>.
  The class is \<open>IN\<close> and there are no additional texts: the module never sets them.\<close>

definition next_ref :: "qstate \<Rightarrow> nat" where
  "next_ref q = (case qs_return_msg q of None \<Rightarrow> 0 | Some m \<Rightarrow> Suc (rm_ref m))"

definition set_return_msg :: "dns_message \<Rightarrow> qstate \<Rightarrow> return_msg option" where
  "set_return_msg msg q =
    (case (name_to_labels (dm_name msg), text_section (dm_answer msg), text_section (dm_authority msg)) of
       (Inr _, Some ans, Some auth) \<Rightarrow>
         Some (dns_msg (next_ref q) (Some (dm_name msg)) (dm_type msg) 1 (wire_flags (dm_flags msg)) ans auth [])
     | _ \<Rightarrow> None)"

definition shim_unbound :: unbound where
  "shim_unbound = \<lparr>ub_set_return_msg = set_return_msg, ub_store = (\<lambda>_ _. True)\<rparr>"

subsection \<open>The query state\<close>

text \<open>\<open>bytes.decode("utf-8")\<close> of a label, \<open>None\<close> when it raises; texts stop at U+00FF, and a
  label with a later character is taken as one that raises.\<close>

fun utf8_decode :: "bytes \<Rightarrow> string option" where
  "utf8_decode [] = Some []"
| "utf8_decode (b # bs) =
    (if b < 0x80 then map_option (\<lambda>s. char_of (unat b) # s) (utf8_decode bs)
     else (case bs of
         [] \<Rightarrow> None
       | c # bs' \<Rightarrow>
          if b \<in> {0xC2, 0xC3} \<and> 0x80 \<le> c \<and> c < 0xC0
          then map_option (\<lambda>s. char_of (64 * (unat b - 192) + (unat c - 128)) # s) (utf8_decode bs')
          else None))"

definition qname_list :: "string \<Rightarrow> string list option" where
  "qname_list name = (case name_to_labels name of
       Inl e \<Rightarrow> None
     | Inr labels \<Rightarrow>
        (let texts = map utf8_decode labels in
         if list_all (\<lambda>t. t \<noteq> None) texts then Some (map the texts @ [[]]) else None))"

definition module_qstate :: "Question \<Rightarrow> string \<Rightarrow> qstate" where
  "module_qstate question client_ip = \<lparr>qs_qname = Some (qn_name question), qs_qtype = Some (unat (qn_type question)),
     qs_qtype_str = type_str (qn_type question), qs_qname_list = qname_list (qn_name question),
     qs_addrs = [Some client_ip], qs_return_msg = None, qs_return_rcode = rcode_noerror, qs_ext_state = 0,
     qs_no_cache_store = False\<rparr>"

subsection \<open>What the sets hold\<close>

text \<open>A set is well formed when its counts tell its RRs from its signatures.\<close>

definition set_ok :: "rrset \<Rightarrow> bool" where
  "set_ok s \<longleftrightarrow> length (rr_datas s) = rr_count s + rr_sigs s \<and> length (rr_ttls s) = length (rr_datas s)"

definition sets_ok :: "sets \<Rightarrow> bool" where
  "sets_ok sets \<longleftrightarrow> distinct (map fst sets) \<and> (\<forall>(k, s) \<in> set sets. set_ok s \<and> rr_type_str s = type_str (fst (snd k)))"

definition data_of :: "sets \<Rightarrow> nat list multiset" where
  "data_of sets = mset (concat (map (rr_datas \<circ> snd) sets))"

lemma change_set_keys [simp]: "map fst (change_set key f sets) = map fst sets"
  by (induction sets) (auto simp: change_set_def)

lemma change_set_none: "key \<notin> fst ` set sets \<Longrightarrow> change_set key f sets = sets"
  by (induction sets) (auto simp: change_set_def image_iff)

lemma change_set_data:
  assumes "distinct (map fst sets)" "key \<in> fst ` set sets" "\<And>s. mset (rr_datas (f s)) = add_mset d (mset (rr_datas s))"
  shows "data_of (change_set key f sets) = add_mset d (data_of sets)"
  using assms(1,2)
proof (induction sets)
  case (Cons e sets)
  obtain k s where e: "e = (k, s)" by (cases e)
  have c: "change_set key f (e # sets) = (k, if k = key then f s else s) # change_set key f sets"
    by (simp add: change_set_def e)
  show ?case
  proof (cases "k = key")
    case True
    then have "change_set key f sets = sets" using Cons.prems(1) e by (intro change_set_none) auto
    then show ?thesis unfolding c using True assms(3) by (simp add: data_of_def e)
  next
    case False
    then show ?thesis unfolding c using Cons e by (auto simp: data_of_def)
  qed
qed simp

lemma change_set_ok:
  assumes "sets_ok sets" "\<And>s. set_ok s \<Longrightarrow> set_ok (f s) \<and> rr_type_str (f s) = rr_type_str s"
  shows "sets_ok (change_set key f sets)"
  using assms by (fastforce simp: sets_ok_def change_set_def comp_def split_def split: if_splits)

lemma add_data_ok:
  "set_ok s \<Longrightarrow> set_ok (add_data rr s) \<and> rr_type_str (add_data rr s) = rr_type_str s"
  "mset (rr_datas (add_data rr s)) = add_mset (rr_data (rr_rdata rr)) (mset (rr_datas s))"
  "set_ok s \<Longrightarrow> set_ok (add_signature rr s) \<and> rr_type_str (add_signature rr s) = rr_type_str s"
  "mset (rr_datas (add_signature rr s)) = add_mset (rr_data (rr_rdata rr)) (mset (rr_datas s))"
proof -
  have "mset (take n xs) + mset (drop n xs) = mset xs" for n and xs :: "'z list"
    by (metis append_take_drop_id mset_append)
  then show "mset (rr_datas (add_data rr s)) = add_mset (rr_data (rr_rdata rr)) (mset (rr_datas s))"
    by (simp add: add_data_def insert_at_def)
qed (auto simp: set_ok_def add_data_def add_signature_def insert_at_def)

lemma add_rr_ok:
  assumes "sets_ok sets"
  shows "sets_ok (add_rr rr sets)"
    and "data_of (add_rr rr sets) = (if rr_type rr = type_opt then data_of sets
      else add_mset (rr_data (rr_rdata rr)) (data_of sets))"
proof -
  let ?k = "rr_key_of (rr_type rr) rr" and ?c = "rr_key_of (covers rr) rr"
  let ?s = "if map_of sets ?k = None then sets @ [(?k, new_set (rr_type rr))] else sets"
  have s: "sets_ok ?s" "?k \<in> fst ` set ?s" "data_of ?s = data_of sets"
    using assms by (auto simp: sets_ok_def map_of_eq_None_iff new_set_def set_ok_def rr_key_of_def data_of_def)
  have d: "distinct (map fst ?s)" "distinct (map fst sets)" using s(1) assms by (simp_all add: sets_ok_def)
  note add = add_data_ok [where rr = rr]
  consider "rr_type rr = type_opt"
    | "rr_type rr \<noteq> type_opt" "rr_type rr = type_rrsig \<and> 2 \<le> length (rr_rdata rr) \<and> map_of sets ?c \<noteq> None"
    | "rr_type rr \<noteq> type_opt" "\<not> (rr_type rr = type_rrsig \<and> 2 \<le> length (rr_rdata rr) \<and> map_of sets ?c \<noteq> None)"
    by blast
  then have "sets_ok (add_rr rr sets) \<and> data_of (add_rr rr sets) = (if rr_type rr = type_opt then data_of sets
      else add_mset (rr_data (rr_rdata rr)) (data_of sets))"
  proof cases
    case 1
    then show ?thesis using assms by (simp add: add_rr_def)
  next
    case 2
    then have "?c \<in> fst ` set sets" by (auto simp: map_of_eq_None_iff)
    moreover have "add_rr rr sets = change_set ?c (add_signature rr) sets"
      unfolding add_rr_def if_not_P [OF 2(1)] if_P [OF 2(2)] ..
    ultimately show ?thesis using change_set_ok [OF assms add(3)] change_set_data [OF d(2) _ add(4)] 2(1) by simp
  next
    case 3
    have "add_rr rr sets = change_set ?k (add_data rr) ?s"
      unfolding add_rr_def if_not_P [OF 3(1)] if_not_P [OF 3(2)] Let_def ..
    then show ?thesis using change_set_ok [OF s(1) add(1)] change_set_data [OF d(1) s(2) add(2)] s(3) 3(1) by simp
  qed
  then show "sets_ok (add_rr rr sets)" "data_of (add_rr rr sets) = (if rr_type rr = type_opt then data_of sets
      else add_mset (rr_data (rr_rdata rr)) (data_of sets))" by simp_all
qed

lemma fold_add_ok:
  assumes "sets_ok sets"
  shows "sets_ok (fold add_rr rrs sets) \<and> data_of (fold add_rr rrs sets)
    = data_of sets + mset (map (rr_data \<circ> rr_rdata) (filter (\<lambda>rr. rr_type rr \<noteq> type_opt) rrs))"
  using assms by (induction rrs arbitrary: sets) (auto simp: add_rr_ok)


end
