(* ===== verification/Service.thy ===== *)
theory Service
  imports Wire
begin

unbundle bit_operations_syntax

text \<open>
  The decision protocol (\<open>dns_proxy/decision_service.py\<close>): the frames, the QUERY payload and the
  session \<open>serve\<close>.  A \<open>decider\<close> is what a call of \<open>resolve\<close> does from one \<open>await\<close> to the next: it is
  done, with the answer or the exception it raised, or it asks \<open>forward\<close> and goes on with the reply
  in the world it finds then.  asyncio runs one task at a time between two awaits, so a step of the
  session is what runs between them.
\<close>

subsection \<open>Frames\<close>

definition ft_query :: octet where "ft_query = 1"
definition ft_forward :: octet where "ft_forward = 2"
definition ft_reply :: octet where "ft_reply = 3"
definition ft_answer :: octet where "ft_answer = 4"
definition ft_drop :: octet where "ft_drop = 5"
definition ft_ready :: octet where "ft_ready = 6"

definition stream_client :: octet where "stream_client = 0"
definition datagram_client :: octet where "datagram_client = 1"

definition max_frame_len :: int where "max_frame_len = 5 + 1 + 1 + 255 + 65535"

type_synonym wire_frame = "octet \<times> 32 word \<times> bytes"

definition encode_frame :: "octet \<Rightarrow> 32 word \<Rightarrow> bytes \<Rightarrow> wire_error + bytes" where
  "encode_frame ftype fid payload =
    (if 0xFFFFFFFF < 5 + int (length payload) then Inl Struct_error
     else Inr (u32_bytes (of_nat (5 + length payload)) @ [ftype] @ u32_bytes fid @ payload))"

text \<open>The next frame of what the gateway has sent before it closed the stream, and what is left.\<close>

datatype frame_read = Closed | Bad_length int | Frame wire_frame bytes

definition read_frame :: "bytes \<Rightarrow> frame_read" where
  "read_frame s =
    (if length s < 4 then Closed
     else
      (let size = read_u32 s 0; body = drop 4 s in
       if \<not> (5 \<le> uint size \<and> uint size \<le> max_frame_len) then Bad_length (uint size)
       else if length body < unat size then Closed
       else Frame (body ! 0, read_u32 body 1, drop 5 (take (unat size) body)) (drop (unat size) body)))"

lemma read_frame_shorter: "read_frame s = Frame f t \<Longrightarrow> length t < length s"
  by (auto simp: read_frame_def Let_def split: if_splits)

function read_frames :: "bytes \<Rightarrow> wire_frame list \<times> frame_read" where
  "read_frames s = (case read_frame s of
       Frame f t \<Rightarrow> (case read_frames t of (fs, e) \<Rightarrow> (f # fs, e))
     | e \<Rightarrow> ([], e))"
  by pat_completeness auto

termination by (relation "measure length") (simp_all add: read_frame_shorter)

declare read_frames.simps [simp del]

definition split_query :: "bytes \<Rightarrow> string + bool \<times> bytes \<times> bytes" where
  "split_query p =
    (if length p < 2 \<or> p ! 0 \<notin> {stream_client, datagram_client}
     then Inl ''QUERY payload does not start with a transport byte (0 stream, 1 datagram) and an IP length''
     else if p ! 1 = 0 \<or> length p - 2 < unat (p ! 1)
     then Inl ''QUERY payload does not hold a client IP of its stated length''
     else Inr (p ! 0 = datagram_client, take (unat (p ! 1)) (drop 2 p), drop (2 + unat (p ! 1)) p))"

text \<open>\<open>text.decode("ascii")\<close> and \<open>ipaddress.ip_address\<close>.\<close>

definition client_ip :: "bytes \<Rightarrow> string option" where
  "client_ip ip = (let decoded = map (\<lambda>b. char_of (unat b)) ip in
     if list_all (\<lambda>b. b < 0x80) ip \<and> (ipv4_packed decoded \<noteq> None \<or> ipv6_packed decoded \<noteq> None) then Some decoded else None)"

subsection \<open>The session\<close>

datatype 'w decider = Done "wire_error + bytes option" | Ask bytes "bytes option \<Rightarrow> 'w \<Rightarrow> 'w decider \<times> 'w"

text \<open>A task that was scheduled, and one that waits in \<open>forward\<close>.\<close>

datatype 'w phase = Scheduled bool "string option" bytes | Waiting "bytes option \<Rightarrow> 'w \<Rightarrow> 'w decider \<times> 'w"

datatype status = Open | Ended | Protocol_error string

datatype event = In wire_frame | Out wire_frame

text \<open>\<open>ss_replies\<close> maps the id of a waiting task to its future: unset, or the reply it was given.
  \<open>ss_trace\<close> records every frame read and written.\<close>

record 'w session =
  ss_world :: 'w
  ss_status :: status
  ss_tasks :: "32 word \<rightharpoonup> 'w phase"
  ss_inflight :: "32 word set"
  ss_replies :: "32 word \<rightharpoonup> bytes option option"
  ss_failed_logged :: "int option"
  ss_log :: "string list"
  ss_trace :: "event list"

definition emit :: "octet \<Rightarrow> 32 word \<Rightarrow> bytes \<Rightarrow> 'w session \<Rightarrow> 'w session" where
  "emit ftype fid payload s = s\<lparr>ss_trace := ss_trace s @ [Out (ftype, fid, payload)]\<rparr>"

definition start_session :: "'w \<Rightarrow> 'w session" where
  "start_session w = emit ft_ready 0 [] \<lparr>ss_world = w, ss_status = Open, ss_tasks = Map.empty, ss_inflight = {},
     ss_replies = Map.empty, ss_failed_logged = None, ss_log = [], ss_trace = []\<rparr>"

definition failure_log_interval :: int where "failure_log_interval = 30"

definition log_failure :: "int \<Rightarrow> 32 word \<Rightarrow> 'w session \<Rightarrow> 'w session" where
  "log_failure now fid s =
    (if (case ss_failed_logged s of None \<Rightarrow> True | Some t \<Rightarrow> failure_log_interval \<le> now - t)
     then s\<lparr>ss_failed_logged := Some now, ss_log := ss_log s @ [''query '' @ nat_text (unat fid) @ '' failed'']\<rparr>
     else s)"

text \<open>The end of \<open>decide\<close>: the id leaves \<open>inflight\<close> before the final frame is written.\<close>

definition finish :: "int \<Rightarrow> 32 word \<Rightarrow> wire_error + bytes option \<Rightarrow> 'w session \<Rightarrow> 'w session" where
  "finish now fid result s =
    (let s = (case result of Inl e \<Rightarrow> log_failure now fid s | Inr _ \<Rightarrow> s);
         s = s\<lparr>ss_tasks := (ss_tasks s)(fid := None), ss_inflight := ss_inflight s - {fid}\<rparr> in
     case result of
       Inr (Some answer) \<Rightarrow> emit ft_answer fid answer s
     | _ \<Rightarrow> emit ft_drop fid [] s)"

definition proceed :: "int \<Rightarrow> 32 word \<Rightarrow> 'w decider \<times> 'w \<Rightarrow> 'w session \<Rightarrow> 'w session" where
  "proceed now fid dw s =
    (let s = s\<lparr>ss_world := snd dw\<rparr> in
     case fst dw of
       Done result \<Rightarrow> finish now fid result s
     | Ask request k \<Rightarrow>
        emit ft_forward fid request
          (s\<lparr>ss_tasks := (ss_tasks s)(fid \<mapsto> Waiting k), ss_replies := (ss_replies s)(fid \<mapsto> None)\<rparr>))"

text \<open>One frame from the gateway.\<close>

definition receive :: "wire_frame \<Rightarrow> 'w session \<Rightarrow> 'w session" where
  "receive f s =
    (let (ftype, fid, payload) = f; s = s\<lparr>ss_trace := ss_trace s @ [In f]\<rparr> in
     if ftype = ft_reply then
      (case ss_replies s fid of
         Some None \<Rightarrow> s\<lparr>ss_replies := (ss_replies s)(fid \<mapsto> Some (if payload = [] then None else Some payload))\<rparr>
       | _ \<Rightarrow> s)
     else if ftype = ft_query then
      (case split_query payload of
         Inl e \<Rightarrow> s\<lparr>ss_status := Protocol_error e\<rparr>
       | Inr (datagram, ip, wire) \<Rightarrow>
          if fid \<in> ss_inflight s then s\<lparr>ss_status := Protocol_error ''QUERY id is already in flight''\<rparr>
          else s\<lparr>ss_inflight := insert fid (ss_inflight s),
            ss_tasks := (ss_tasks s)(fid \<mapsto> Scheduled datagram (client_ip ip) wire)\<rparr>)
     else s\<lparr>ss_status := Protocol_error ''frame type is not valid from the gateway''\<rparr>)"

text \<open>The steps: the read loop takes a frame, meets a bad length or the end of the stream, a scheduled task starts, a
  waiting one goes on with its reply or, after twice the timeout, with none.\<close>

inductive session_step ::
  "(bytes \<Rightarrow> string \<Rightarrow> bool \<Rightarrow> 'w \<Rightarrow> 'w decider \<times> 'w) \<Rightarrow> 'w session \<Rightarrow> 'w session \<Rightarrow> bool" for resolve where
  frame: "ss_status s = Open \<Longrightarrow> session_step resolve s (receive f s)"
| bad_length: "ss_status s = Open \<Longrightarrow>
    session_step resolve s (s\<lparr>ss_status := Protocol_error ''frame length is out of range''\<rparr>)"
| eof: "ss_status s = Open \<Longrightarrow> session_step resolve s (s\<lparr>ss_status := Ended\<rparr>)"
| begin_task: "ss_status s = Open \<Longrightarrow> ss_tasks s fid = Some (Scheduled datagram ip wire) \<Longrightarrow>
    session_step resolve s (proceed now fid
      (case ip of None \<Rightarrow> (Done (Inr None), ss_world s) | Some ip \<Rightarrow> resolve wire ip datagram (ss_world s)) s)"
| resume: "ss_status s = Open \<Longrightarrow> ss_tasks s fid = Some (Waiting k) \<Longrightarrow> ss_replies s fid = Some (Some reply) \<Longrightarrow>
    session_step resolve s (proceed now fid (k reply (ss_world s)) (s\<lparr>ss_replies := (ss_replies s)(fid := None)\<rparr>))"
| timeout: "ss_status s = Open \<Longrightarrow> ss_tasks s fid = Some (Waiting k) \<Longrightarrow> ss_replies s fid = Some None \<Longrightarrow>
    session_step resolve s (proceed now fid (k None (ss_world s)) (s\<lparr>ss_replies := (ss_replies s)(fid := None)\<rparr>))"

inductive session_reachable ::
  "(bytes \<Rightarrow> string \<Rightarrow> bool \<Rightarrow> 'w \<Rightarrow> 'w decider \<times> 'w) \<Rightarrow> 'w \<Rightarrow> 'w session \<Rightarrow> bool" for resolve w where
  start: "session_reachable resolve w (start_session w)"
| step: "session_reachable resolve w s \<Longrightarrow> session_step resolve s s' \<Longrightarrow> session_reachable resolve w s'"

end
