(* ===== verification/Frontend.thy ===== *)
theory Frontend
  imports Shim Service
begin

unbundle bit_operations_syntax

text \<open>
  The decider (\<open>dns_proxy/pfb_dns_proxy.py\<close>): how one client query is answered, by the hosted module,
  by Unbound or by a message the proxy builds.  The module is the record \<open>hosted\<close>: \<open>ho_operate\<close> says
  whether a call of \<open>operate\<close> raised and what it left, \<open>ho_callback\<close> what firing a reply callback does.
  The texts of the log lines are shortened.
\<close>

subsection \<open>Replies the proxy builds\<close>

definition rcode_formerr :: nat where "rcode_formerr = 1"
definition rcode_servfail :: nat where "rcode_servfail = 2"
definition silence_log_interval :: int where "silence_log_interval = 30"
definition max_dns_message :: int where "max_dns_message = 65535"

definition opt_of :: "Message \<Rightarrow> RR option" where
  "opt_of query = find (\<lambda>rr. rr_type rr = type_opt) (ms_additional query)"

definition edns_for :: "Message \<Rightarrow> bool \<Rightarrow> RR list" where
  "edns_for query options = (case opt_of query of
       None \<Rightarrow> []
     | Some opt \<Rightarrow> [make_opt edns_udp_size (rr_ttl opt AND 0x8000 \<noteq> 0) (if options then rr_rdata opt else [])])"

definition udp_limit :: "Message \<Rightarrow> int" where
  "udp_limit query = (case opt_of query of
       None \<Rightarrow> 512 | Some opt \<Rightarrow> min (max (uint (rr_class opt)) 512) (uint edns_udp_size))"

definition bare_message :: "16 word \<Rightarrow> 16 word \<Rightarrow> Message" where
  "bare_message msg_id flags = \<lparr>ms_id = msg_id, ms_flags = flags, ms_questions = [], ms_answers = [], ms_authority = [],
     ms_additional = []\<rparr>"

definition error_message :: "Message \<Rightarrow> nat \<Rightarrow> Message" where
  "error_message query rc = \<lparr>ms_id = ms_id query,
     ms_flags = flag_qr OR flag_ra OR (ms_flags query AND (flag_rd OR flag_cd OR opcode_mask)) OR of_nat rc,
     ms_questions = ms_questions query, ms_answers = [], ms_authority = [], ms_additional = edns_for query False\<rparr>"

definition error_reply :: "Message \<Rightarrow> nat \<Rightarrow> wire_error + bytes" where
  "error_reply query rc = encode_message (error_message query rc)"

definition rendered_flags :: "Message \<Rightarrow> return_msg \<Rightarrow> 16 word" where
  "rendered_flags query msg = flag_qr OR flag_ra OR (rp_flags (rm_rep msg) AND (flag_aa OR flag_tc OR 0xF))
     OR (ms_flags query AND (flag_rd OR flag_cd))"

text \<open>The reply and whether it was replaced by a bare SERVFAIL.\<close>

definition rendered :: "Message \<Rightarrow> return_msg \<Rightarrow> int option \<Rightarrow> wire_error + bytes \<times> bool" where
  "rendered query msg limit =
    (let flags = rendered_flags query msg in
     case encode_message \<lparr>ms_id = ms_id query, ms_flags = flags, ms_questions = ms_questions query,
         ms_answers = rm_answer msg, ms_authority = rm_authority msg,
         ms_additional = rm_additional msg @ edns_for query False\<rparr> of
       Inl e \<Rightarrow> Inl e
     | Inr wire \<Rightarrow>
        (case limit of
           None \<Rightarrow> if max_dns_message < int (length wire)
             then map_sum id (\<lambda>b. (b, True)) (error_reply query rcode_servfail) else Inr (wire, False)
         | Some n \<Rightarrow> if int (length wire) \<le> n then Inr (wire, False)
             else map_sum id (\<lambda>b. (b, False)) (encode_message \<lparr>ms_id = ms_id query, ms_flags = flags OR flag_tc,
               ms_questions = ms_questions query, ms_answers = [], ms_authority = [],
               ms_additional = edns_for query False\<rparr>)))"

definition module_decides :: "Message \<Rightarrow> bool" where
  "module_decides query \<longleftrightarrow> list_all (\<lambda>q. qn_class q = class_in \<or> qn_class q = class_any) (ms_questions query)
     \<and> list_all (\<lambda>rr. rr_name rr = [dot] \<and> rr_type rr = type_opt \<and> drop_bit 16 (rr_ttl rr) AND 0xFF = 0)
         (ms_additional query)"

subsection \<open>The state of the decider\<close>

text \<open>\<open>fe_clock\<close> and \<open>fe_random\<close> give the readings of \<open>monotonic\<close> and of \<open>secrets.randbits(16)\<close>, in order.\<close>

record 'm frontend =
  fe_mod :: 'm
  fe_clock :: "nat \<Rightarrow> int"
  fe_reads :: nat
  fe_random :: "nat \<Rightarrow> 16 word"
  fe_draws :: nat
  fe_silence_logged :: "int option"
  fe_oversized_logged :: "int option"
  fe_log :: "string list"

record 'm hosted =
  ho_operate :: "nat \<Rightarrow> qstate \<Rightarrow> 'm \<Rightarrow> bool \<times> qstate \<times> 'm"
  ho_callback :: "string \<Rightarrow> qstate \<Rightarrow> reply option \<Rightarrow> nat \<Rightarrow> 'm \<Rightarrow> 'm"

text \<open>The module, or none: then \<open>reply_log\<close>, if there is one, sees each relayed reply.\<close>

datatype 'm mode = Module "'m hosted" | Forwarder "(Message \<Rightarrow> string \<Rightarrow> bytes option \<Rightarrow> 'm \<Rightarrow> 'm) option"

type_synonym 'm run = "'m frontend decider \<times> 'm frontend"

definition complain :: "string \<Rightarrow> 'm frontend \<Rightarrow> 'm frontend" where
  "complain line w = w\<lparr>fe_log := fe_log w @ [line]\<rparr>"

definition due :: "int option \<Rightarrow> int \<Rightarrow> bool" where
  "due logged now = (case logged of None \<Rightarrow> True | Some t \<Rightarrow> silence_log_interval \<le> now - t)"

definition log_silence :: "'m frontend \<Rightarrow> 'm frontend" where
  "log_silence w =
    (let now = fe_clock w (fe_reads w); w = w\<lparr>fe_reads := fe_reads w + 1\<rparr> in
     if due (fe_silence_logged w) now
     then complain ''no reply from Unbound'' (w\<lparr>fe_silence_logged := Some now\<rparr>) else w)"

definition log_oversized :: "'m frontend \<Rightarrow> 'm frontend" where
  "log_oversized w =
    (let now = fe_clock w (fe_reads w); w = w\<lparr>fe_reads := fe_reads w + 1\<rparr> in
     if due (fe_oversized_logged w) now
     then complain ''SafeSearch chase is over one DNS message; SERVFAIL'' (w\<lparr>fe_oversized_logged := Some now\<rparr>) else w)"

text \<open>\<open>_ask\<close> after its \<open>forward\<close>.\<close>

definition asked :: "bytes option \<Rightarrow> 'm frontend \<Rightarrow> bytes option \<times> 'm frontend" where
  "asked reply w =
    (let reply = (case reply of Some r \<Rightarrow> if length r < header_size then None else Some r | None \<Rightarrow> None) in
     (reply, if reply = None then log_silence w else w))"

subsection \<open>Answering\<close>

definition answer_with :: "wire_error + bytes \<Rightarrow> 'm frontend \<Rightarrow> 'm run" where
  "answer_with r w = (Done (map_sum id Some r), w)"

definition unchanged :: "bytes \<Rightarrow> Message \<Rightarrow> 'm frontend \<Rightarrow> 'm run" where
  "unchanged wire query w = (Ask wire (\<lambda>reply w.
     answer_with (case reply of None \<Rightarrow> error_reply query rcode_servfail | Some r \<Rightarrow> Inr r) w), w)"

text \<open>\<open>_operate\<close>, inside the \<open>try\<close> of \<open>resolve\<close>: a call that raises is logged and leaves the state of
  an error.\<close>

definition call_operate :: "'m hosted \<Rightarrow> nat \<Rightarrow> qstate \<Rightarrow> 'm frontend \<Rightarrow> nat \<times> qstate \<times> 'm frontend" where
  "call_operate h event q w = (case ho_operate h event q (fe_mod w) of
       (raised, q, m) \<Rightarrow>
         (if raised then (module_error, q, complain ''Traceback'' (w\<lparr>fe_mod := m\<rparr>))
          else (qs_ext_state q, q, w\<lparr>fe_mod := m\<rparr>)))"

definition send :: "'m hosted \<Rightarrow> Message \<Rightarrow> qstate \<Rightarrow> bytes option \<Rightarrow> int option \<Rightarrow> 'm frontend \<Rightarrow> 'm run" where
  "send h query q relay limit w =
    (let msg = qs_return_msg q;
         rc = (if msg = None \<and> qs_return_rcode q = rcode_noerror then rcode_servfail else qs_return_rcode q);
         built = (if relay = None \<and> rc = rcode_noerror then map_option (\<lambda>m. rendered query m limit) msg else None) in
     case built of
       Some (Inl e) \<Rightarrow> (Done (Inl e), w)
     | _ \<Rightarrow>
        (let (wire, rc) = (case built of
               Some (Inr (b, replaced)) \<Rightarrow> (Some b, if replaced then rcode_servfail else rc) | _ \<Rightarrow> (None, rc));
             kind = (if rc = rcode_servfail then ''reply_servfail'' else ''reply'');
             w = w\<lparr>fe_mod := ho_callback h kind q (map_option rm_rep msg) rc (fe_mod w)\<rparr> in
         answer_with (case relay of
             Some b \<Rightarrow> Inr b
           | None \<Rightarrow> (case wire of Some b \<Rightarrow> Inr b | None \<Rightarrow> error_reply query rc)) w))"

text \<open>The end of \<open>resolve\<close>.\<close>

definition conclude ::
  "'m hosted \<Rightarrow> Message \<Rightarrow> bool \<Rightarrow> nat \<Rightarrow> qstate \<Rightarrow> bytes option \<Rightarrow> 'm frontend \<Rightarrow> 'm run" where
  "conclude h query datagram state q relay w =
    (let limit = (if datagram then Some (udp_limit query) else None) in
     if state \<noteq> module_finished
     then send h query (q\<lparr>qs_return_msg := None, qs_return_rcode := rcode_servfail\<rparr>) None limit w
     else send h query q relay limit w)"

text \<open>\<open>_chase_cname\<close> and the end of \<open>resolve\<close> after it.\<close>

definition chase_message :: "Message \<Rightarrow> string \<Rightarrow> return_msg \<Rightarrow> 16 word \<Rightarrow> Message" where
  "chase_message query target planted msg_id = \<lparr>ms_id = msg_id, ms_flags = flag_rd OR (ms_flags query AND flag_cd),
     ms_questions = [\<lparr>qn_name = target, qn_type = of_nat (rm_qtype planted), qn_class = of_nat (rm_qclass planted)\<rparr>],
     ms_answers = [], ms_authority = [], ms_additional = edns_for query True\<rparr>"

definition chase_cname ::
  "'m hosted \<Rightarrow> Message \<Rightarrow> bool \<Rightarrow> qstate \<Rightarrow> bytes option \<Rightarrow> 'm frontend \<Rightarrow> 'm run" where
  "chase_cname h query datagram q relay w =
    (let failed = (\<lambda>line w. conclude h query datagram module_error q relay (complain line w)) in
     case qs_return_msg q of
       None \<Rightarrow> failed ''MODULE_RESTART_NEXT without a planted CNAME referral'' w
     | Some planted \<Rightarrow>
        (if length (rm_answer planted) \<noteq> 1 \<or> rr_type (hd (rm_answer planted)) \<noteq> type_cname
         then failed ''MODULE_RESTART_NEXT without a planted CNAME referral'' w
         else
          (let cname = hd (rm_answer planted) in
           case name_from_rdata (rr_rdata cname) of
             Inl e \<Rightarrow> failed ''Traceback'' w
           | Inr target \<Rightarrow>
              (let msg_id = fe_random w (fe_draws w); w = w\<lparr>fe_draws := fe_draws w + 1\<rparr> in
               case encode_message (chase_message query target planted msg_id) of
                 Inl e \<Rightarrow> failed ''Traceback'' w
               | Inr wire \<Rightarrow>
                  (if max_dns_message < int (length wire)
                   then conclude h query datagram module_error q relay (log_oversized w)
                   else (Ask wire (\<lambda>reply w.
                     case (case reply of None \<Rightarrow> Inr [] | Some r \<Rightarrow> map_sum id ms_answers (parse_message r)) of
                       Inl e \<Rightarrow> failed ''Traceback'' w
                     | Inr found \<Rightarrow>
                        (case call_operate h event_moddone (q\<lparr>qs_return_msg := Some (dns_msg (next_ref q)
                             (rm_qname planted) (rm_qtype planted) (rm_qclass planted) (rp_flags (rm_rep planted))
                             (cname # found) [] [])\<rparr>) w of
                           (state, q, w) \<Rightarrow> conclude h query datagram state q relay w)), w))))))"

text \<open>\<open>resolve\<close> from Unbound's reply on.\<close>

definition base_rcode :: "Message \<Rightarrow> nat" where
  "base_rcode reply = (let rc = unat (rcode reply) in if rc \<in> {rcode_noerror, rcode_nxdomain} then 0 else rc)"

definition after_reply ::
  "'m hosted \<Rightarrow> Message \<Rightarrow> Question \<Rightarrow> bool \<Rightarrow> qstate \<Rightarrow> bytes option \<Rightarrow> 'm frontend \<Rightarrow> 'm run" where
  "after_reply h query question datagram q reply w =
    (case asked reply w of
       (None, w) \<Rightarrow> conclude h query datagram module_error q None w
     | (Some upstream_reply, w) \<Rightarrow>
        (case parse_message upstream_reply of
           Inl e \<Rightarrow> conclude h query datagram module_error q None (complain ''Traceback'' w)
         | Inr reply \<Rightarrow>
            (let msg = from_message (next_ref q) reply question in
             case call_operate h event_moddone
                 (q\<lparr>qs_return_msg := Some msg, qs_return_rcode := base_rcode reply\<rparr>) w of
               (state, q, w) \<Rightarrow>
                 (let relay = (if map_option rm_ref (qs_return_msg q) = Some (rm_ref msg)
                      \<and> qs_return_rcode q = base_rcode reply then Some upstream_reply else None) in
                  if state = module_restart_next then chase_cname h query datagram q relay w
                  else conclude h query datagram state q relay w))))"

definition ask_module :: "'m hosted \<Rightarrow> bytes \<Rightarrow> Message \<Rightarrow> string \<Rightarrow> bool \<Rightarrow> 'm frontend \<Rightarrow> 'm run" where
  "ask_module h wire query client datagram w =
    (let question = hd (ms_questions query) in
     case call_operate h event_new (module_qstate question client) w of
       (state, q, w) \<Rightarrow>
         (if state = module_wait_module then (Ask wire (after_reply h query question datagram q), w)
          else if state = module_restart_next then chase_cname h query datagram q None w
          else conclude h query datagram state q None w))"

definition relay_only ::
  "(Message \<Rightarrow> string \<Rightarrow> bytes option \<Rightarrow> 'm \<Rightarrow> 'm) option \<Rightarrow> bytes \<Rightarrow> Message \<Rightarrow> string \<Rightarrow> 'm frontend \<Rightarrow> 'm run" where
  "relay_only reply_log wire query client w = (Ask wire (\<lambda>reply w.
     case asked reply w of
       (reply, w) \<Rightarrow>
         (let w = (case reply_log of None \<Rightarrow> w | Some log \<Rightarrow> w\<lparr>fe_mod := log query client reply (fe_mod w)\<rparr>) in
          answer_with (case reply of None \<Rightarrow> error_reply query rcode_servfail | Some r \<Rightarrow> Inr r) w)), w)"

definition resolve :: "'m mode \<Rightarrow> bytes \<Rightarrow> string \<Rightarrow> bool \<Rightarrow> 'm frontend \<Rightarrow> 'm run" where
  "resolve mode wire client datagram w =
    (if length wire < header_size \<or> wire ! 2 AND 0x80 \<noteq> 0 then (Done (Inr None), w)
     else
      (let msg_id = read_u16 wire 0; flags = read_u16 wire 2; count = (\<lambda>pos. read_u16 wire pos);
           bare = bare_message msg_id flags in
       if drop_bit 11 flags AND 0xF \<noteq> 0 then unchanged wire bare w
       else if count 4 \<noteq> 1 then answer_with (error_reply bare rcode_formerr) w
       else if flags AND flag_tc \<noteq> 0 \<or> count 6 \<noteq> 0 \<or> count 8 \<noteq> 0 \<or> 1 < count 10 then unchanged wire bare w
       else (case parse_message wire of
           Inl (Wire_error e) \<Rightarrow> answer_with (error_reply bare rcode_formerr) w
         | Inl e \<Rightarrow> (Done (Inl e), w)
         | Inr query \<Rightarrow>
            (if \<not> module_decides query then unchanged wire query w
             else (case mode of
                 Forwarder reply_log \<Rightarrow> relay_only reply_log wire query client w
               | Module h \<Rightarrow> ask_module h wire query client datagram w)))))"

subsection \<open>The shipped module\<close>

text \<open>\<open>pfb_unbound.py\<close> behind the shim.  A call that raises is taken to leave the module as it was.  The
  reply callbacks, which only log, are the parameter \<open>log\<close>.\<close>

definition shipped_module ::
  "unicode_env \<Rightarrow> re_env \<Rightarrow> settings \<Rightarrow> bool \<Rightarrow> bool \<Rightarrow> (string \<Rightarrow> qstate \<Rightarrow> reply option \<Rightarrow> nat \<Rightarrow> modul \<Rightarrow> modul)
     \<Rightarrow> modul hosted" where
  "shipped_module U E se started opened log =
    \<lparr>ho_operate = (\<lambda>event q m. case operate U E shim_unbound se started opened event q m of
         Inl e \<Rightarrow> (True, q, m) | Inr (q, m) \<Rightarrow> (False, q, m)),
     ho_callback = log\<rparr>"

end
