(* ===== verification/OperatePolicy.thy ===== *)
theory OperatePolicy
  imports Operate
begin

text \<open>
  The properties of \<open>operate\<close>: which names of a chain a query is blocked for, and what a memoised
  verdict of one query does to the next.
\<close>

subsection \<open>The memo along a chain\<close>

definition unknown_names :: "string list \<Rightarrow> modul \<Rightarrow> bool" where
  "unknown_names names m \<longleftrightarrow> lru_ok (st_cache (m_st m)) \<and>
     (\<forall>n \<in> set names. lru_lookup (st_cache (m_st m)) n = None)"

lemma fetch_unknown:
  assumes "lru_lookup (st_cache s) n = None"
  shows "decision_fetch n s = (None, s)" "memo_verdict n g s = (None, s)"
  using assms by (simp_all add: decision_fetch_def memo_verdict_def lru_get_def lru_lookup_def)

lemma decision_for_unknown:
  assumes "lru_lookup (st_cache s) n = None"
  shows "decision_for n g s = (length (st_heap s), s\<lparr>st_heap := st_heap s @ [new_decision g],
    st_cache := lru_setitem n (length (st_heap s)) (st_cache s)\<rparr>)"
  by (simp add: decision_for_def fetch_unknown(1) [OF assms] decision_settle_def Let_def)

lemma log_idn_frame [simp]: "m_st (log_idn_alert n ip a t m) = m_st m"
  by (simp add: log_idn_alert_def split: prod.split)

text \<open>The verdict of a name of the chain in the context of the query.\<close>

definition chain_verdict ::
  "unicode_env \<Rightarrow> re_env \<Rightarrow> pfb \<Rightarrow> Snapshot \<Rightarrow> qstate \<Rightarrow> string \<Rightarrow> bool \<Rightarrow> string \<Rightarrow> DnsblDecision" where
  "chain_verdict U E p snap q q0 is_cname name =
     snapshot_verdict U E p snap name q0 (if is_cname then get_tld_from_name name else get_tld q) is_cname"

lemma decide_unknown:
  assumes "env_ok E" "live E {snap} (m_st m)" "unknown_names (name # names) m" "name \<notin> set names"
    and "q0 = name \<or> is_cname" "name \<notin> set names"
  obtains m' where "decide_name U E snap q q0 q_ip is_cname name m
      = Inr ((chain_verdict U E (st_pfb (m_st m)) snap q q0 is_cname name,
          if is_block (chain_verdict U E (st_pfb (m_st m)) snap q q0 is_cname name) \<and> is_cname then q0 else name), m')"
    "\<not> is_block (chain_verdict U E (st_pfb (m_st m)) snap q q0 is_cname name) \<Longrightarrow>
      live E {snap} (m_st m') \<and> unknown_names names m' \<and> st_pfb (m_st m') = st_pfb (m_st m)"
proof -
  let ?s = "m_st m" and ?tld = "if is_cname then get_tld_from_name name else get_tld q"
  let ?d = "chain_verdict U E (st_pfb ?s) snap q q0 is_cname name"
  have n: "lru_lookup (st_cache ?s) name = None" and ok: "lru_ok (st_cache ?s)"
    using assms(3) by (simp_all add: unknown_names_def)
  show thesis
  proof (rule run_evaluate_live [OF assms(1,2), of snap U name q0 ?tld is_cname])
    fix s1
    assume 1: "run_evaluate U E name q0 ?tld is_cname snap ?s
        = Inr (snapshot_verdict U E (st_pfb ?s) snap name q0 ?tld is_cname, s1)" "live E {snap} s1"
      "s1 = ?s\<lparr>st_eval := st_eval s1\<rparr>"
    have f: "st_cache s1 = st_cache ?s" "st_heap s1 = st_heap ?s" "st_pfb s1 = st_pfb ?s"
      by (subst 1(3), simp)+
    let ?n = "if is_block ?d \<and> is_cname then q0 else name"
    obtain ref s2 where 2: "decision_for ?n (sn_gen snap) s1 = (ref, s2)" by fastforce
    let ?m1 = "m\<lparr>m_st := set_dnsbl ref ?d s2\<rparr>"
    let ?m' = "case dd_idn_alert ?d of Some alert \<Rightarrow>
        (if \<not> is_block ?d then log_idn_alert ?n q_ip alert (get_q_type q) ?m1 else ?m1) | None \<Rightarrow> ?m1"
    have e: "decide_name U E snap q q0 q_ip is_cname name m = Inr ((?d, ?n), ?m')"
      unfolding decide_name_def fetch_unknown [OF n] prod.case option.case Let_def 1(1) sum.case
        chain_verdict_def [symmetric] 2 by (rule refl)
    have st: "m_st ?m' = set_dnsbl ref ?d s2" by (simp split: option.split)
    show thesis
    proof (rule that [OF e])
      assume nb: "\<not> is_block ?d"
      then have name_kept: "\<not> (is_block ?d \<and> is_cname)" by blast
      have n1: "lru_lookup (st_cache s1) name = None" using n f(1) by simp
      have s2: "s2 = s1\<lparr>st_heap := st_heap s1 @ [new_decision (sn_gen snap)],
          st_cache := lru_setitem name (length (st_heap s1)) (st_cache s1)\<rparr>"
        using 2 [unfolded if_not_P [OF name_kept]] unfolding decision_for_unknown [OF n1] by (metis prod.inject)
      have "live E {snap} (set_dnsbl ref ?d s2)"
        by (rule live_same [OF 1(2)]) (simp_all add: set_dnsbl_def s2)
      moreover have "unknown_names names ?m'"
        unfolding unknown_names_def st
      proof (intro conjI ballI)
        show "lru_ok (st_cache (set_dnsbl ref ?d s2))"
          using lru_ok_setitem [OF ok] by (simp add: set_dnsbl_def s2 f)
        fix x assume x: "x \<in> set names"
        then have "x \<noteq> name" "lru_lookup (st_cache s1) x = None"
          using assms(3,4) f(1) by (auto simp: unknown_names_def)
        then show "lru_lookup (st_cache (set_dnsbl ref ?d s2)) x = None"
          using memo.store_other [of "st_cache s1" x name "length (st_heap s1)"] ok f(1)
          by (cases "lru_lookup (lru_setitem name (length (st_heap s1)) (st_cache s1)) x")
            (auto simp: set_dnsbl_def s2)
      qed
      moreover have "st_pfb (m_st ?m') = st_pfb ?s" unfolding st by (simp add: set_dnsbl_def s2 f)
      ultimately show "live E {snap} (m_st ?m') \<and> unknown_names names ?m' \<and> st_pfb (m_st ?m') = st_pfb ?s"
        unfolding st by blast
    qed
  qed simp
qed

text \<open>What a block reply leaves behind.\<close>

definition answered :: "qstate \<Rightarrow> bool" where
  "answered q \<longleftrightarrow> qs_ext_state q = module_error \<or> (qs_ext_state q = module_finished \<and> qs_no_cache_store q)"

lemma block_reply_answered: "answered (fst (block_reply ub se q_type q_ip name d q m))"
  by (simp add: block_reply_def answered_def Let_def split: option.split)

lemma loop_blocks:
  assumes "env_ok E" "live E {snap} (m_st m)" "unknown_names names m" "distinct names"
    and "\<not> is_cname \<Longrightarrow> names \<noteq> [] \<Longrightarrow> q0 = hd names"
  shows "\<exists>done q' m'. dnsbl_loop U E ub se snap q_type q0 q_ip is_cname names q m = Inr (done, q', m')
    \<and> (done \<longleftrightarrow> (\<exists>i < length names. is_block (chain_verdict U E (st_pfb (m_st m)) snap q q0
          (is_cname \<or> 0 < i) (names ! i))))
    \<and> (if done then answered q' else q' = q)"
  using assms
proof (induction names arbitrary: is_cname m)
  case Nil
  then show ?case by (intro exI [of _ False]) simp
next
  case (Cons name names)
  let ?d = "chain_verdict U E (st_pfb (m_st m)) snap q q0 is_cname name"
  have nd: "name \<notin> set names" using Cons.prems(4) by simp
  have q0: "q0 = name \<or> is_cname" using Cons.prems(5) by auto
  show ?case
  proof (rule decide_unknown [OF Cons.prems(1-3) nd q0 nd, of U q q_ip])
    fix m'
    assume m': "decide_name U E snap q q0 q_ip is_cname name m
        = Inr ((?d, if is_block ?d \<and> is_cname then q0 else name), m')"
      "\<not> is_block ?d \<Longrightarrow> live E {snap} (m_st m') \<and> unknown_names names m' \<and> st_pfb (m_st m') = st_pfb (m_st m)"
    show ?thesis
    proof (cases "is_block ?d")
      case True
      obtain q' m2 where r: "block_reply ub se q_type q_ip (if is_block ?d \<and> is_cname then q0 else name) ?d q m' = (q', m2)"
        by fastforce
      have l: "dnsbl_loop U E ub se snap q_type q0 q_ip is_cname (name # names) q m = Inr (True, q', m2)"
        unfolding dnsbl_loop.simps m'(1) sum.case prod.case if_P [OF True] r ..
      have a: "answered q'"
        using block_reply_answered [of ub se q_type q_ip "if is_block ?d \<and> is_cname then q0 else name" ?d q m']
        unfolding r fst_conv .
      have "is_block (chain_verdict U E (st_pfb (m_st m)) snap q q0 (is_cname \<or> 0 < (0 :: nat)) ((name # names) ! 0))"
        using True by simp
      then have "\<exists>i < length (name # names). is_block (chain_verdict U E (st_pfb (m_st m)) snap q q0 (is_cname \<or> 0 < i) ((name # names) ! i))"
        by (intro exI [of _ 0]) simp
      then show ?thesis using l a by (intro exI [of _ True] exI [of _ q'] exI [of _ m2]) simp
    next
      case False
      have "\<exists>done q' m''. dnsbl_loop U E ub se snap q_type q0 q_ip True names q m' = Inr (done, q', m'')
        \<and> (done \<longleftrightarrow> (\<exists>i < length names. is_block (chain_verdict U E (st_pfb (m_st m')) snap q q0 (True \<or> 0 < i) (names ! i))))
        \<and> (if done then answered q' else q' = q)"
        using Cons.IH [OF Cons.prems(1), of m' True] m'(2) [OF False] Cons.prems(4) by simp
      moreover have "dnsbl_loop U E ub se snap q_type q0 q_ip is_cname (name # names) q m
          = dnsbl_loop U E ub se snap q_type q0 q_ip True names q m'"
        unfolding dnsbl_loop.simps m'(1) sum.case prod.case if_not_P [OF False] ..
      moreover have "(\<exists>i < length (name # names). is_block (chain_verdict U E (st_pfb (m_st m)) snap q q0 (is_cname \<or> 0 < i) ((name # names) ! i)))
          \<longleftrightarrow> (\<exists>i < length names. is_block (chain_verdict U E (st_pfb (m_st m)) snap q q0 (True \<or> 0 < i) (names ! i)))"
        using False by (auto simp: less_Suc_eq_0_disj)
      moreover have "st_pfb (m_st m') = st_pfb (m_st m)" using m'(2) [OF False] by blast
      ultimately show ?thesis by simp
    qed
  qed
qed

subsection \<open>Sample queries\<close>

text \<open>The sample lists, live, and two queries: a whitelisted name that is an alias of a blocked one,
  and the blocked name itself.\<close>

definition sample_snapshot :: Snapshot where
  "sample_snapshot = \<lparr>sn_data = ct_data sample_ct, sn_zone = [], sn_white = ct_white sample_ct,
     sn_regex = ct_regex sample_ct, sn_allow_regex = ct_allow_regex sample_ct,
     sn_user_regex = ct_user_regex sample_ct, sn_user_allow_regex = ct_user_allow_regex sample_ct,
     sn_feed_group_index = ct_feed_group_index sample_ct, sn_hsts = [], sn_important_rules = True,
     sn_counts = 1, sn_regex_count = 1, sn_rejects = [], sn_psl_rules = empty_rules,
     sn_tld_allow_roots = None, sn_psl_include_private = True, sn_psl_allow_private = False,
     sn_private_policy = ''honor'', sn_icann_policy = ''honor'', sn_builtin_log_flag = ''0'', sn_gen = 1\<rparr>"

definition sample_modul :: modul where
  "sample_modul = \<lparr>m_st = sample_state\<lparr>st_snapshot := Some sample_snapshot, st_next_gen := 2, st_next_id := 5,
       st_cache := lru_new 10\<rparr>,
     m_mod_threading = True, m_gp_flag = False, m_gp = [], m_timers = [], m_event = None, m_tasks = [], m_rows = []\<rparr>"

definition sample_settings :: settings where
  "sample_settings = \<lparr>se_noaaaa = False, se_noaaaa_db = [], se_safesearch = False, se_safesearch_db = [],
     se_python_cname = True, se_python_control = False, se_python_control_legacy = False,
     se_python_nolog = False, se_resolver_con = False, se_ip_ok = (\<lambda>_. True), se_in_nets = (\<lambda>_. False),
     se_nets = False\<rparr>"

definition sample_reply :: "string \<Rightarrow> rrset list \<Rightarrow> return_msg" where
  "sample_reply name sets = \<lparr>rm_ref = 0, rm_qname = Some name, rm_qtype = rr_type_a, rm_qclass = 1,
     rm_rep = \<lparr>rp_flags = 0x8180, rp_ttl = 60, rp_security = 0, rp_authoritative = False, rp_an = length sets, rp_ns = 0,
       rp_ar = 0, rp_rrsets = sets\<rparr>, rm_answer = [], rm_authority = [], rm_additional = []\<rparr>"

definition sample_unbound :: unbound where
  "sample_unbound = \<lparr>ub_set_return_msg = (\<lambda>msg q. Some (sample_reply (dm_name msg) [])), ub_store = (\<lambda>_ _. True)\<rparr>"

definition sample_query :: "string \<Rightarrow> return_msg option \<Rightarrow> qstate" where
  "sample_query name rm = \<lparr>qs_qname = Some name, qs_qtype = Some rr_type_a, qs_qtype_str = ''A'',
     qs_qname_list = Some (split_on dot name), qs_addrs = [Some ''10.0.0.2''], qs_return_msg = rm,
     qs_return_rcode = rcode_noerror, qs_ext_state = 0, qs_no_cache_store = False\<rparr>"

text \<open>The answer of \<open>ok.org\<close>: a CNAME to \<open>bad.org\<close> and an address.\<close>

definition alias_answer :: return_msg where
  "alias_answer = sample_reply ''ok.org.''
     [\<lparr>rr_type_str = ''CNAME'', rr_count = 1, rr_sigs = 0, rr_datas = [[0, 9, 3, 98, 97, 100, 3, 111, 114, 103, 0]], rr_ttls = [60]\<rparr>,
      \<lparr>rr_type_str = ''A'', rr_count = 1, rr_sigs = 0, rr_datas = [[0, 4, 192, 0, 2, 1]], rr_ttls = [60]\<rparr>]"

definition run_query :: "nat \<Rightarrow> qstate \<Rightarrow> modul \<Rightarrow> py_error + qstate \<times> modul" where
  "run_query event q m = operate plain_unicode sample_env sample_unbound sample_settings True True event q m"

lemma sample_modul_live: "live sample_env {sample_snapshot} (m_st sample_modul)"
  unfolding live_def live_in_def
  by (rule exI [of _ sample_heap])
    (simp add: same_below_def sample_modul_def sample_state_def sample_st_def slots_ok_def slot_ok_def lists_ok_def
      snapshot_containers_def sample_snapshot_def sample_heap_def sample_ct_def)

subsection \<open>Properties\<close>



text \<open>An allow leaks through the memo: \<open>bad.org\<close> is blocked when it is asked for; after a query
  for the whitelisted \<open>ok.org\<close>, whose answer is an alias of \<open>bad.org\<close>, the same question is passed to
  the resolver, because the verdict reached with the whitelist of \<open>ok.org\<close> was memoised under
  \<open>bad.org\<close>.\<close>

theorem cname_allow_leaks:
  "(case run_query event_new (sample_query ''bad.org.'' None) sample_modul of
      Inr (q, _) \<Rightarrow> (qs_ext_state q, qs_return_rcode q) = (module_finished, rcode_nxdomain) | Inl _ \<Rightarrow> False)
   \<and> (case run_query event_moddone (sample_query ''ok.org.'' (Some alias_answer)) sample_modul of
        Inr (_, m) \<Rightarrow>
          (case run_query event_new (sample_query ''bad.org.'' None) m of
             Inr (q, _) \<Rightarrow> qs_ext_state q = module_wait_module | Inl _ \<Rightarrow> False)
      | Inl _ \<Rightarrow> False)"
  by code_simp

end
