(* ===== verification/WireNames.thy ===== *)
theory WireNames
  imports Wire
begin

text \<open>
  Names on the wire: octets and bits, presentation names and labels, the reading of a name as a
  relation (\<open>spells\<close>), and what the compressing writer leaves for the reader.
\<close>

subsection \<open>Octets\<close>

lemma u16_round: "u16_of (ucast (drop_bit 8 w)) (ucast w) = w"
  unfolding u16_of_def by (rule bit_word_eqI) (auto simp: bit_simps)

lemma u32_round:
  "u32_of (ucast (drop_bit 24 w)) (ucast (drop_bit 16 w)) (ucast (drop_bit 8 w)) (ucast w) = w"
  unfolding u32_of_def
proof (rule bit_word_eqI, goal_cases)
  case (1 n)
  then consider "n < 8" | "8 \<le> n" "n < 16" | "16 \<le> n" "n < 24" | "24 \<le> n" "n < 32" by fastforce
  then show ?case by cases (auto simp: bit_simps less_diff_conv2)
qed

lemma length_u16 [simp]: "length (u16_bytes w) = 2"
  by (simp add: u16_bytes_def)

lemma length_u32 [simp]: "length (u32_bytes w) = 4"
  by (simp add: u32_bytes_def)

lemma read_u16_at: "read_u16 (a @ u16_bytes w @ b) (length a) = w"
  by (simp add: read_u16_def u16_bytes_def nth_append u16_round)

lemma read_u32_at: "read_u32 (a @ u32_bytes w @ b) (length a) = w"
  by (simp add: read_u32_def u32_bytes_def nth_append u32_round numeral_2_eq_2 numeral_3_eq_3)

lemma read_u16_ext: "pos + 2 \<le> length a \<Longrightarrow> read_u16 (a @ b) pos = read_u16 a pos"
  by (simp add: read_u16_def nth_append)

lemma of_nat_octet: "n < 256 \<Longrightarrow> unat (of_nat n :: octet) = n"
  by (simp add: unat_of_nat take_bit_nat_eq_self)

lemma of_nat_short: "n < 65536 \<Longrightarrow> unat (of_nat n :: 16 word) = n"
  by (simp add: unat_of_nat take_bit_nat_eq_self)

lemma octet_bound: "unat (b :: octet) < 256"
  using unsigned_less [of b] by simp

subsection \<open>Presentation names\<close>

definition labels_ok :: "bytes list \<Rightarrow> bool" where
  "labels_ok ls \<longleftrightarrow> (\<forall>l \<in> set ls. l \<noteq> [] \<and> length l \<le> max_label) \<and> wire_length ls \<le> max_name"

lemma pad3_dec:
  assumes "n < 256"
  shows "list_all is_dec (pad3 n)"
proof -
  have "n div 100 < 10" using assms by (intro less_mult_imp_div_less) simp
  then show ?thesis by (simp add: pad3_def is_dec_def less_Suc_eq_le [symmetric])
qed

lemma pad3_value:
  assumes "n < 256"
  shows "dec_value (pad3 n) = n"
proof -
  have "n div 100 = n div 10 div 10" by (simp flip: div_mult2_eq)
  moreover have "n div 100 < 10" using assms by (intro less_mult_imp_div_less) simp
  moreover have "10 * (n div 10 div 10) + n div 10 mod 10 = n div 10" "10 * (n div 10) + n mod 10 = n" by simp_all
  ultimately show ?thesis by (simp add: pad3_def dec_value_def)
qed

lemma octet_char_eq:
  "char_of (unat b) = dot \<longleftrightarrow> b = 0x2E" "char_of (unat b) = CHR 0x5C \<longleftrightarrow> b = 0x5C" for b :: octet
proof -
  have "char_of (unat b) = c \<longleftrightarrow> unat b = code_pt c" for c
    using octet_bound [of b] by (metis code_pt_char_of char_of_code_pt)
  then show "char_of (unat b) = dot \<longleftrightarrow> b = 0x2E" "char_of (unat b) = CHR 0x5C \<longleftrightarrow> b = 0x5C"
    by (simp_all add: word_unat_eq_iff code_pt_def)
qed

lemma name_scan_octet: "name_scan (octet_chars b @ s) cur acc = name_scan s (cur @ [b]) acc"
proof -
  have lt: "unat b < 256" by (rule octet_bound)
  have bk: "of_nat (unat b) = b" by simp
  have code: "code_pt (char_of (unat b)) = unat b" using lt by simp
  consider "b = 0x2E \<or> b = 0x5C" | "b \<noteq> 0x2E" "b \<noteq> 0x5C" "0x21 \<le> b" "b \<le> 0x7E"
    | "b \<noteq> 0x2E" "b \<noteq> 0x5C" "\<not> (0x21 \<le> b \<and> b \<le> 0x7E)" by blast
  then show ?thesis
  proof cases
    case 1
    then have o: "octet_chars b = [CHR 0x5C, char_of (unat b)]" by (simp add: octet_chars_def)
    have "unat b = 0x2E \<or> unat b = 0x5C" using 1 by auto
    then have nd: "\<not> is_py_digit (char_of (unat b))" using code by (auto simp: is_py_digit_def is_dec_def)
    have u: "utf8 (char_of (unat b)) = [b]" using \<open>unat b = 0x2E \<or> unat b = 0x5C\<close> code bk
      by (auto simp: utf8_def Let_def)
    show ?thesis unfolding o append_Cons append_Nil name_scan.simps(2) using nd u by simp
  next
    case 2
    then have o: "octet_chars b = [char_of (unat b)]" by (simp add: octet_chars_def)
    have r: "unat b \<le> 0x7E" using 2(4) by (simp add: word_le_nat_alt)
    have ne: "char_of (unat b) \<noteq> dot" "char_of (unat b) \<noteq> CHR 0x5C" using 2(1,2) by (simp_all add: octet_char_eq)
    have u: "utf8 (char_of (unat b)) = [b]" using r code bk by (simp add: utf8_def Let_def)
    show ?thesis unfolding o append_Cons append_Nil name_scan.simps(2) using ne u by simp
  next
    case 3
    have "\<not> (b = 0x2E \<or> b = 0x5C)" using 3(1,2) by blast
    with 3(3) have o: "octet_chars b = CHR 0x5C # pad3 (unat b)" by (simp only: octet_chars_def if_False)
    obtain d ds where p: "pad3 (unat b) = d # ds" by (simp add: pad3_def)
    have t: "take 3 (pad3 (unat b) @ s) = pad3 (unat b)" "drop 3 (pad3 (unat b) @ s) = s"
      by (simp_all add: pad3_def)
    have "is_dec d" using pad3_dec [OF lt] p by simp
    then have dg: "is_py_digit d" by (simp add: is_py_digit_def)
    have l3: "length (pad3 (unat b)) = 3" by (simp add: pad3_def)
    have "name_scan (CHR 0x5C # pad3 (unat b) @ s) cur acc = name_scan s (cur @ [of_nat (unat b)]) acc"
      unfolding name_scan.simps(2)
      using dg l3 t pad3_dec [OF lt] pad3_value [OF lt] lt by (simp add: p)
    then show ?thesis unfolding o bk by simp
  qed
qed

lemma name_scan_label: "name_scan (label_text l @ s) cur acc = name_scan s (cur @ l) acc"
proof (induction l arbitrary: cur)
  case (Cons b l)
  have "label_text (b # l) @ s = octet_chars b @ label_text l @ s" by (simp add: label_text_def)
  then show ?case using Cons by (simp add: name_scan_octet)
qed (simp add: label_text_def)

lemma name_scan_labels:
  "\<forall>l \<in> set ls. l \<noteq> [] \<Longrightarrow>
    name_scan (concat (map (\<lambda>l. label_text l @ [dot]) ls)) [] acc = Inr (acc @ ls, [])"
proof (induction ls arbitrary: acc)
  case (Cons l ls)
  have "name_scan (concat (map (\<lambda>l. label_text l @ [dot]) (l # ls))) [] acc
      = name_scan (dot # concat (map (\<lambda>l. label_text l @ [dot]) ls)) l acc"
    using name_scan_label [of l "dot # concat (map (\<lambda>l. label_text l @ [dot]) ls)" "[]" acc] by simp
  also have "\<dots> = Inr (acc @ l # ls, [])" using Cons by simp
  finally show ?case .
qed simp

lemma octet_chars_not_dot: "octet_chars b \<noteq> []" "octet_chars b @ s \<noteq> [dot]"
proof -
  show "octet_chars b \<noteq> []" by (simp add: octet_chars_def)
  show "octet_chars b @ s \<noteq> [dot]" by (auto simp: octet_chars_def octet_char_eq pad3_def)
qed

lemma text_not_dot: "l \<noteq> [] \<Longrightarrow> label_text l @ s \<noteq> [dot] \<and> label_text l \<noteq> []"
  using octet_chars_not_dot by (cases l) (auto simp: label_text_def)

lemma labels_round:
  assumes "labels_ok ls"
  shows "name_to_labels (labels_to_text ls) = Inr ls"
proof (cases ls)
  case Nil
  then show ?thesis by (simp add: labels_to_text_def name_to_labels_def)
next
  case (Cons l ls')
  let ?t = "concat (map (\<lambda>l. label_text l @ [dot]) ls)"
  have ok: "\<forall>l \<in> set ls. l \<noteq> []" "\<not> list_ex (\<lambda>l. max_label < length l) ls" "wire_length ls \<le> max_name"
    using assms by (auto simp: labels_ok_def list_ex_iff)
  have "?t \<noteq> []" by (simp add: Cons)
  moreover have "?t \<noteq> [dot]" using text_not_dot [of l] ok(1) by (simp add: Cons)
  ultimately show ?thesis
    using name_scan_labels [OF ok(1), of "[]"] ok(2,3) by (simp add: labels_to_text_def name_to_labels_def Let_def)
qed

subsection \<open>Pointers\<close>

lemma bit_cases:
  assumes "n < (8 :: nat)"
  shows "n = 0 \<or> n = 1 \<or> n = 2 \<or> n = 3 \<or> n = 4 \<or> n = 5 \<or> n = 6 \<or> n = 7"
  using assms by arith

lemma bit_c0: "bit (0xC0 :: octet) n \<longleftrightarrow> n = 6 \<or> n = 7"
proof (cases "n < 8")
  case True
  then show ?thesis using bit_cases [OF True] by (elim disjE) simp_all
next
  case False
  then show ?thesis by (auto simp: bit_imp_le_length dest: bit_imp_le_length)
qed

lemma bit_3f: "bit (0x3F :: octet) n \<longleftrightarrow> n < 6"
proof (cases "n < 8")
  case True
  then show ?thesis using bit_cases [OF True] by (elim disjE) simp_all
next
  case False
  then show ?thesis by (auto dest: bit_imp_le_length)
qed

lemma bit_c000: "bit (0xC000 :: 16 word) n \<longleftrightarrow> n = 14 \<or> n = 15"
proof -
  have "(0xC000 :: 16 word) = push_bit 8 (ucast (0xC0 :: octet))" by simp
  then have "bit (0xC000 :: 16 word) n \<longleftrightarrow> 8 \<le> n \<and> n < 16 \<and> bit (0xC0 :: octet) (n - 8)"
    by (simp only: bit_push_bit_iff bit_ucast_iff) (auto dest: bit_imp_le_length)
  then show ?thesis unfolding bit_c0 by auto
qed

lemma octet_small: "b AND 0xC0 = 0 \<longleftrightarrow> unat b < 64" for b :: octet
proof -
  have "b AND 0xC0 = 0 \<longleftrightarrow> take_bit 6 b = b"
  proof
    assume "b AND 0xC0 = 0"
    then have "\<not> bit (b AND 0xC0) 6" "\<not> bit (b AND 0xC0) 7" by simp_all
    then have "\<not> bit b 6" "\<not> bit b 7" by (simp_all only: bit_and_iff bit_c0 simp_thms)
    then show "take_bit 6 b = b"
      by (intro bit_word_eqI) (auto simp: bit_simps dest!: bit_cases)
  next
    assume "take_bit 6 b = b"
    then have "\<not> bit b n" if "6 \<le> n" for n using that by (metis bit_take_bit_iff linorder_not_le)
    then show "b AND 0xC0 = 0" by (intro bit_word_eqI) (simp only: bit_and_iff bit_c0 bit_0_eq bot_apply, auto)
  qed
  also have "\<dots> \<longleftrightarrow> take_bit 6 (unat b) = unat b" by (simp add: word_unat_eq_iff unsigned_take_bit_eq)
  also have "\<dots> \<longleftrightarrow> unat b < 64" by (simp add: take_bit_nat_eq_self_iff)
  finally show ?thesis .
qed

text \<open>The two octets of a pointer, and where they point.\<close>

definition goal_of :: "octet \<Rightarrow> octet \<Rightarrow> nat" where
  "goal_of a b = push_bit 8 (unat (a AND 0x3F)) OR unat b"

lemma pointer_bytes:
  assumes "off < 0x4000"
  obtains a b where "u16_bytes (0xC000 OR of_nat off) = [a, b]" "a AND 0xC0 = 0xC0" "goal_of a b = off"
proof -
  let ?w = "0xC000 OR of_nat off :: 16 word"
  have w: "bit ?w n \<longleftrightarrow> n = 14 \<or> n = 15 \<or> (n < 16 \<and> bit off n)" for n
    unfolding bit_or_iff bit_c000 bit_of_nat_iff by auto
  have "take_bit 14 off = off" using assms by (simp add: take_bit_nat_eq_self_iff)
  then have off: "bit off n \<Longrightarrow> n < 14" for n by (metis bit_take_bit_iff)
  show thesis
  proof (rule that)
    show "u16_bytes ?w = [ucast (drop_bit 8 ?w), ucast ?w]" by (simp add: u16_bytes_def)
    show "(ucast (drop_bit 8 ?w) :: octet) AND 0xC0 = 0xC0"
      by (rule bit_word_eqI) (simp only: bit_and_iff bit_c0 bit_ucast_iff bit_drop_bit_eq o_apply w, auto)
    show "goal_of (ucast (drop_bit 8 ?w)) (ucast ?w) = off"
    proof (rule bit_eqI)
      fix n
      have "bit (goal_of (ucast (drop_bit 8 ?w)) (ucast ?w)) n
          \<longleftrightarrow> (8 \<le> n \<and> n - 8 < 6 \<and> bit ?w n) \<or> (n < 8 \<and> bit ?w n)"
        unfolding goal_of_def
        by (simp only: bit_or_iff bit_push_bit_iff bit_unsigned_iff bit_and_iff bit_3f bit_ucast_iff bit_drop_bit_eq
          o_apply) (auto dest: bit_imp_le_length)
      also have "\<dots> \<longleftrightarrow> bit off n" using off [of n] by (auto simp: w)
      finally show "bit (goal_of (ucast (drop_bit 8 ?w)) (ucast ?w)) n \<longleftrightarrow> bit off n" .
    qed
  qed
qed

subsection \<open>Reading a name\<close>

text \<open>The octets at \<open>cur\<close> spell the labels with \<open>h\<close> pointers on the way; \<open>stop\<close> is just past them.\<close>

inductive spells :: "bytes \<Rightarrow> nat \<Rightarrow> bytes list \<Rightarrow> nat \<Rightarrow> nat \<Rightarrow> bool" for data where
  root: "cur < length data \<Longrightarrow> data ! cur = 0 \<Longrightarrow> spells data cur [] (cur + 1) 0"
| label: "cur < length data \<Longrightarrow> l \<noteq> [] \<Longrightarrow> length l \<le> max_label \<Longrightarrow> data ! cur = of_nat (length l) \<Longrightarrow>
    cur + 1 + length l \<le> length data \<Longrightarrow> take (length l) (drop (cur + 1) data) = l \<Longrightarrow>
    spells data (cur + 1 + length l) ls stop h \<Longrightarrow> spells data cur (l # ls) stop h"
| pointer: "cur + 1 < length data \<Longrightarrow> data ! cur AND 0xC0 = 0xC0 \<Longrightarrow> goal_of (data ! cur) (data ! (cur + 1)) < cur \<Longrightarrow>
    spells data (goal_of (data ! cur) (data ! (cur + 1))) ls stop h \<Longrightarrow> spells data cur ls (cur + 2) (Suc h)"

definition body_length :: "bytes list \<Rightarrow> nat" where
  "body_length ls = sum_list (map (\<lambda>l. length l + 1) ls)"

lemma body_simps [simp]: "body_length [] = 0" "body_length (l # ls) = length l + 1 + body_length ls"
  by (simp_all add: body_length_def)

lemma wire_length_body: "wire_length ls = body_length ls + 1"
  by (simp add: wire_length_def body_length_def)

lemma c0_not_small: "b AND 0xC0 = 0xC0 \<Longrightarrow> 64 \<le> unat b" for b :: octet
proof -
  assume "b AND 0xC0 = 0xC0"
  then have "b AND 0xC0 \<noteq> 0" by simp
  then show ?thesis unfolding octet_small by simp
qed

lemma spells_read:
  assumes "spells data cur ls e h" "hops + h \<le> max_hops" "len + body_length ls \<le> max_name"
  shows "wire_labels data cur acc len stop hops = Inr (acc @ ls, case stop of Some s \<Rightarrow> s | None \<Rightarrow> e)"
  using assms
proof (induction arbitrary: acc len stop hops rule: spells.induct)
  case (root cur)
  then show ?case by (subst wire_labels.simps) simp
next
  case (label cur l ls e h)
  have n: "unat (data ! cur) = length l" using label(3,4) by (simp add: max_label_def of_nat_octet)
  have small: "data ! cur AND 0xC0 = 0" "data ! cur \<noteq> 0"
    using n label(2,3) by (auto simp: octet_small max_label_def)
  have "wire_labels data (cur + 1 + length l) (acc @ [l]) (len + 1 + length l) stop hops
      = Inr ((acc @ [l]) @ ls, case stop of Some s \<Rightarrow> s | None \<Rightarrow> e)"
    using label.IH label.prems by simp
  then show ?case using label(1,5,6) label.prems small n by (subst wire_labels.simps) (simp add: Let_def)
next
  case (pointer cur ls e h)
  have nz: "data ! cur \<noteq> 0" using pointer(2) by auto
  have "wire_labels data (goal_of (data ! cur) (data ! (cur + 1))) acc len
      (case stop of Some e \<Rightarrow> Some e | None \<Rightarrow> Some (cur + 2)) (hops + 1)
      = Inr (acc @ ls, case stop of Some s \<Rightarrow> s | None \<Rightarrow> cur + 2)"
    using pointer.IH pointer.prems by (simp split: option.split)
  then show ?case using pointer(1-3) pointer.prems nz
    by (subst wire_labels.simps) (simp add: Let_def goal_of_def)
qed

lemma read_spells:
  assumes "wire_labels data cur acc len stop hops = Inr (r, e)" "hops \<le> max_hops" "len \<le> max_name"
  shows "\<exists>ls e' h. r = acc @ ls \<and> spells data cur ls e' h \<and> hops + h \<le> max_hops \<and> len + body_length ls \<le> max_name
    \<and> e = (case stop of Some s \<Rightarrow> s | None \<Rightarrow> e')"
  using assms
proof (induction data cur acc len stop hops rule: wire_labels.induct)
  case (1 data cur labels len stop hops)
  let ?b = "data ! cur"
  note run = 1(3)
  have inb: "cur < length data" using 1(3) by (subst (asm) wire_labels.simps) (simp split: if_splits)
  consider "?b = 0" | "?b \<noteq> 0" "?b AND 0xC0 = 0xC0" | "?b \<noteq> 0" "?b AND 0xC0 = 0"
    using 1(3) inb by (subst (asm) wire_labels.simps) (auto split: if_splits)
  then show ?case
  proof cases
    case 1
    then have "r = labels" "e = (case stop of Some s \<Rightarrow> s | None \<Rightarrow> cur + 1)"
      using run inb by (subst (asm) wire_labels.simps, simp)+
    then show ?thesis using spells.root [OF inb 1] \<open>len \<le> max_name\<close> \<open>hops \<le> max_hops\<close>
      by (intro exI [of _ "[]"] exI [of _ "cur + 1"] exI [of _ 0]) simp
  next
    case 2
    let ?g = "goal_of ?b (data ! (cur + 1))"
    have c: "cur + 1 < length data" "?g < cur" "hops + 1 \<le> max_hops"
      "wire_labels data ?g labels len (case stop of Some e \<Rightarrow> Some e | None \<Rightarrow> Some (cur + 2)) (hops + 1) = Inr (r, e)"
      using run 2 inb by (subst (asm) wire_labels.simps, simp add: Let_def goal_of_def split: if_splits)+
    obtain ls e' h where ih: "r = labels @ ls" "spells data ?g ls e' h" "hops + 1 + h \<le> max_hops"
      "len + body_length ls \<le> max_name" "e = (case stop of Some s \<Rightarrow> s | None \<Rightarrow> cur + 2)"
      using 1(1) [unfolded goal_of_def [symmetric], of ?g] c 2 inb 1(5) by (force split: option.splits)
    then show ?thesis using spells.pointer [OF c(1) 2(2) c(2) ih(2)] by (intro exI [of _ ls] exI [of _ "cur + 2"] exI [of _ "Suc h"]) simp
  next
    case 3
    let ?l = "take (unat ?b) (drop (cur + 1) data)"
    have c: "cur + 1 + unat ?b \<le> length data" "len + 1 + unat ?b \<le> max_name"
      "wire_labels data (cur + 1 + unat ?b) (labels @ [?l]) (len + 1 + unat ?b) stop hops = Inr (r, e)"
      using run 3 inb by (subst (asm) wire_labels.simps, simp add: Let_def split: if_splits)+
    have l: "length ?l = unat ?b" using c(1) by simp
    have ne: "?l \<noteq> []" using l 3(1) by (metis length_0_conv unat_eq_zero)
    have sm: "length ?l \<le> max_label" using 3(2) l by (simp add: octet_small max_label_def)
    obtain ls e' h where ih: "r = (labels @ [?l]) @ ls" "spells data (cur + 1 + unat ?b) ls e' h" "hops + h \<le> max_hops"
      "len + 1 + unat ?b + body_length ls \<le> max_name" "e = (case stop of Some s \<Rightarrow> s | None \<Rightarrow> e')"
      using 1(2) [of "unat ?b"] c 3 inb 1(4) by force
    have "spells data cur (?l # ls) e' h"
      by (rule spells.label) (use inb ne sm l c(1) ih(2) in simp_all)
    then show ?thesis using ih l by (intro exI [of _ "?l # ls"] exI [of _ e'] exI [of _ h]) simp
  qed
qed

subsection \<open>Writing a name\<close>

lemma spells_append: "spells data cur ls e h \<Longrightarrow> spells (data @ ext) cur ls e h"
proof (induction rule: spells.induct)
  case (root cur)
  then show ?case using spells.root [of cur "data @ ext"] by (simp add: nth_append)
next
  case (label cur l ls e h)
  show ?case
    by (rule spells.label) (use label in \<open>simp_all add: nth_append\<close>)
next
  case (pointer cur ls e h)
  have "cur < length data" using pointer(1) by simp
  then show ?case using spells.pointer [of cur "data @ ext" ls e h] pointer by (simp add: nth_append)
qed

text \<open>An entry of \<open>seen\<close> that can be pointed at: what stands at the offset spells the key, up to case,
  with fewer pointers than it has labels.\<close>

definition target_ok :: "bytes \<Rightarrow> bytes list \<Rightarrow> nat \<Rightarrow> bool" where
  "target_ok out key off \<longleftrightarrow> off < length out \<and> off < 0x4000
     \<and> (\<exists>ls e h. spells out off ls e h \<and> map lower_bytes ls = key \<and> h < length key)"

lemma target_append: "target_ok out key off \<Longrightarrow> target_ok (out @ ext) key off"
  unfolding target_ok_def using spells_append by fastforce

lemma put_labels_spells:
  assumes "\<forall>(key, off) \<in> set seen. length key \<le> length ls \<longrightarrow> target_ok out key off"
    and "\<forall>l \<in> set ls. l \<noteq> [] \<and> length l \<le> max_label"
  shows "\<exists>ext new ls' h. put_labels ls (out, seen) = (out @ ext, new @ seen)
    \<and> (\<forall>(key, off) \<in> set new. length key \<le> length ls \<and> target_ok (out @ ext) key off)
    \<and> spells (out @ ext) (length out) ls' (length (out @ ext)) h
    \<and> map lower_bytes ls' = map lower_bytes ls \<and> h \<le> length ls"
  using assms
proof (induction ls arbitrary: out seen)
  case Nil
  have "spells (out @ [0]) (length out) [] (length out + 1) 0" by (rule spells.root) simp_all
  then show ?case by (intro exI [of _ "[0]"] exI [of _ "[]"] exI [of _ 0]) simp
next
  case (Cons l ls)
  let ?key = "map lower_bytes (l # ls)"
  have l: "l \<noteq> []" "length l \<le> max_label" using Cons.prems(2) by simp_all
  show ?case
  proof (cases "map_of seen ?key")
    case (Some off)
    then have t: "target_ok out ?key off" using Cons.prems(1) map_of_SomeD [OF Some] by fastforce
    then obtain ls' e h where s: "off < length out" "off < 0x4000" "spells out off ls' e h"
      "map lower_bytes ls' = ?key" "h < length ?key" by (auto simp: target_ok_def)
    obtain a b where ab: "u16_bytes (0xC000 OR of_nat off) = [a, b]" "a AND 0xC0 = 0xC0" "goal_of a b = off"
      using pointer_bytes [OF s(2)] .
    have "spells (out @ [a, b]) (length out) ls' (length out + 2) (Suc h)"
      using spells.pointer [of "length out" "out @ [a, b]" ls' e h] ab s(1) spells_append [OF s(3)] by (simp add: nth_append)
    then show ?thesis
      using Some ab(1) s(4,5) by (intro exI [of _ "[a, b]"] exI [of _ "[]"] exI [of _ ls'] exI [of _ "Suc h"]) (simp add: Let_def)
  next
    case None
    let ?out = "out @ of_nat (length l) # l"
    let ?new = "if length out < 0x4000 then [(?key, length out)] else []"
    have "\<forall>(key, off) \<in> set (?new @ seen). length key \<le> length ls \<longrightarrow> target_ok ?out key off"
      using Cons.prems(1) target_append [of out] by fastforce
    from Cons.IH [OF this] Cons.prems(2) obtain ext new ls' h where ih:
      "put_labels ls (?out, ?new @ seen) = (?out @ ext, new @ ?new @ seen)"
      "\<forall>(key, off) \<in> set new. length key \<le> length ls \<and> target_ok (?out @ ext) key off"
      "spells (?out @ ext) (length ?out) ls' (length (?out @ ext)) h"
      "map lower_bytes ls' = map lower_bytes ls" "h \<le> length ls" by auto
    let ?m = "(of_nat (length l) # l) @ ext"
    have s: "spells (out @ ?m) (length out) (l # ls') (length (out @ ?m)) h"
    proof (rule spells.label)
      show "spells (out @ ?m) (length out + 1 + length l) ls' (length (out @ ?m)) h" using ih(3) by simp
    qed (use l in simp_all)
    have "put_labels (l # ls) (out, seen) = (out @ ?m, (new @ ?new) @ seen)"
      using None ih(1) by (cases "length out < 0x4000") (simp_all add: Let_def)
    moreover have "\<forall>(key, off) \<in> set (new @ ?new). length key \<le> length (l # ls) \<and> target_ok (out @ ?m) key off"
    proof -
      have "target_ok (out @ ?m) ?key (length out)" if "length out < 0x4000"
        unfolding target_ok_def using s that ih(4,5)
        by (intro conjI exI [of _ "l # ls'"] exI [of _ "length (out @ ?m)"] exI [of _ h]) simp_all
      then show ?thesis using ih(2) by fastforce
    qed
    ultimately show ?thesis using s ih(4,5)
      by (intro exI [of _ ?m] exI [of _ "new @ ?new"] exI [of _ "l # ls'"] exI [of _ h]) simp
  qed
qed

end
