(* ===== verification/WireLaws.thy ===== *)
theory WireLaws
  imports WireNames
begin

text \<open>
  The laws of the wire codec on whole messages: the round trip through the compressing encoder, and
  that what is parsed is well formed and can be encoded again.
\<close>

subsection \<open>Whole messages\<close>

text \<open>A name that can go on the wire.\<close>

definition name_ok :: "string \<Rightarrow> bool" where
  "name_ok name \<longleftrightarrow> (case name_to_labels name of Inl e \<Rightarrow> False | Inr ls \<Rightarrow> True)"

text \<open>Rdata in canonical form: the names of a layout written in full.\<close>

fun plain_rdata :: "nat option list \<Rightarrow> bytes \<Rightarrow> bool" where
  "plain_rdata [] rd = (rd = [])"
| "plain_rdata (Some n # parts) rd = (n \<le> length rd \<and> plain_rdata parts (drop n rd))"
| "plain_rdata (None # parts) rd = (\<exists>ls rd'. rd = plain_name ls @ rd' \<and> labels_ok ls \<and> plain_rdata parts rd')"

definition rr_ok :: "RR \<Rightarrow> bool" where
  "rr_ok rr \<longleftrightarrow> name_ok (rr_name rr) \<and> (case map_of name_layouts (rr_type rr) of
     None \<Rightarrow> True | Some layout \<Rightarrow> plain_rdata layout (rr_rdata rr))"

definition message_ok :: "Message \<Rightarrow> bool" where
  "message_ok m \<longleftrightarrow> (\<forall>q \<in> set (ms_questions m). name_ok (qn_name q))
     \<and> (\<forall>rr \<in> set (ms_answers m @ ms_authority m @ ms_additional m). rr_ok rr)"

text \<open>A message with its owner names in their canonical text and in lower case.\<close>

definition fold_name :: "string \<Rightarrow> string" where
  "fold_name name = (case name_to_labels name of Inl e \<Rightarrow> name | Inr ls \<Rightarrow> labels_to_text (map lower_bytes ls))"

definition fold_question :: "Question \<Rightarrow> Question" where
  "fold_question q = q\<lparr>qn_name := fold_name (qn_name q)\<rparr>"

definition fold_rr :: "RR \<Rightarrow> RR" where
  "fold_rr rr = rr\<lparr>rr_name := fold_name (rr_name rr)\<rparr>"

definition fold_names :: "Message \<Rightarrow> Message" where
  "fold_names m = m\<lparr>ms_questions := map fold_question (ms_questions m), ms_answers := map fold_rr (ms_answers m),
     ms_authority := map fold_rr (ms_authority m), ms_additional := map fold_rr (ms_additional m)\<rparr>"

lemma name_scan_nonempty: "name_scan s cur acc = Inr (ls, cur') \<Longrightarrow> [] \<notin> set acc \<Longrightarrow> [] \<notin> set ls"
proof (induction s cur acc rule: name_scan.induct)
  case (2 c s current labels)
  note run = 2(5) [unfolded name_scan.simps(2)]
  show ?case
  proof (cases "c = CHR 0x5C")
    case True
    show ?thesis
    proof (cases s)
      case Nil
      then show ?thesis using run True by simp
    next
      case (Cons d s')
      show ?thesis
      proof (cases "is_py_digit d")
        case dig: True
        then have "name_scan (drop 3 s) (current @ [of_nat (dec_value (take 3 s))]) labels = Inr (ls, cur')"
          and bad: "\<not> (length (take 3 s) \<noteq> 3 \<or> \<not> list_all is_dec (take 3 s) \<or> dec_value (take 3 s) > 255)"
          using run True Cons by (simp_all del: take_Suc_Cons drop_Suc_Cons name_scan.simps split: if_splits)
        then show ?thesis using 2(1) [OF True Cons dig bad] 2(6) by blast
      next
        case dig: False
        then have "name_scan s' (current @ utf8 d) labels = Inr (ls, cur')" using run True Cons by simp
        then show ?thesis using 2(2) [OF True Cons dig] 2(6) by blast
      qed
    qed
  next
    case c: False
    show ?thesis
    proof (cases "c = dot")
      case True
      then have "current \<noteq> []" "name_scan s [] (labels @ [current]) = Inr (ls, cur')" using run c by (auto split: if_splits)
      then show ?thesis using 2(3) [OF c True] 2(6) by simp
    next
      case False
      then show ?thesis using run c 2(4) [OF c False] 2(6) by simp
    qed
  qed
qed simp

lemma name_labels_ok:
  assumes "name_to_labels name = Inr ls"
  shows "labels_ok ls"
proof (cases "name = [dot]")
  case True
  then show ?thesis using assms by (auto simp: name_to_labels_def labels_ok_def wire_length_def max_name_def)
next
  case False
  then obtain acc cur where s: "name_scan name [] [] = Inr (acc, cur)" "ls = (if cur = [] then acc else acc @ [cur])"
    "\<not> list_ex (\<lambda>l. max_label < length l) ls" "\<not> max_name < wire_length ls"
    using assms by (auto simp: name_to_labels_def Let_def split: if_splits sum.splits)
  have "[] \<notin> set ls" using name_scan_nonempty [OF s(1)] s(2) by simp
  then have "\<forall>l \<in> set ls. l \<noteq> []" by metis
  then show ?thesis using s(3,4) by (simp add: labels_ok_def list_ex_iff not_less)
qed

lemma body_min: "\<forall>l \<in> set ls. l \<noteq> [] \<Longrightarrow> 2 * length ls \<le> body_length ls"
proof (induction ls)
  case (Cons a ls)
  then have "1 \<le> length a" by (simp add: Suc_le_eq)
  moreover have "2 * length ls \<le> body_length ls" using Cons by simp
  ultimately show ?case by simp
qed simp

lemma labels_count: "labels_ok ls \<Longrightarrow> length ls \<le> max_hops"
  using body_min [of ls] by (auto simp: labels_ok_def wire_length_body max_name_def max_hops_def)

lemma body_lower: "map lower_bytes ls' = map lower_bytes ls \<Longrightarrow> body_length ls' = body_length ls"
proof -
  have "body_length (map lower_bytes ls) = body_length ls" for ls
    by (induction ls) (simp_all add: lower_bytes_def)
  then show "map lower_bytes ls' = map lower_bytes ls \<Longrightarrow> body_length ls' = body_length ls" by metis
qed

lemma labels_ok_lower:
  assumes "map lower_bytes ls' = map lower_bytes ls" "labels_ok ls"
  shows "labels_ok ls'"
proof -
  have "map length (map lower_bytes ls) = map length ls" for ls by (simp add: lower_bytes_def)
  then have "map length ls' = map length ls" using assms(1) by metis
  then have "length ` set ls' = length ` set ls" by (metis list.set_map)
  then have "\<forall>l \<in> set ls'. \<exists>k \<in> set ls. length l = length k" by (metis image_iff)
  then show ?thesis using assms(2) body_lower [OF assms(1)]
    by (auto simp: labels_ok_def wire_length_body)
qed

lemma fold_labels: "labels_ok ls \<Longrightarrow> fold_name (labels_to_text ls) = labels_to_text (map lower_bytes ls)"
  by (simp add: fold_name_def labels_round)

definition seen_ok :: "writer \<Rightarrow> bool" where
  "seen_ok w \<longleftrightarrow> (\<forall>(key, off) \<in> set (snd w). target_ok (fst w) key off)"

lemma seen_ok_bytes: "seen_ok w \<Longrightarrow> seen_ok (put_bytes bs w)"
  using target_append by (fastforce simp: seen_ok_def put_bytes_def)

lemma put_name_reads:
  assumes "name_to_labels name = Inr ls" "seen_ok w"
  obtains ext seen ls' where "put_name name w = Inr (fst w @ ext, seen)" "seen_ok (fst w @ ext, seen)"
    "map lower_bytes ls' = map lower_bytes ls" "ext \<noteq> []"
    "\<And>tl. read_name (fst w @ ext @ tl) (length (fst w)) = Inr (ls', length (fst w @ ext))"
proof -
  obtain out seen where w: "w = (out, seen)" by fastforce
  have lok: "labels_ok ls" by (rule name_labels_ok [OF assms(1)])
  have "\<forall>(key, off) \<in> set seen. length key \<le> length ls \<longrightarrow> target_ok out key off"
    using assms(2) by (auto simp: seen_ok_def w)
  from put_labels_spells [OF this] lok obtain ext new ls' h where p:
    "put_labels ls (out, seen) = (out @ ext, new @ seen)"
    "\<forall>(key, off) \<in> set new. length key \<le> length ls \<and> target_ok (out @ ext) key off"
    "spells (out @ ext) (length out) ls' (length (out @ ext)) h"
    "map lower_bytes ls' = map lower_bytes ls" "h \<le> length ls" by (auto simp: labels_ok_def)
  show thesis
  proof (rule that)
    show "put_name name w = Inr (fst w @ ext, new @ seen)"
      using assms(1) p(1) by (simp add: put_name_def w)
    show "seen_ok (fst w @ ext, new @ seen)"
      using p(2) assms(2) target_append by (fastforce simp: seen_ok_def w)
    show "map lower_bytes ls' = map lower_bytes ls" by (rule p(4))
    show "ext \<noteq> []" using p(3) by (auto elim: spells.cases)
    fix tl
    have "spells ((out @ ext) @ tl) (length out) ls' (length (out @ ext)) h" by (rule spells_append) (rule p(3))
    moreover have "1 + body_length ls' \<le> max_name"
      using lok body_lower [OF p(4)] by (simp add: labels_ok_def wire_length_body)
    ultimately show "read_name (fst w @ ext @ tl) (length (fst w)) = Inr (ls', length (fst w @ ext))"
      using spells_read [of "(out @ ext) @ tl" "length out" ls' "length (out @ ext)" h 0 1 "[]" None]
        p(5) labels_count [OF lok] by (simp add: read_name_def w)
  qed
qed

lemma spells_plain:
  assumes "\<forall>l \<in> set ls. l \<noteq> [] \<and> length l \<le> max_label"
  shows "spells (a @ plain_name ls @ b) (length a) ls (length a + length (plain_name ls)) 0"
  using assms
proof (induction ls arbitrary: a)
  case Nil
  show ?case using spells.root [of "length a" "a @ 0 # b"] by (simp add: plain_name_def)
next
  case (Cons l ls)
  have "spells ((a @ of_nat (length l) # l) @ plain_name ls @ b) (length (a @ of_nat (length l) # l)) ls
      (length (a @ of_nat (length l) # l) + length (plain_name ls)) 0" by (rule Cons.IH) (use Cons.prems in simp)
  then show ?case
    using spells.label [of "length a" "a @ of_nat (length l) # l @ plain_name ls @ b" l ls
      "length a + length (plain_name (l # ls))" 0] Cons.prems by (simp add: plain_name_def add.assoc)
qed

lemma read_plain:
  assumes "labels_ok ls"
  shows "read_name (a @ plain_name ls @ b) (length a) = Inr (ls, length a + length (plain_name ls))"
proof -
  have "spells (a @ plain_name ls @ b) (length a) ls (length a + length (plain_name ls)) 0"
    by (rule spells_plain) (use assms in \<open>simp add: labels_ok_def\<close>)
  moreover have "1 + body_length ls \<le> max_name" using assms by (simp add: labels_ok_def wire_length_body)
  ultimately show ?thesis using spells_read [of _ "length a" ls _ 0 0 1 "[]" None] by (simp add: read_name_def)
qed

lemma expand_plain:
  "plain_rdata parts rd \<Longrightarrow>
    expand_parts (a @ rd @ b) parts (length a) (length a + length rd) out = Inr (out @ rd)"
proof (induction parts rd arbitrary: a out rule: plain_rdata.induct)
  case (2 n parts rd)
  have "expand_parts ((a @ take n rd) @ drop n rd @ b) parts (length (a @ take n rd))
      (length (a @ take n rd) + length (drop n rd)) (out @ take n rd) = Inr ((out @ take n rd) @ drop n rd)"
    by (rule 2(1)) (use 2(2) in simp)
  moreover have "a @ take n rd @ drop n rd @ b = a @ rd @ b" by (metis append_assoc append_take_drop_id)
  ultimately show ?case using 2(2) by simp
next
  case (3 parts rd)
  obtain ls rd' where rd: "rd = plain_name ls @ rd'" "labels_ok ls" "plain_rdata parts rd'" using 3(2) by auto
  have "expand_parts ((a @ plain_name ls) @ rd' @ b) parts (length (a @ plain_name ls))
      (length (a @ plain_name ls) + length rd') (out @ plain_name ls) = Inr ((out @ plain_name ls) @ rd')"
    using 3(1) [of rd' "a @ plain_name ls" "out @ plain_name ls"] rd by simp
  then show ?case using read_plain [OF rd(2), of a "rd' @ b"] rd(1) by (simp add: add.assoc)
qed simp

lemma expand_ok:
  assumes "case map_of name_layouts rtype of None \<Rightarrow> True | Some layout \<Rightarrow> plain_rdata layout rd"
  shows "expand_rdata (a @ rd @ b) rtype (length a) (length a + length rd) = Inr rd"
  using assms expand_plain [of _ rd a b "[]"] by (simp add: expand_rdata_def split: option.splits)

text \<open>What a writer's step must give for the reader.\<close>

definition reads_back ::
  "(bytes \<Rightarrow> nat \<Rightarrow> wire_error + 'a \<times> nat) \<Rightarrow> ('a \<Rightarrow> 'a) \<Rightarrow> nat \<Rightarrow> writer \<Rightarrow> writer \<Rightarrow> 'a \<Rightarrow> bool" where
  "reads_back item fold_case n w w' x \<longleftrightarrow> seen_ok w' \<and> (\<exists>ext. fst w' = fst w @ ext \<and> n \<le> length ext
     \<and> (\<exists>x'. fold_case x' = fold_case x
       \<and> (\<forall>tl. item (fst w @ ext @ tl) (length (fst w)) = Inr (x', length (fst w @ ext)))))"

lemma question_reads_back:
  assumes "name_ok (qn_name q)" "seen_ok w" "put_question q w = Inr w'"
  shows "reads_back parse_question fold_question 5 w w' q"
proof -
  obtain ls where ls: "name_to_labels (qn_name q) = Inr ls" using assms(1) by (auto simp: name_ok_def split: sum.splits)
  obtain ext seen ls' where p: "put_name (qn_name q) w = Inr (fst w @ ext, seen)" "seen_ok (fst w @ ext, seen)"
    "map lower_bytes ls' = map lower_bytes ls" "ext \<noteq> []"
    "\<And>tl. read_name (fst w @ ext @ tl) (length (fst w)) = Inr (ls', length (fst w @ ext))"
    using put_name_reads [OF ls assms(2)] by metis
  let ?b = "u16_bytes (qn_type q) @ u16_bytes (qn_class q)"
  have w': "w' = put_bytes ?b (fst w @ ext, seen)" using assms(3) p(1) by (simp add: put_question_def)
  have "parse_question (fst w @ (ext @ ?b) @ tl) (length (fst w))
      = Inr (q\<lparr>qn_name := labels_to_text ls'\<rparr>, length (fst w @ ext @ ?b))" for tl
  proof -
    have "read_u16 ((fst w @ ext) @ u16_bytes (qn_type q) @ u16_bytes (qn_class q) @ tl) (length (fst w @ ext)) = qn_type q"
      by (rule read_u16_at)
    moreover have "read_u16 ((fst w @ ext @ u16_bytes (qn_type q)) @ u16_bytes (qn_class q) @ tl)
        (length (fst w @ ext @ u16_bytes (qn_type q))) = qn_class q" by (rule read_u16_at)
    ultimately show ?thesis using p(5) [of "?b @ tl"] by (simp add: parse_question_def)
  qed
  moreover have "fold_name (labels_to_text ls') = fold_name (qn_name q)"
    using fold_labels [OF labels_ok_lower [OF p(3) name_labels_ok [OF ls]]] p(3) ls by (simp add: fold_name_def)
  ultimately show ?thesis
    unfolding reads_back_def using seen_ok_bytes [OF p(2), of ?b] p(4)
    by (intro conjI exI [of _ "ext @ ?b"] exI [of _ "q\<lparr>qn_name := labels_to_text ls'\<rparr>"])
      (simp_all add: w' put_bytes_def fold_question_def Suc_le_eq)
qed

lemma rr_reads_back:
  assumes "rr_ok rr" "seen_ok w" "put_rr rr w = Inr w'"
  shows "reads_back parse_rr fold_rr 11 w w' rr"
proof -
  obtain ls where ls: "name_to_labels (rr_name rr) = Inr ls" using assms(1) by (auto simp: rr_ok_def name_ok_def split: sum.splits)
  obtain ext seen ls' where p: "put_name (rr_name rr) w = Inr (fst w @ ext, seen)" "seen_ok (fst w @ ext, seen)"
    "map lower_bytes ls' = map lower_bytes ls" "ext \<noteq> []"
    "\<And>tl. read_name (fst w @ ext @ tl) (length (fst w)) = Inr (ls', length (fst w @ ext))"
    using put_name_reads [OF ls assms(2)] by metis
  let ?t = "u16_bytes (rr_type rr)" and ?c = "u16_bytes (rr_class rr)" and ?l = "u32_bytes (rr_ttl rr)"
    and ?n = "u16_bytes (of_nat (length (rr_rdata rr)))"
  let ?b = "?t @ ?c @ ?l @ ?n @ rr_rdata rr"
  have len: "length (rr_rdata rr) \<le> 0xFFFF" and w': "w' = put_bytes ?b (fst w @ ext, seen)"
    using assms(3) p(1) by (simp_all add: put_rr_def split: if_splits)
  have n: "unat (of_nat (length (rr_rdata rr)) :: 16 word) = length (rr_rdata rr)" using len by (simp add: of_nat_short)
  have "parse_rr (fst w @ (ext @ ?b) @ tl) (length (fst w))
      = Inr (rr\<lparr>rr_name := labels_to_text ls'\<rparr>, length (fst w @ ext @ ?b))" for tl
  proof -
    let ?o = "fst w @ ext"
    have "read_u16 (?o @ ?t @ ?c @ ?l @ ?n @ rr_rdata rr @ tl) (length ?o) = rr_type rr" by (rule read_u16_at)
    moreover have "read_u16 ((?o @ ?t) @ ?c @ ?l @ ?n @ rr_rdata rr @ tl) (length (?o @ ?t)) = rr_class rr" by (rule read_u16_at)
    moreover have "read_u32 ((?o @ ?t @ ?c) @ ?l @ ?n @ rr_rdata rr @ tl) (length (?o @ ?t @ ?c)) = rr_ttl rr" by (rule read_u32_at)
    moreover have "read_u16 ((?o @ ?t @ ?c @ ?l) @ ?n @ rr_rdata rr @ tl) (length (?o @ ?t @ ?c @ ?l))
        = of_nat (length (rr_rdata rr))" by (rule read_u16_at)
    moreover have "expand_rdata ((?o @ ?t @ ?c @ ?l @ ?n) @ rr_rdata rr @ tl) (rr_type rr) (length (?o @ ?t @ ?c @ ?l @ ?n))
        (length (?o @ ?t @ ?c @ ?l @ ?n) + length (rr_rdata rr)) = Inr (rr_rdata rr)"
      by (rule expand_ok) (use assms(1) in \<open>simp add: rr_ok_def\<close>)
    ultimately show ?thesis using p(5) [of "?b @ tl"] n by (simp add: parse_rr_def Let_def add.assoc)
  qed
  moreover have "fold_name (labels_to_text ls') = fold_name (rr_name rr)"
    using fold_labels [OF labels_ok_lower [OF p(3) name_labels_ok [OF ls]]] p(3) ls by (simp add: fold_name_def)
  ultimately show ?thesis
    unfolding reads_back_def using seen_ok_bytes [OF p(2), of ?b] p(4)
    by (intro conjI exI [of _ "ext @ ?b"] exI [of _ "rr\<lparr>rr_name := labels_to_text ls'\<rparr>"])
      (simp_all add: w' put_bytes_def fold_rr_def Suc_le_eq)
qed

lemma put_all_reads_back:
  assumes "\<And>x w w'. x \<in> set xs \<Longrightarrow> seen_ok w \<Longrightarrow> put x w = Inr w' \<Longrightarrow> reads_back item fc n w w' x"
    and "seen_ok w" "put_all put xs w = Inr w'"
  shows "seen_ok w' \<and> (\<exists>ext. fst w' = fst w @ ext \<and> n * length xs \<le> length ext
    \<and> (\<exists>xs'. map fc xs' = map fc xs
      \<and> (\<forall>tl. read_items (item (fst w @ ext @ tl)) (length xs) (length (fst w)) = Inr (xs', length (fst w @ ext)))))"
  using assms
proof (induction xs arbitrary: w)
  case (Cons x xs)
  obtain w1 where w1: "put x w = Inr w1" "put_all put xs w1 = Inr w'"
    using Cons.prems(3) by (auto split: sum.splits)
  have "reads_back item fc n w w1 x" by (rule Cons.prems(1) [OF _ Cons.prems(2) w1(1)]) simp
  then obtain ext1 x' where r: "seen_ok w1" "fst w1 = fst w @ ext1" "n \<le> length ext1" "fc x' = fc x"
    "\<And>tl. item (fst w @ ext1 @ tl) (length (fst w)) = Inr (x', length (fst w @ ext1))"
    unfolding reads_back_def by blast
  have "seen_ok w' \<and> (\<exists>ext. fst w' = fst w1 @ ext \<and> n * length xs \<le> length ext \<and> (\<exists>xs'. map fc xs' = map fc xs
      \<and> (\<forall>tl. read_items (item (fst w1 @ ext @ tl)) (length xs) (length (fst w1)) = Inr (xs', length (fst w1 @ ext)))))"
    by (rule Cons.IH [OF Cons.prems(1) r(1) w1(2)]) simp_all
  then obtain ext2 xs' where i: "seen_ok w'" "fst w' = fst w1 @ ext2"
    "n * length xs \<le> length ext2" "map fc xs' = map fc xs"
    "\<And>tl. read_items (item (fst w1 @ ext2 @ tl)) (length xs) (length (fst w1)) = Inr (xs', length (fst w1 @ ext2))"
    by blast
  have "read_items (item (fst w @ (ext1 @ ext2) @ tl)) (length (x # xs)) (length (fst w))
      = Inr (x' # xs', length (fst w @ ext1 @ ext2))" for tl
    using r(5) [of "ext2 @ tl"] i(5) [of tl] by (simp add: r(2))
  then show ?case using r(2-4) i(1-4)
    by (intro conjI exI [of _ "ext1 @ ext2"] exI [of _ "x' # xs'"] allI) simp_all
qed simp

lemma put_all_obtain:
  assumes "\<And>x w w'. x \<in> set xs \<Longrightarrow> seen_ok w \<Longrightarrow> put x w = Inr w' \<Longrightarrow> reads_back item fc n w w' x"
    and "seen_ok w" "put_all put xs w = Inr w'"
  obtains ext xs' where "seen_ok w'" "fst w' = fst w @ ext" "n * length xs \<le> length ext" "map fc xs' = map fc xs"
    "\<And>z. read_items (item (fst w @ ext @ z)) (length xs) (length (fst w)) = Inr (xs', length (fst w @ ext))"
  using put_all_reads_back [of xs put item fc n w w', OF assms] by blast

definition fits :: "Message \<Rightarrow> bool" where
  "fits m \<longleftrightarrow> length (ms_questions m) \<le> 0xFFFF \<and> length (ms_answers m) \<le> 0xFFFF \<and> length (ms_authority m) \<le> 0xFFFF
     \<and> length (ms_additional m) \<le> 0xFFFF
     \<and> (\<forall>rr \<in> set (ms_answers m @ ms_authority m @ ms_additional m). length (rr_rdata rr) \<le> 0xFFFF)"

lemma put_name_ok: "name_ok name \<Longrightarrow> \<exists>w'. put_name name w = Inr w'"
  by (auto simp: name_ok_def put_name_def split: sum.splits)

lemma put_questions_ok: "\<forall>q \<in> set qs. name_ok (qn_name q) \<Longrightarrow> \<exists>w'. put_all put_question qs w = Inr w'"
proof (induction qs arbitrary: w)
  case (Cons q qs)
  then obtain w1 where "put_name (qn_name q) w = Inr w1" using put_name_ok [of "qn_name q" w] by auto
  then show ?case using Cons by (simp add: put_question_def)
qed simp

lemma put_rrs_ok:
  "\<forall>rr \<in> set rrs. rr_ok rr \<Longrightarrow> (case put_all put_rr rrs w of
     Inl e \<Rightarrow> e = Struct_error \<and> \<not> (\<forall>rr \<in> set rrs. length (rr_rdata rr) \<le> 0xFFFF)
   | Inr w' \<Rightarrow> \<forall>rr \<in> set rrs. length (rr_rdata rr) \<le> 0xFFFF)"
proof (induction rrs arbitrary: w)
  case (Cons rr rrs)
  then obtain w1 where w1: "put_name (rr_name rr) w = Inr w1" using put_name_ok [of "rr_name rr" w] by (auto simp: rr_ok_def)
  show ?case
  proof (cases "0xFFFF < length (rr_rdata rr)")
    case True
    then show ?thesis using w1 by (auto simp: put_rr_def)
  next
    case False
    obtain w2 where w2: "put_rr rr w = Inr w2" using False w1 by (simp add: put_rr_def)
    then show ?thesis using Cons.IH [of w2] Cons.prems False by (auto simp: not_less split: sum.splits)
  qed
qed simp

lemma put_all_append:
  "put_all put (xs @ ys) w = (case put_all put xs w of Inl e \<Rightarrow> Inl e | Inr w \<Rightarrow> put_all put ys w)"
  by (induction xs arbitrary: w) (auto split: sum.splits)

lemma header_reads:
  assumes "fits m"
  shows "read_u16 (header_bytes m @ x) 0 = ms_id m" "read_u16 (header_bytes m @ x) 2 = ms_flags m"
    "unat (read_u16 (header_bytes m @ x) 4) = length (ms_questions m)"
    "unat (read_u16 (header_bytes m @ x) 6) = length (ms_answers m)"
    "unat (read_u16 (header_bytes m @ x) 8) = length (ms_authority m)"
    "unat (read_u16 (header_bytes m @ x) 10) = length (ms_additional m)"
proof -
  let ?a = "u16_bytes (ms_id m)" and ?b = "u16_bytes (ms_flags m)"
  let ?n = "\<lambda>xs. u16_bytes (of_nat (length xs) :: 16 word)"
  let ?c = "u16_bytes (of_nat (length (ms_questions m)))" and ?d = "u16_bytes (of_nat (length (ms_answers m)))"
    and ?e = "u16_bytes (of_nat (length (ms_authority m)))" and ?f = "u16_bytes (of_nat (length (ms_additional m)))"
  have s: "unat (of_nat n :: 16 word) = n" if "n \<le> 0xFFFF" for n
    using that by (simp add: of_nat_short)
  note f = assms [unfolded fits_def]
  show "read_u16 (header_bytes m @ x) 0 = ms_id m"
    using read_u16_at [of "[]" "ms_id m"] by (simp add: header_bytes_def)
  show "read_u16 (header_bytes m @ x) 2 = ms_flags m"
    using read_u16_at [of ?a "ms_flags m"] by (simp add: header_bytes_def)
  show "unat (read_u16 (header_bytes m @ x) 4) = length (ms_questions m)"
    using read_u16_at [of "?a @ ?b" "of_nat (length (ms_questions m))"] s f by (simp add: header_bytes_def)
  show "unat (read_u16 (header_bytes m @ x) 6) = length (ms_answers m)"
    using read_u16_at [of "?a @ ?b @ ?c" "of_nat (length (ms_answers m))"] s f by (simp add: header_bytes_def)
  show "unat (read_u16 (header_bytes m @ x) 8) = length (ms_authority m)"
    using read_u16_at [of "?a @ ?b @ ?c @ ?d" "of_nat (length (ms_authority m))"] s f by (simp add: header_bytes_def)
  show "unat (read_u16 (header_bytes m @ x) 10) = length (ms_additional m)"
    using read_u16_at [of "?a @ ?b @ ?c @ ?d @ ?e" "of_nat (length (ms_additional m))"] s f by (simp add: header_bytes_def)
qed

lemma length_header [simp]: "length (header_bytes m) = 12"
  by (simp add: header_bytes_def)

lemma map_sum_Inr: "map_sum id f s = Inr y \<longleftrightarrow> (\<exists>x. s = Inr x \<and> y = f x)"
  by (cases s) auto

lemma encode_parse:
  assumes "message_ok m" "encode_message m = Inr wire" "fits m"
  shows "\<exists>m'. parse_message (wire @ junk) = Inr m' \<and> fold_names m' = fold_names m"
proof -
  obtain w1 w2 w3 w4 where w: "put_all put_question (ms_questions m) (header_bytes m, []) = Inr w1"
    "put_all put_rr (ms_answers m) w1 = Inr w2" "put_all put_rr (ms_authority m) w2 = Inr w3"
    "put_all put_rr (ms_additional m) w3 = Inr w4" "wire = fst w4"
    using assms(2) by (auto simp: encode_message_def put_all_append map_sum_Inr split: if_splits sum.splits)
  have ok: "seen_ok (header_bytes m, [])" by (simp add: seen_ok_def)
  note mo = assms(1) [unfolded message_ok_def]
  obtain e1 q' where 1: "seen_ok w1" "fst w1 = header_bytes m @ e1" "5 * length (ms_questions m) \<le> length e1"
    "map fold_question q' = map fold_question (ms_questions m)"
    "\<And>z. read_items (parse_question (header_bytes m @ e1 @ z)) (length (ms_questions m)) 12 = Inr (q', length (header_bytes m @ e1))"
    by (rule put_all_obtain [OF question_reads_back ok w(1)]) (use mo in auto)
  obtain e2 a' where 2: "seen_ok w2" "fst w2 = fst w1 @ e2" "11 * length (ms_answers m) \<le> length e2"
    "map fold_rr a' = map fold_rr (ms_answers m)"
    "\<And>z. read_items (parse_rr (fst w1 @ e2 @ z)) (length (ms_answers m)) (length (fst w1)) = Inr (a', length (fst w1 @ e2))"
    by (rule put_all_obtain [OF rr_reads_back 1(1) w(2)]) (use mo in auto)
  obtain e3 b' where 3: "seen_ok w3" "fst w3 = fst w2 @ e3" "11 * length (ms_authority m) \<le> length e3"
    "map fold_rr b' = map fold_rr (ms_authority m)"
    "\<And>z. read_items (parse_rr (fst w2 @ e3 @ z)) (length (ms_authority m)) (length (fst w2)) = Inr (b', length (fst w2 @ e3))"
    by (rule put_all_obtain [OF rr_reads_back 2(1) w(3)]) (use mo in auto)
  obtain e4 c' where 4: "seen_ok w4" "fst w4 = fst w3 @ e4" "11 * length (ms_additional m) \<le> length e4"
    "map fold_rr c' = map fold_rr (ms_additional m)"
    "\<And>z. read_items (parse_rr (fst w3 @ e4 @ z)) (length (ms_additional m)) (length (fst w3)) = Inr (c', length (fst w3 @ e4))"
    by (rule put_all_obtain [OF rr_reads_back 3(1) w(4)]) (use mo in auto)
  let ?data = "wire @ junk"
  have data: "?data = header_bytes m @ e1 @ e2 @ e3 @ e4 @ junk" by (simp add: w(5) 4(2) 3(2) 2(2) 1(2))
  note h = header_reads [OF assms(3), of "e1 @ e2 @ e3 @ e4 @ junk", folded data]
  have r: "read_items (parse_question ?data) (length (ms_questions m)) header_size = Inr (q', length (header_bytes m @ e1))"
    "read_items (parse_rr ?data) (length (ms_answers m)) (length (header_bytes m @ e1)) = Inr (a', length (header_bytes m @ e1 @ e2))"
    "read_items (parse_rr ?data) (length (ms_authority m)) (length (header_bytes m @ e1 @ e2)) = Inr (b', length (header_bytes m @ e1 @ e2 @ e3))"
    "read_items (parse_rr ?data) (length (ms_additional m)) (length (header_bytes m @ e1 @ e2 @ e3)) = Inr (c', length (header_bytes m @ e1 @ e2 @ e3 @ e4))"
    using 1(5) [of "e2 @ e3 @ e4 @ junk"] 2(5) [of "e3 @ e4 @ junk"] 3(5) [of "e4 @ junk"] 4(5) [of junk]
    by (simp_all add: data header_size_def 1(2) 2(2) 3(2) add.assoc)
  have "\<not> length ?data < header_size" "\<not> length ?data - header_size < length (ms_questions m) * 5
      + (length (ms_answers m) + length (ms_authority m) + length (ms_additional m)) * 11"
    using 1(3) 2(3) 3(3) 4(3) by (simp_all add: data header_size_def)
  then have "parse_message ?data = Inr \<lparr>ms_id = ms_id m, ms_flags = ms_flags m, ms_questions = q', ms_answers = a',
      ms_authority = b', ms_additional = c'\<rparr>"
    unfolding parse_message_def Let_def h r sum.case prod.case by (simp only: if_False)
  then show ?thesis using 1(4) 2(4) 3(4) 4(4) by (simp add: fold_names_def)
qed

subsection \<open>Parsed messages are well formed\<close>

lemma spells_labels: "spells data cur ls e h \<Longrightarrow> \<forall>l \<in> set ls. l \<noteq> [] \<and> length l \<le> max_label"
  by (induction rule: spells.induct) auto

lemma read_name_ok: "read_name data pos = Inr (ls, e) \<Longrightarrow> labels_ok ls"
proof -
  assume "read_name data pos = Inr (ls, e)"
  then obtain e' h where "spells data pos ls e' h" "1 + body_length ls \<le> max_name"
    using read_spells [of data pos "[]" 1 None 0 ls e] by (auto simp: read_name_def max_name_def)
  then show ?thesis using spells_labels by (auto simp: labels_ok_def wire_length_body)
qed

lemma wire_labels_error: "wire_labels data cur labels len stop hops = Inl e \<Longrightarrow> \<exists>t. e = Wire_error t"
proof (induction data cur labels len stop hops rule: wire_labels.induct)
  case (1 data cur labels len stop hops)
  let ?b = "data ! cur"
  note run = 1(3)
  show ?case
  proof (cases "length data \<le> cur \<or> ?b = 0")
    case True
    then show ?thesis using run by (subst (asm) wire_labels.simps) (auto split: if_splits)
  next
    case out: False
    show ?thesis
    proof (cases "?b AND 0xC0 = 0xC0")
      case True
      let ?g = "push_bit 8 (unat (?b AND 0x3F)) OR unat (data ! (cur + 1))"
      show ?thesis
      proof (cases "length data \<le> cur + 1 \<or> cur \<le> ?g \<or> max_hops < hops + 1")
        case True
        then show ?thesis using run out \<open>?b AND 0xC0 = 0xC0\<close>
          by (subst (asm) wire_labels.simps) (auto simp: Let_def split: if_splits)
      next
        case False
        then have "wire_labels data ?g labels len (case stop of None \<Rightarrow> Some (cur + 2) | Some e \<Rightarrow> Some e) (hops + 1) = Inl e"
          using run out True by (subst (asm) wire_labels.simps) (simp add: Let_def)
        then show ?thesis using 1(1) [of ?g] out True False by blast
      qed
    next
      case False
      let ?n = "unat ?b"
      show ?thesis
      proof (cases "?b AND 0xC0 \<noteq> 0 \<or> length data < cur + 1 + ?n \<or> max_name < len + 1 + ?n")
        case True
        then show ?thesis using run out False by (subst (asm) wire_labels.simps) (auto simp: Let_def split: if_splits)
      next
        case small: False
        then have "wire_labels data (cur + 1 + ?n) (labels @ [take ?n (drop (cur + 1) data)]) (len + 1 + ?n) stop hops = Inl e"
          using run out False by (subst (asm) wire_labels.simps) (simp add: Let_def)
        then show ?thesis using 1(2) [of ?n] out False small by blast
      qed
    qed
  qed
qed

lemma read_name_error: "read_name data pos = Inl e \<Longrightarrow> \<exists>t. e = Wire_error t"
  unfolding read_name_def by (rule wire_labels_error)

fun weight :: "nat option list \<Rightarrow> nat" where
  "weight [] = 0"
| "weight (None # parts) = 255 + weight parts"
| "weight (Some n # parts) = n + weight parts"

lemma length_plain: "length (plain_name ls) = wire_length ls"
  by (induction ls) (simp_all add: plain_name_def wire_length_def)

lemma expand_result:
  "stop \<le> length data \<Longrightarrow> case expand_parts data parts cur stop out of Inl e \<Rightarrow> \<exists>t. e = Wire_error t
    | Inr rd \<Rightarrow> \<exists>rd'. rd = out @ rd' \<and> plain_rdata parts rd' \<and> length rd' \<le> weight parts"
proof (induction data parts cur stop out rule: expand_parts.induct)
  case (2 data parts cur stop out)
  show ?case
  proof (cases "read_name data cur")
    case (Inl e)
    then show ?thesis using read_name_error by auto
  next
    case (Inr r)
    obtain ls c where r: "r = (ls, c)" by fastforce
    have ok: "labels_ok ls" using read_name_ok Inr r by blast
    then have "length (plain_name ls) \<le> 255" by (simp add: labels_ok_def length_plain max_name_def)
    then show ?thesis using 2(1) [OF Inr r [symmetric]] 2(2) Inr r ok
      by (auto split: sum.splits intro!: exI [of _ ls])
  qed
next
  case (3 data n parts cur stop out)
  then show ?case
  proof (cases "stop < cur + n")
    case False
    let ?t = "take n (drop cur data)"
    have "cur + n \<le> length data" using False 3(2) by simp
    then have "length ?t = n" by simp
    then show ?thesis using 3(1) [OF False 3(2)] False
      by (auto split: sum.splits)
  qed simp
qed simp

lemma layout_weight: "map_of name_layouts t = Some layout \<Longrightarrow> weight layout \<le> 530"
proof -
  have "\<forall>(t, l) \<in> set name_layouts. weight l \<le> 530" by (simp add: name_layouts_def)
  then show "map_of name_layouts t = Some layout \<Longrightarrow> weight layout \<le> 530" by (fastforce dest: map_of_SomeD)
qed

definition rr_fits :: "RR \<Rightarrow> bool" where
  "rr_fits rr \<longleftrightarrow> rr_ok rr \<and> length (rr_rdata rr) \<le> 0xFFFF"

lemma u16_small: "unat (w :: 16 word) \<le> 0xFFFF"
proof -
  have "unat w < 2 ^ LENGTH(16)" by (rule unsigned_less)
  then show ?thesis by simp
qed

lemma name_okI: "labels_ok ls \<Longrightarrow> name_ok (labels_to_text ls)"
  by (simp add: name_ok_def labels_round)

lemma expand_rdata_result:
  assumes "stop \<le> length data" "stop - start \<le> 0xFFFF"
  shows "case expand_rdata data rtype start stop of Inl e \<Rightarrow> \<exists>t. e = Wire_error t
    | Inr rd \<Rightarrow> length rd \<le> 0xFFFF
        \<and> (case map_of name_layouts rtype of None \<Rightarrow> True | Some layout \<Rightarrow> plain_rdata layout rd)"
proof (cases "map_of name_layouts rtype")
  case None
  then show ?thesis using assms(2) by (simp add: expand_rdata_def)
next
  case (Some layout)
  then show ?thesis
    using expand_result [OF assms(1), where parts = layout and cur = start and out = "[]"] layout_weight [OF Some]
    by (auto simp: expand_rdata_def split: sum.splits)
qed

lemma parse_rr_result:
  "case parse_rr data pos of Inl e \<Rightarrow> \<exists>t. e = Wire_error t | Inr (rr, pos') \<Rightarrow> rr_fits rr"
proof (cases "read_name data pos")
  case (Inl e)
  then show ?thesis using read_name_error by (simp add: parse_rr_def)
next
  case (Inr r)
  obtain ls p where r: "r = (ls, p)" by fastforce
  have ok: "name_ok (labels_to_text ls)" using read_name_ok Inr r by (blast intro: name_okI)
  let ?n = "unat (read_u16 data (p + 8))"
  show ?thesis
  proof (cases "length data < p + 10 \<or> length data < p + 10 + ?n")
    case True
    then show ?thesis using Inr r by (auto simp: parse_rr_def Let_def)
  next
    case False
    then show ?thesis
      using Inr r ok u16_small [of "read_u16 data (p + 8)"]
        expand_rdata_result [of "p + 10 + ?n" data "p + 10" "read_u16 data p"]
      by (auto simp: parse_rr_def Let_def rr_fits_def rr_ok_def split: sum.splits option.splits)
  qed
qed

lemma parse_question_result:
  "case parse_question data pos of Inl e \<Rightarrow> \<exists>t. e = Wire_error t | Inr (q, pos') \<Rightarrow> name_ok (qn_name q)"
proof (cases "read_name data pos")
  case (Inl e)
  then show ?thesis using read_name_error by (simp add: parse_question_def)
next
  case (Inr r)
  then show ?thesis using read_name_ok name_okI by (cases r) (auto simp: parse_question_def)
qed

lemma read_items_result:
  assumes "\<And>pos. case item pos of Inl e \<Rightarrow> \<exists>t. e = Wire_error t | Inr (x, pos') \<Rightarrow> P x"
  shows "case read_items item count pos of Inl e \<Rightarrow> \<exists>t. e = Wire_error t
    | Inr (xs, pos') \<Rightarrow> length xs = count \<and> (\<forall>x \<in> set xs. P x)"
proof (induction count arbitrary: pos)
  case (Suc count)
  show ?case
  proof (cases "item pos")
    case (Inl e)
    then show ?thesis using assms [of pos] by simp
  next
    case (Inr r)
    then show ?thesis using assms [of pos] Suc [of "snd r"] by (cases r) (auto split: sum.splits)
  qed
qed simp

lemma parse_result:
  "case parse_message data of Inl e \<Rightarrow> \<exists>t. e = Wire_error t | Inr m \<Rightarrow> message_ok m \<and> fits m"
proof -
  have q: "case read_items (parse_question data) n pos of Inl e \<Rightarrow> \<exists>t. e = Wire_error t
    | Inr (xs, pos') \<Rightarrow> length xs = n \<and> (\<forall>x \<in> set xs. name_ok (qn_name x))" for n pos
    by (rule read_items_result) (rule parse_question_result)
  have r: "case read_items (parse_rr data) n pos of Inl e \<Rightarrow> \<exists>t. e = Wire_error t
    | Inr (xs, pos') \<Rightarrow> length xs = n \<and> (\<forall>x \<in> set xs. rr_fits x)" for n pos
    by (rule read_items_result) (rule parse_rr_result)
  let ?c = "\<lambda>i. unat (read_u16 data i)"
  show ?thesis
  proof (cases "length data < header_size \<or> length data - header_size < ?c 4 * 5 + (?c 6 + ?c 8 + ?c 10) * 11")
    case True
    then show ?thesis by (auto simp: parse_message_def Let_def)
  next
    case False
    show ?thesis
    proof (cases "read_items (parse_question data) (?c 4) header_size")
      case (Inl e)
      then show ?thesis using q [of "?c 4" header_size] False by (simp add: parse_message_def Let_def)
    next
      case 1: (Inr x1)
      show ?thesis
      proof (cases "read_items (parse_rr data) (?c 6) (snd x1)")
        case (Inl e)
        then show ?thesis using 1 r [of "?c 6" "snd x1"] False by (cases x1) (simp add: parse_message_def Let_def)
      next
        case 2: (Inr x2)
        show ?thesis
        proof (cases "read_items (parse_rr data) (?c 8) (snd x2)")
          case (Inl e)
          then show ?thesis using 1 2 r [of "?c 8" "snd x2"] False
            by (cases x1, cases x2) (simp add: parse_message_def Let_def)
        next
          case 3: (Inr x3)
          show ?thesis
          proof (cases "read_items (parse_rr data) (?c 10) (snd x3)")
            case (Inl e)
            then show ?thesis using 1 2 3 r [of "?c 10" "snd x3"] False
              by (cases x1, cases x2, cases x3) (simp add: parse_message_def Let_def)
          next
            case 4: (Inr x4)
            show ?thesis
              using 1 2 3 4 q [of "?c 4" header_size] r [of "?c 6" "snd x1"] r [of "?c 8" "snd x2"] r [of "?c 10" "snd x3"]
                False u16_small [of "read_u16 data 4"] u16_small [of "read_u16 data 6"] u16_small [of "read_u16 data 8"]
                u16_small [of "read_u16 data 10"]
              by (cases x1, cases x2, cases x3, cases x4)
                (auto simp: parse_message_def Let_def message_ok_def fits_def rr_fits_def)
          qed
        qed
      qed
    qed
  qed
qed

lemma encode_fits:
  assumes "message_ok m"
  shows "case encode_message m of Inl e \<Rightarrow> e = Struct_error \<and> \<not> fits m | Inr wire \<Rightarrow> fits m"
proof -
  have q: "\<forall>q \<in> set (ms_questions m). name_ok (qn_name q)"
    and r: "\<forall>rr \<in> set (ms_answers m @ ms_authority m @ ms_additional m). rr_ok rr"
    using assms by (simp_all add: message_ok_def)
  obtain w where w: "put_all put_question (ms_questions m) (header_bytes m, []) = Inr w"
    using put_questions_ok [OF q] by blast
  show ?thesis
  proof (cases "0xFFFF < length (ms_questions m) \<or> 0xFFFF < length (ms_answers m) \<or> 0xFFFF < length (ms_authority m)
      \<or> 0xFFFF < length (ms_additional m)")
    case True
    then have "encode_message m = Inl Struct_error" "\<not> fits m" by (auto simp: encode_message_def fits_def)
    then show ?thesis by simp
  next
    case False
    then have e: "encode_message m = map_sum id fst (put_all put_rr (ms_answers m @ ms_authority m @ ms_additional m) w)"
      using w by (simp add: encode_message_def)
    have f: "fits m \<longleftrightarrow> (\<forall>rr \<in> set (ms_answers m @ ms_authority m @ ms_additional m). length (rr_rdata rr) \<le> 0xFFFF)"
      using False by (simp add: fits_def not_less)
    show ?thesis
      using put_rrs_ok [OF r, of w] unfolding e f
      by (cases "put_all put_rr (ms_answers m @ ms_authority m @ ms_additional m) w") simp_all
  qed
qed

subsection \<open>Properties\<close>

text \<open>C24. The label reader accepts exactly the names the wire spells: it returns labels and the
  offset behind them if and only if the octets spell them - length octets of 1 to 63, pointers that
  aim strictly backwards, a root octet - over at most 127 pointers and within 255 octets.\<close>

theorem read_name_exact:
  "read_name data pos = Inr (ls, stop)
    \<longleftrightarrow> (\<exists>hops. spells data pos ls stop hops \<and> hops \<le> max_hops \<and> wire_length ls \<le> max_name)"
proof
  assume "read_name data pos = Inr (ls, stop)"
  then show "\<exists>hops. spells data pos ls stop hops \<and> hops \<le> max_hops \<and> wire_length ls \<le> max_name"
    using read_spells [of data pos "[]" 1 None 0 ls stop]
    by (auto simp: read_name_def max_name_def wire_length_body)
next
  assume "\<exists>hops. spells data pos ls stop hops \<and> hops \<le> max_hops \<and> wire_length ls \<le> max_name"
  then obtain hops where "spells data pos ls stop hops" "hops \<le> max_hops" "wire_length ls \<le> max_name" by blast
  then show "read_name data pos = Inr (ls, stop)"
    using spells_read [of data pos ls stop hops 0 1 "[]" None] by (simp add: read_name_def wire_length_body)
qed

text \<open>C25. Encoding and parsing a message gives it back up to the spelling of its owner names:
  their text becomes canonical, and compression may replace their case by that of an earlier mention, whatever follows it in the buffer; and
  encoding fails exactly when a section or an rdata does not fit its 16-bit count.\<close>

theorem encode_roundtrip:
  assumes "message_ok m"
  shows "case encode_message m of
      Inl e \<Rightarrow> e = Struct_error \<and> \<not> fits m
    | Inr wire \<Rightarrow> fits m \<and> (\<exists>m'. parse_message (wire @ junk) = Inr m' \<and> fold_names m' = fold_names m)"
  using encode_fits [OF assms] encode_parse [OF assms] by (auto split: sum.splits)


text \<open>A reply whose three names share suffixes: a CNAME from \<open>www.ok.org\<close> to \<open>ok.org\<close>, and its mail.\<close>

definition sample_message :: Message where
  "sample_message = \<lparr>ms_id = 7, ms_flags = 0x8180,
     ms_questions = [\<lparr>qn_name = ''www.Ok.org.'', qn_type = 1, qn_class = 1\<rparr>],
     ms_answers = [\<lparr>rr_name = ''www.ok.org.'', rr_type = 5, rr_class = 1, rr_ttl = 300,
       rr_rdata = [2, 111, 107, 3, 111, 114, 103, 0]\<rparr>,
       \<lparr>rr_name = ''ok.org.'', rr_type = 15, rr_class = 1, rr_ttl = 60, rr_rdata = [0, 10, 2, 109, 120, 0]\<rparr>],
     ms_authority = [], ms_additional = [make_opt 1232 True []]\<rparr>"

lemma sample_message_ok: "message_ok sample_message"
proof -
  have n: "name_ok ''www.Ok.org.''" "name_ok ''www.ok.org.''" "name_ok ''ok.org.''" "name_ok [dot]" by code_simp+
  have p: "plain_rdata [None] [2, 111, 107, 3, 111, 114, 103, 0]"
    by (auto simp: plain_name_def labels_ok_def wire_length_def max_name_def max_label_def
      intro!: exI [of _ "[[111, 107], [111, 114, 103]]"])
  have q: "plain_rdata [Some 2, None] [0, 10, 2, 109, 120, 0]"
    by (auto simp: plain_name_def labels_ok_def wire_length_def max_name_def max_label_def
      intro!: exI [of _ "[[109, 120]]"])
  show ?thesis using n p q
    by (simp add: message_ok_def sample_message_def rr_ok_def name_layouts_def make_opt_def type_opt_def)
qed

theorem encode_roundtrip_witness:
  "\<exists>wire m'. encode_message sample_message = Inr wire \<and> parse_message (wire @ [1, 2]) = Inr m'
     \<and> fold_names m' = fold_names sample_message"
proof -
  have "fits sample_message" by (simp add: fits_def sample_message_def make_opt_def)
  with encode_roundtrip [OF sample_message_ok, of "[1, 2]"] show ?thesis by (auto split: sum.splits)
qed

end
