(* ===== verification/FrontendLaws.thy ===== *)
theory FrontendLaws
  imports Frontend OperatePolicy WireLaws
begin

unbundle bit_operations_syntax

text \<open>
  What the decider guarantees whatever the module and Unbound do: which messages it forwards, that
  each reply of its own echoes the client's query, and the size of a reply to a datagram client.
\<close>

subsection \<open>The front of an encoded message\<close>

lemma put_labels_size:
  "\<exists>ext. fst (put_labels ls w) = fst w @ ext \<and> length ext \<le> (if [] \<in> set ls then length ext else wire_length ls)"
proof (induction ls w rule: put_labels.induct)
  case (1 out seen)
  then show ?case by (simp add: wire_length_def)
next
  case (2 l ls out seen)
  show ?case
  proof (cases "map_of seen (map lower_bytes (l # ls))")
    case None
    then obtain ext where "fst (put_labels (l # ls) (out, seen)) = (out @ of_nat (length l) # l) @ ext"
      "length ext \<le> (if [] \<in> set ls then length ext else wire_length ls)"
      using 2 [OF refl None] by (auto simp: Let_def split: if_splits)
    then show ?thesis by (intro exI [of _ "of_nat (length l) # l @ ext"]) (auto simp: wire_length_def)
  next
    case (Some off)
    then show ?thesis by (auto simp: u16_bytes_def wire_length_def Let_def Suc_le_eq)
  qed
qed

lemma put_name_size:
  assumes "put_name name w = Inr w'"
  shows "\<exists>ext. fst w' = fst w @ ext \<and> length ext \<le> 255"
proof -
  obtain ls where ls: "name_to_labels name = Inr ls" "w' = put_labels ls w"
    using assms by (auto simp: put_name_def map_sum_Inr)
  have "labels_ok ls" by (rule name_labels_ok [OF ls(1)])
  then have "[] \<notin> set ls" "wire_length ls \<le> 255" by (auto simp: labels_ok_def max_name_def)
  then show ?thesis using put_labels_size [of ls w] ls(2) by auto
qed

lemma put_question_size:
  assumes "put_question q w = Inr w'"
  shows "\<exists>ext. fst w' = fst w @ ext \<and> length ext \<le> 259"
proof -
  obtain w1 where w1: "put_name (qn_name q) w = Inr w1" "fst w' = fst w1 @ u16_bytes (qn_type q) @ u16_bytes (qn_class q)"
    using assms by (auto simp: put_question_def map_sum_Inr put_bytes_def)
  then show ?thesis using put_name_size [OF w1(1)] by (auto simp: u16_bytes_def)
qed

lemma put_rr_size:
  assumes "put_rr rr w = Inr w'"
  shows "\<exists>ext. fst w' = fst w @ ext \<and> length ext \<le> 265 + length (rr_rdata rr)" "length (rr_rdata rr) \<le> 0xFFFF"
proof -
  obtain w1 where w1: "put_name (rr_name rr) w = Inr w1" "length (rr_rdata rr) \<le> 0xFFFF"
    "fst w' = fst w1 @ u16_bytes (rr_type rr) @ u16_bytes (rr_class rr) @ u32_bytes (rr_ttl rr)
          @ u16_bytes (of_nat (length (rr_rdata rr))) @ rr_rdata rr"
    using assms by (auto simp: put_rr_def put_bytes_def not_less split: sum.splits if_splits)
  then show "\<exists>ext. fst w' = fst w @ ext \<and> length ext \<le> 265 + length (rr_rdata rr)" "length (rr_rdata rr) \<le> 0xFFFF"
    using put_name_size [OF w1(1)] by (auto simp: u16_bytes_def u32_bytes_def)
qed

lemma put_rrs_size:
  assumes "put_all put_rr rrs w = Inr w'"
  shows "\<exists>ext. fst w' = fst w @ ext" "\<forall>rr \<in> set rrs. length (rr_rdata rr) \<le> 0xFFFF"
proof -
  have "(\<exists>ext. fst w' = fst w @ ext) \<and> (\<forall>rr \<in> set rrs. length (rr_rdata rr) \<le> 0xFFFF)"
    using assms
  proof (induction rrs arbitrary: w)
    case (Cons rr rrs)
    then obtain w1 where w1: "put_rr rr w = Inr w1" "put_all put_rr rrs w1 = Inr w'" by (auto split: sum.splits)
    then show ?case using Cons.IH [OF w1(2)] put_rr_size [OF w1(1)] by auto
  qed simp
  then show "\<exists>ext. fst w' = fst w @ ext" "\<forall>rr \<in> set rrs. length (rr_rdata rr) \<le> 0xFFFF" by blast+
qed

text \<open>The question of a query or a reply, up to the case of its name.\<close>

definition question_of :: "bytes \<Rightarrow> Question option" where
  "question_of data = (case parse_question data header_size of Inl e \<Rightarrow> None | Inr (q, p) \<Rightarrow> Some (fold_question q))"

lemma encode_steps:
  assumes "encode_message m = Inr b"
  obtains w1 w2 where "put_all put_question (ms_questions m) (header_bytes m, []) = Inr w1"
    "put_all put_rr (ms_answers m @ ms_authority m @ ms_additional m) w1 = Inr w2" "b = fst w2"
    "length (ms_questions m) \<le> 0xFFFF \<and> length (ms_answers m) \<le> 0xFFFF \<and> length (ms_authority m) \<le> 0xFFFF
      \<and> length (ms_additional m) \<le> 0xFFFF"
proof (cases "0xFFFF < length (ms_questions m) \<or> 0xFFFF < length (ms_answers m) \<or> 0xFFFF < length (ms_authority m)
        \<or> 0xFFFF < length (ms_additional m)")
  case True
  then show ?thesis using assms by (simp only: encode_message_def if_True sum.distinct)
next
  case False
  note e = assms [unfolded encode_message_def if_not_P [OF False]]
  show ?thesis
  proof (cases "put_all put_question (ms_questions m) (header_bytes m, [])")
    case (Inl e)
    then show ?thesis using e by simp
  next
    case (Inr w1)
    from e [unfolded Inr sum.case map_sum_Inr] obtain w2
      where "put_all put_rr (ms_answers m @ ms_authority m @ ms_additional m) w1 = Inr w2" "b = fst w2" by blast
    then show ?thesis using Inr False by (intro that) (simp_all only: not_less de_Morgan_disj simp_thms)
  qed
qed

lemma encode_front:
  assumes "encode_message m = Inr b" "\<forall>q \<in> set (ms_questions m). name_ok (qn_name q)"
  shows "header_size \<le> length b" "read_u16 b 0 = ms_id m" "read_u16 b 2 = ms_flags m"
    "unat (read_u16 b 4) = length (ms_questions m)"
    "ms_questions m = [q] \<Longrightarrow> question_of b = Some (fold_question q)"
proof -
  obtain w1 w2 where w: "put_all put_question (ms_questions m) (header_bytes m, []) = Inr w1"
    "put_all put_rr (ms_answers m @ ms_authority m @ ms_additional m) w1 = Inr w2" "b = fst w2"
    "length (ms_questions m) \<le> 0xFFFF \<and> length (ms_answers m) \<le> 0xFFFF \<and> length (ms_authority m) \<le> 0xFFFF
      \<and> length (ms_additional m) \<le> 0xFFFF"
    by (rule encode_steps [OF assms(1)])
  have ok: "seen_ok (header_bytes m, [])" by (simp add: seen_ok_def)
  obtain e1 q' where 1: "fst w1 = header_bytes m @ e1" "map fold_question q' = map fold_question (ms_questions m)"
    "\<And>z. read_items (parse_question (header_bytes m @ e1 @ z)) (length (ms_questions m)) 12 = Inr (q', length (header_bytes m @ e1))"
    by (rule put_all_obtain [OF question_reads_back ok w(1)]) (use assms(2) in auto)
  obtain e2 where e2: "b = header_bytes m @ e1 @ e2" using put_rrs_size(1) [OF w(2)] 1(1) w(3) by auto
  have "fits m" unfolding fits_def using put_rrs_size(2) [OF w(2)] w(4) by blast
  from header_reads [OF this, of "e1 @ e2", folded e2]
  show "read_u16 b 0 = ms_id m" "read_u16 b 2 = ms_flags m" "unat (read_u16 b 4) = length (ms_questions m)" by simp_all
  show "header_size \<le> length b" by (simp add: e2 header_size_def)
  assume q: "ms_questions m = [q]"
  then have "read_items (parse_question b) (Suc 0) header_size = Inr (q', length (header_bytes m @ e1))"
    using 1(3) [of e2] e2 by (simp add: header_size_def)
  then show "question_of b = Some (fold_question q)"
    using 1(2) q by (auto simp: question_of_def split: sum.splits prod.splits)
qed

subsection \<open>Replies of the proxy's own\<close>

text \<open>A reply to the query of \<open>wire\<close>: its id, the response bit, and its question unless it is a bare
  header.\<close>

definition echoes :: "bytes \<Rightarrow> bytes \<Rightarrow> bool" where
  "echoes wire b \<longleftrightarrow> header_size \<le> length b \<and> read_u16 b 0 = read_u16 wire 0 \<and> read_u16 b 2 AND flag_qr \<noteq> 0
     \<and> (if read_u16 b 4 = 0 then length b = header_size
        else read_u16 b 4 = 1 \<and> question_of b \<noteq> None \<and> question_of b = question_of wire)"

definition client_query :: "bytes \<Rightarrow> Message \<Rightarrow> bool" where
  "client_query wire query \<longleftrightarrow> ms_id query = read_u16 wire 0 \<and>
     (ms_questions query = [] \<and> ms_additional query = []
      \<or> parse_message wire = Inr query \<and> length (ms_questions query) = 1)"

lemma qr_set: "(flag_qr OR x) AND flag_qr \<noteq> 0"
proof
  assume "(flag_qr OR x) AND flag_qr = 0"
  then have "bit ((flag_qr OR x) AND flag_qr) 15 = bit (0 :: 16 word) 15" by simp
  moreover have "bit flag_qr 15" by (simp add: flag_qr_def) (simp add: bit_iff_odd)?
  ultimately show False by (simp add: bit_and_iff bit_or_iff)
qed

lemma parsed_question:
  assumes "parse_message wire = Inr query"
  shows "ms_id query = read_u16 wire 0" "ms_flags query = read_u16 wire 2"
    "unat (read_u16 wire 4) = length (ms_questions query)"
    "ms_questions query = [q] \<Longrightarrow> question_of wire = Some (fold_question q)"
proof -
  obtain qs p where q: "read_items (parse_question wire) (unat (read_u16 wire 4)) header_size = Inr (qs, p)"
    "ms_questions query = qs" and r: "ms_id query = read_u16 wire 0" "ms_flags query = read_u16 wire 2"
    using assms by (auto simp: parse_message_def Let_def split: if_splits sum.splits prod.splits)
  show "ms_id query = read_u16 wire 0" "ms_flags query = read_u16 wire 2" by (fact r)+
  show n: "unat (read_u16 wire 4) = length (ms_questions query)"
    using read_items_result [where item = "parse_question wire" and P = "\<lambda>q. name_ok (qn_name q)" and
        count = "unat (read_u16 wire 4)" and pos = header_size] parse_question_result q by auto
  assume "ms_questions query = [q]"
  then show "question_of wire = Some (fold_question q)"
    using q n by (auto simp: question_of_def split: sum.splits prod.splits)
qed

lemma echo_reply:
  assumes "client_query wire query" "encode_message m = Inr b" "ms_id m = ms_id query"
    "ms_questions m = ms_questions query" "\<exists>x. ms_flags m = flag_qr OR x"
    "ms_questions query = [] \<Longrightarrow> ms_answers m = [] \<and> ms_authority m = [] \<and> ms_additional m = []"
  shows "echoes wire b"
proof -
  consider (bare) "ms_questions query = []" | (one) q where "ms_questions query = [q]" "parse_message wire = Inr query"
    using assms(1) by (auto simp: client_query_def length_Suc_conv)
  then show ?thesis
  proof cases
    case bare
    then have ok: "\<forall>q \<in> set (ms_questions m). name_ok (qn_name q)" using assms(4) by simp
    have "length b = header_size"
      using assms(2) assms(4) assms(6) [OF bare] bare
      by (auto simp: encode_message_def header_size_def)
    then show ?thesis
      using encode_front(1-4) [OF assms(2) ok] assms(1,3-5) bare qr_set by (auto simp: echoes_def client_query_def unat_eq_zero)
  next
    case one
    have ok: "\<forall>q \<in> set (ms_questions m). name_ok (qn_name q)"
      using parse_result [of wire] one(2) assms(4) by (simp add: message_ok_def)
    have "unat (read_u16 b 4) = unat (1 :: 16 word)" using encode_front(4) [OF assms(2) ok] assms(4) one(1) by simp
    then have 4: "read_u16 b 4 = 1" by (simp only: word_unat_eq_iff)
    show ?thesis
      using encode_front(1-3) [OF assms(2) ok] encode_front(5) [OF assms(2) ok, of q] parsed_question(4) [OF one(2,1)]
        4 assms(1,3-5) one(1) qr_set by (auto simp: echoes_def client_query_def)
  qed
qed

subsection \<open>Error replies and their size\<close>

lemma edns_none: "ms_additional query = [] \<Longrightarrow> edns_for query options = []"
  by (simp add: edns_for_def opt_of_def)

lemma root_name_ok: "name_ok [dot]"
  by (simp add: name_ok_def name_to_labels_def)

text \<open>A message that is at most one question and the EDNS record.\<close>

lemma small_encodes:
  assumes "client_query wire query" "m = \<lparr>ms_id = i, ms_flags = f, ms_questions = ms_questions query, ms_answers = [],
      ms_authority = [], ms_additional = edns_for query False\<rparr>"
  shows "\<exists>b. encode_message m = Inr b \<and> int (length b) \<le> 512"
proof -
  have q: "length (ms_questions query) \<le> 1" "\<forall>q \<in> set (ms_questions query). name_ok (qn_name q)"
    using assms(1) parse_result [of wire] by (auto simp: client_query_def message_ok_def)
  have a: "length (edns_for query False) \<le> 1" "\<forall>rr \<in> set (edns_for query False). rr_ok rr \<and> rr_name rr = [dot] \<and> rr_rdata rr = []"
    by (auto simp: edns_for_def make_opt_def rr_ok_def root_name_ok name_layouts_def type_opt_def split: option.splits)
  have "message_ok m" using q a by (simp add: message_ok_def assms(2))
  moreover have "fits m" using q a by (auto simp: fits_def assms(2))
  ultimately obtain b where b: "encode_message m = Inr b" using encode_fits [of m] by (auto split: sum.splits)
  then obtain w1 w2 where w: "put_all put_question (ms_questions query) (header_bytes m, []) = Inr w1"
    "put_all put_rr (edns_for query False) w1 = Inr w2" "b = fst w2"
    by (rule encode_steps) (simp add: assms(2))
  have "length (fst w1) \<le> 12 + 259"
  proof (cases "ms_questions query")
    case Nil
    then show ?thesis using w(1) by auto
  next
    case (Cons q qs)
    then have "put_question q (header_bytes m, []) = Inr w1" using w(1) q(1) by (auto split: sum.splits)
    then show ?thesis using put_question_size by fastforce
  qed
  moreover have "length (fst w2) \<le> length (fst w1) + 11"
  proof (cases "edns_for query False")
    case Nil
    then show ?thesis using w(2) by auto
  next
    case (Cons rr rrs)
    then have "put_rr rr w1 = Inr w2" "rr_name rr = [dot]" "rr_rdata rr = []" using w(2) a by (auto split: sum.splits)
    then show ?thesis by (cases w1) (auto simp: put_rr_def put_name_def name_to_labels_def put_bytes_def u16_bytes_def u32_bytes_def)
  qed
  ultimately show ?thesis using b w(3) by simp
qed

lemma error_good:
  assumes "client_query wire query"
  shows "\<exists>b. error_reply query rc = Inr b \<and> echoes wire b \<and> int (length b) \<le> 512"
proof -
  let ?m = "error_message query rc"
  obtain b where b: "encode_message ?m = Inr b" "int (length b) \<le> 512"
    using small_encodes [OF assms, of ?m] by (auto simp: error_message_def)
  have "echoes wire b"
    by (rule echo_reply [OF assms b(1)])
      (use assms in \<open>auto simp: error_message_def client_query_def edns_none or.assoc\<close>)
  then show ?thesis using b by (simp add: error_reply_def)
qed

lemma udp_limit_min: "512 \<le> udp_limit query"
  by (auto simp: udp_limit_def edns_udp_size_def split: option.split)

definition within :: "int option \<Rightarrow> bytes \<Rightarrow> bool" where
  "within limit b = (case limit of None \<Rightarrow> int (length b) \<le> max_dns_message | Some n \<Rightarrow> int (length b) \<le> n)"

definition limit_ok :: "int option \<Rightarrow> bool" where
  "limit_ok limit = (case limit of None \<Rightarrow> True | Some n \<Rightarrow> 512 \<le> n)"

lemma small_within: "limit_ok limit \<Longrightarrow> int (length b) \<le> 512 \<Longrightarrow> within limit b"
  by (auto simp: limit_ok_def within_def max_dns_message_def split: option.splits)

lemma rendered_good:
  assumes "client_query wire query" "ms_questions query \<noteq> []" "limit_ok limit" "rendered query msg limit = Inr (b, replaced)"
  shows "echoes wire b \<and> within limit b"
proof -
  let ?f = "rendered_flags query msg"
  let ?m = "\<lparr>ms_id = ms_id query, ms_flags = ?f, ms_questions = ms_questions query, ms_answers = rm_answer msg,
      ms_authority = rm_authority msg, ms_additional = rm_additional msg @ edns_for query False\<rparr>"
  let ?t = "\<lparr>ms_id = ms_id query, ms_flags = ?f OR flag_tc, ms_questions = ms_questions query, ms_answers = [],
      ms_authority = [], ms_additional = edns_for query False\<rparr>"
  have f: "\<exists>x. ?f = flag_qr OR x" "\<exists>x. ?f OR flag_tc = flag_qr OR x" by (auto simp: rendered_flags_def or.assoc)
  obtain wire' where w: "encode_message ?m = Inr wire'" using assms(4) by (auto simp: rendered_def Let_def split: sum.splits)
  have e: "echoes wire wire'" by (rule echo_reply [OF assms(1) w]) (use f assms(2) in simp_all)
  obtain tc where tc: "encode_message ?t = Inr tc" "int (length tc) \<le> 512" using small_encodes [OF assms(1), of ?t] by blast
  have te: "echoes wire tc" by (rule echo_reply [OF assms(1) tc(1)]) (use f assms(2) in simp_all)
  obtain eb where eb: "error_reply query rcode_servfail = Inr eb" "echoes wire eb" "int (length eb) \<le> 512"
    using error_good [OF assms(1)] by blast
  show ?thesis
  proof (cases limit)
    case None
    then show ?thesis
      using assms(3,4) w e eb small_within [OF assms(3), of eb]
      by (auto simp: rendered_def Let_def within_def split: if_splits)
  next
    case (Some n)
    then show ?thesis
      using assms(3,4) w e tc te small_within [OF assms(3), of tc]
      by (auto simp: rendered_def Let_def within_def split: if_splits)
  qed
qed

subsection \<open>Runs\<close>

text \<open>A decider and the replies it is given, each with the state it finds then: the messages it forwarded
  with their replies, and its result if it came to one.\<close>

fun play :: "'w decider \<Rightarrow> (bytes option \<times> 'w) list
    \<Rightarrow> (bytes \<times> bytes option) list \<times> (wire_error + bytes option) option" where
  "play (Done r) replies = ([], Some r)"
| "play (Ask request k) [] = ([], None)"
| "play (Ask request k) ((reply, w) # replies) =
     (case play (fst (k reply w)) replies of (es, r) \<Rightarrow> ((request, reply) # es, r))"

definition good ::
  "bytes \<Rightarrow> Message \<Rightarrow> int option \<Rightarrow> bytes option \<Rightarrow> (wire_error + bytes option) \<Rightarrow> bool" where
  "good wire query limit relay r = (case r of
       Inl e \<Rightarrow> \<exists>msg. rendered query msg limit = Inl e
     | Inr None \<Rightarrow> False
     | Inr (Some b) \<Rightarrow> relay = Some b \<or> echoes wire b \<and> within limit b)"

lemma answer_error:
  assumes "client_query wire query" "limit_ok limit"
  shows "\<exists>r. fst (answer_with (error_reply query rc) w) = Done r \<and> good wire query limit relay r"
proof -
  obtain b where "error_reply query rc = Inr b" "echoes wire b" "int (length b) \<le> 512"
    using error_good [OF assms(1)] by blast
  then show ?thesis using small_within [OF assms(2)] by (simp add: answer_with_def good_def)
qed

lemma send_good:
  fixes w :: "'a frontend"
  assumes "client_query wire query" "ms_questions query \<noteq> []" "limit_ok limit"
  shows "\<exists>r. fst (send h query q relay limit w) = Done r \<and> good wire query limit relay r"
proof -
  have err: "\<exists>r. fst (answer_with (error_reply query rc) w) = Done r \<and> good wire query limit relay r"
    for rc and w :: "'a frontend"
    by (rule answer_error [OF assms(1,3)])
  show ?thesis
  proof (cases relay)
    case (Some b)
    then show ?thesis by (simp add: send_def answer_with_def good_def Let_def)
  next
    case None
    show ?thesis
    proof (cases "qs_return_msg q")
      case None': None
      then show ?thesis using None err by (simp add: send_def Let_def)
    next
      case (Some msg)
      show ?thesis
      proof (cases "qs_return_rcode q = rcode_noerror")
        case True
        show ?thesis
        proof (cases "rendered query msg limit")
          case (Inl e)
          then show ?thesis using Some True None by (auto simp: send_def Let_def good_def)
        next
          case (Inr r)
          then obtain b replaced where r: "r = (b, replaced)" by fastforce
          then show ?thesis
            using Some True None Inr rendered_good [OF assms, of msg b replaced]
            by (simp add: send_def Let_def good_def answer_with_def)
        qed
      next
        case False
        then show ?thesis using Some None err by (simp add: send_def Let_def)
      qed
    qed
  qed
qed

text \<open>The limit of a client's transport.\<close>

definition limit_for :: "bool \<Rightarrow> Message \<Rightarrow> int option" where
  "limit_for datagram query = (if datagram then Some (udp_limit query) else None)"

lemma limit_for_ok: "limit_ok (limit_for datagram query)"
  by (simp add: limit_for_def limit_ok_def udp_limit_min)

lemma good_relay: "good wire query limit None r \<Longrightarrow> good wire query limit relay r"
  by (auto simp: good_def split: sum.splits option.splits)

lemma conclude_good:
  assumes "client_query wire query" "ms_questions query \<noteq> []"
  shows "\<exists>r. fst (conclude h query datagram state q relay w) = Done r \<and> good wire query (limit_for datagram query) relay r"
proof -
  have e: "conclude h query datagram state q relay w = (if state \<noteq> module_finished
     then send h query (q\<lparr>qs_return_msg := None, qs_return_rcode := rcode_servfail\<rparr>) None (limit_for datagram query) w
     else send h query q relay (limit_for datagram query) w)" by (simp add: conclude_def limit_for_def)
  show ?thesis
    using send_good [OF assms limit_for_ok, of h q relay datagram query w]
      send_good [OF assms limit_for_ok, of h "q\<lparr>qs_return_msg := None, qs_return_rcode := rcode_servfail\<rparr>" None datagram query w]
    unfolding e by (auto intro: good_relay)
qed

text \<open>What a chase forwards: a question of the proxy's own for the target of a planted CNAME.\<close>

definition chase_of :: "Message \<Rightarrow> bytes \<Rightarrow> bool" where
  "chase_of query request \<longleftrightarrow> int (length request) \<le> max_dns_message
     \<and> (\<exists>target planted msg_id. encode_message (chase_message query target planted msg_id) = Inr request)"

text \<open>A run from here on: done with a good result, or one more \<open>forward\<close>, of a chase.\<close>

definition last_leg :: "bytes \<Rightarrow> Message \<Rightarrow> int option \<Rightarrow> bytes option \<Rightarrow> 'w decider \<Rightarrow> bool" where
  "last_leg wire query limit relay d = (case d of
       Done r \<Rightarrow> good wire query limit relay r
     | Ask request k \<Rightarrow> chase_of query request
         \<and> (\<forall>reply w. \<exists>r. fst (k reply w) = Done r \<and> good wire query limit relay r))"

lemma done_leg: "\<exists>r. d = Done r \<and> good wire query limit relay r \<Longrightarrow> last_leg wire query limit relay d"
  by (auto simp: last_leg_def)

lemma chase_leg:
  assumes "client_query wire query" "ms_questions query \<noteq> []"
  shows "last_leg wire query (limit_for datagram query) relay (fst (chase_cname h query datagram q relay w))"
proof -
  note c = conclude_good [OF assms]
  note leg = done_leg [OF c]
  show ?thesis
  proof (cases "qs_return_msg q")
    case None
    then show ?thesis using leg by (simp add: chase_cname_def)
  next
    case (Some planted)
    let ?cname = "hd (rm_answer planted)"
    show ?thesis
    proof (cases "length (rm_answer planted) \<noteq> 1 \<or> rr_type ?cname \<noteq> type_cname")
      case True
      then show ?thesis using leg by (auto simp: chase_cname_def Some)
    next
      case cname: False
      show ?thesis
      proof (cases "name_from_rdata (rr_rdata ?cname)")
        case (Inl e)
        then show ?thesis using leg cname by (auto simp: chase_cname_def Some Let_def)
      next
        case target: (Inr target)
        let ?m = "chase_message query target planted (fe_random w (fe_draws w))"
        show ?thesis
        proof (cases "encode_message ?m")
          case (Inl e)
          then show ?thesis using leg cname target by (auto simp: chase_cname_def Some Let_def)
        next
          case (Inr request)
          show ?thesis
          proof (cases "max_dns_message < int (length request)")
            case True
            then show ?thesis using leg cname target Inr by (auto simp: chase_cname_def Some Let_def)
          next
            case False
            then have "chase_of query request" using Inr by (auto simp: chase_of_def)
            then show ?thesis using c cname target Inr False
              by (auto simp: chase_cname_def Some Let_def last_leg_def split: sum.split prod.split)
          qed
        qed
      qed
    qed
  qed
qed

lemma after_reply_leg:
  assumes "client_query wire query" "ms_questions query \<noteq> []"
  shows "\<exists>relay. (relay = None \<or> relay = reply)
    \<and> last_leg wire query (limit_for datagram query) relay (fst (after_reply h query question datagram q reply w))"
proof -
  note leg = done_leg [OF conclude_good [OF assms, of h]] and chase = chase_leg [OF assms, of datagram _ h]
  obtain asked_reply w' where a: "asked reply w = (asked_reply, w')" by fastforce
  show ?thesis
  proof (cases asked_reply)
    case None
    then show ?thesis using leg by (intro exI [of _ None]) (simp add: after_reply_def a)
  next
    case (Some b)
    then have b: "reply = Some b" using a by (auto simp: asked_def Let_def split: option.splits if_splits)
    show ?thesis
    proof (cases "parse_message b")
      case (Inl e)
      then show ?thesis using leg Some by (intro exI [of _ None]) (simp add: after_reply_def a)
    next
      case (Inr m)
      obtain state q' w'' where c: "call_operate h event_moddone (q\<lparr>qs_return_msg := Some (from_message (next_ref q) m question),
          qs_return_rcode := base_rcode m\<rparr>) w' = (state, q', w'')" by (metis prod_cases3)
      let ?relay = "if map_option rm_ref (qs_return_msg q') = Some (rm_ref (from_message (next_ref q) m question))
        \<and> qs_return_rcode q' = base_rcode m then Some b else None"
      have "after_reply h query question datagram q reply w
          = (if state = module_restart_next then chase_cname h query datagram q' ?relay w''
             else conclude h query datagram state q' ?relay w'')"
        unfolding after_reply_def a Some Inr prod.case option.case sum.case Let_def c ..
      moreover have "?relay = None \<or> ?relay = reply" using b by simp
      ultimately show ?thesis using leg chase by (intro exI [of _ ?relay]) (simp only: split: if_split, simp)
    qed
  qed
qed

text \<open>The result of a whole run.\<close>

definition reply_limit :: "bytes \<Rightarrow> bool \<Rightarrow> int option" where
  "reply_limit wire datagram =
    (if datagram then Some (case parse_message wire of Inr query \<Rightarrow> udp_limit query | Inl e \<Rightarrow> 512) else None)"

definition chase_for :: "bytes \<Rightarrow> bytes \<Rightarrow> bool" where
  "chase_for wire request \<longleftrightarrow> (\<exists>query. parse_message wire = Inr query \<and> chase_of query request)"

definition dropped :: "bytes \<Rightarrow> bool" where
  "dropped wire \<longleftrightarrow> length wire < header_size \<or> wire ! 2 AND 0x80 \<noteq> 0"

definition result_ok :: "bytes \<Rightarrow> bool \<Rightarrow> bytes option \<Rightarrow> (wire_error + bytes option) \<Rightarrow> bool" where
  "result_ok wire datagram relay r = (case r of
       Inl e \<Rightarrow> \<exists>query msg. parse_message wire = Inr query \<and> rendered query msg (reply_limit wire datagram) = Inl e
     | Inr None \<Rightarrow> dropped wire
     | Inr (Some b) \<Rightarrow> relay = Some b \<or> echoes wire b \<and> within (reply_limit wire datagram) b)"

text \<open>\<open>first_leg\<close>: done, or a \<open>forward\<close> of the query itself or of a chase.\<close>

definition second_leg :: "bytes \<Rightarrow> bool \<Rightarrow> bytes option \<Rightarrow> 'w decider \<Rightarrow> bool" where
  "second_leg wire datagram relay d = (case d of
       Done r \<Rightarrow> result_ok wire datagram relay r \<and> r \<noteq> Inr None
     | Ask request k \<Rightarrow> chase_for wire request
         \<and> (\<forall>reply w. \<exists>r. fst (k reply w) = Done r \<and> result_ok wire datagram relay r \<and> r \<noteq> Inr None))"

definition first_leg :: "bytes \<Rightarrow> bool \<Rightarrow> 'w decider \<Rightarrow> bool" where
  "first_leg wire datagram d = (case d of
       Done r \<Rightarrow> result_ok wire datagram None r
     | Ask request k \<Rightarrow> second_leg wire datagram None d \<or> request = wire
         \<and> (\<forall>reply w. \<exists>relay. (relay = None \<or> relay = reply) \<and> second_leg wire datagram relay (fst (k reply w))))"

lemma leg_result:
  assumes "parse_message wire = Inr query" "last_leg wire query (limit_for datagram query) relay d"
  shows "second_leg wire datagram relay d"
proof -
  have "reply_limit wire datagram = limit_for datagram query" using assms(1) by (simp add: reply_limit_def limit_for_def)
  then have *: "result_ok wire datagram relay r \<and> r \<noteq> Inr None" if "good wire query (limit_for datagram query) relay r" for r
    using that assms(1) by (auto simp: good_def result_ok_def split: sum.splits option.splits)
  show ?thesis
  proof (cases d)
    case (Done r)
    then show ?thesis using assms(2) * by (simp add: last_leg_def second_leg_def)
  next
    case (Ask request k)
    then show ?thesis using assms * by (fastforce simp: last_leg_def second_leg_def chase_for_def)
  qed
qed

lemma answer_bare:
  assumes "client_query wire query"
  shows "\<exists>r. fst (answer_with (error_reply query rc) w) = Done r \<and> result_ok wire datagram relay r \<and> r \<noteq> Inr None"
proof -
  obtain b where "error_reply query rc = Inr b" "echoes wire b" "int (length b) \<le> 512"
    using error_good [OF assms] by blast
  moreover have "limit_ok (reply_limit wire datagram)"
    by (auto simp: reply_limit_def limit_ok_def udp_limit_min split: sum.split)
  ultimately show ?thesis using small_within by (auto simp: answer_with_def result_ok_def)
qed

lemma relayed_or_error:
  assumes "client_query wire query"
  shows "second_leg wire datagram reply
    (fst (answer_with (case reply of None \<Rightarrow> error_reply query rc | Some r \<Rightarrow> Inr r) w))"
  using answer_bare [OF assms, of rc w datagram reply]
  by (cases reply) (auto simp: second_leg_def answer_with_def result_ok_def)

lemma unchanged_leg:
  fixes w :: "'a frontend"
  assumes "client_query wire query"
  shows "first_leg wire datagram (fst (unchanged wire query w))"
proof -
  have "second_leg wire datagram reply (fst (answer_with (case reply of None \<Rightarrow> error_reply query rcode_servfail
      | Some r \<Rightarrow> Inr r) (w :: 'a frontend)))" for reply w by (rule relayed_or_error [OF assms])
  then show ?thesis unfolding unchanged_def first_leg_def by simp blast
qed

lemma relay_only_leg:
  assumes "client_query wire query"
  shows "first_leg wire datagram (fst (relay_only reply_log wire query client w))"
proof -
  have "\<exists>relay. (relay = None \<or> relay = reply) \<and> second_leg wire datagram relay (fst (case asked reply w of
       (reply, w) \<Rightarrow>
         (let w = (case reply_log of None \<Rightarrow> w | Some log \<Rightarrow> w\<lparr>fe_mod := log query client reply (fe_mod w)\<rparr>) in
          answer_with (case reply of None \<Rightarrow> error_reply query rcode_servfail | Some r \<Rightarrow> Inr r) w)))" for reply w
  proof -
    obtain r w' where a: "asked reply w = (r, w')" by fastforce
    then have "r = None \<or> r = reply" by (auto simp: asked_def Let_def split: option.splits if_splits)
    then show ?thesis using relayed_or_error [OF assms, of datagram r] by (intro exI [of _ r]) (simp add: a Let_def)
  qed
  then show ?thesis by (simp add: relay_only_def first_leg_def)
qed

lemma ask_module_leg:
  assumes "client_query wire query" "ms_questions query \<noteq> []" "parse_message wire = Inr query"
  shows "first_leg wire datagram (fst (ask_module h wire query client datagram w))"
proof -
  obtain state q w' where c: "call_operate h event_new (module_qstate (hd (ms_questions query)) client) w = (state, q, w')"
    by (metis prod_cases3)
  have first: "second_leg wire datagram None d \<Longrightarrow> first_leg wire datagram d" for d :: "'a frontend decider"
    by (cases d) (auto simp: first_leg_def second_leg_def)
  note leg = leg_result [OF assms(3)]
  consider "state = module_wait_module" | "state = module_restart_next" | "state \<noteq> module_wait_module" "state \<noteq> module_restart_next"
    by blast
  then show ?thesis
  proof cases
    case 1
    have "\<exists>relay. (relay = None \<or> relay = reply)
        \<and> second_leg wire datagram relay (fst (after_reply h query (hd (ms_questions query)) datagram q reply w))" for reply w
      using after_reply_leg [OF assms(1,2), of reply datagram h "hd (ms_questions query)" q w] leg by blast
    then show ?thesis by (simp add: ask_module_def Let_def c 1 first_leg_def)
  next
    case 2
    then show ?thesis
      using first [OF leg [OF chase_leg [OF assms(1,2)]]]
      by (simp add: ask_module_def Let_def c module_wait_module_def module_restart_next_def)
  next
    case 3
    then show ?thesis
      using first [OF leg [OF done_leg [OF conclude_good [OF assms(1,2)]]]] by (simp add: ask_module_def Let_def c)
  qed
qed

lemma resolve_leg: "first_leg wire datagram (fst (resolve mode wire client datagram w))"
proof (cases "length wire < header_size \<or> wire ! 2 AND 0x80 \<noteq> 0")
  case True
  then show ?thesis by (simp add: resolve_def first_leg_def result_ok_def dropped_def)
next
  case alive: False
  let ?flags = "read_u16 wire 2"
  let ?bare = "bare_message (read_u16 wire 0) ?flags"
  have bare: "client_query wire ?bare" by (simp add: client_query_def bare_message_def)
  have err: "first_leg wire datagram (fst (answer_with (error_reply ?bare rc) w))" for rc
    using answer_bare [OF bare, of rc w datagram None] by (auto simp: first_leg_def)
  have pass: "first_leg wire datagram (fst (unchanged wire ?bare w))" by (rule unchanged_leg [OF bare])
  consider "drop_bit 11 ?flags AND 0xF \<noteq> 0" | "drop_bit 11 ?flags AND 0xF = 0" "read_u16 wire 4 \<noteq> 1"
    | "drop_bit 11 ?flags AND 0xF = 0" "read_u16 wire 4 = 1"
      "?flags AND flag_tc \<noteq> 0 \<or> read_u16 wire 6 \<noteq> 0 \<or> read_u16 wire 8 \<noteq> 0 \<or> 1 < read_u16 wire 10"
    | (parsed) "drop_bit 11 ?flags AND 0xF = 0" "read_u16 wire 4 = 1"
      "\<not> (?flags AND flag_tc \<noteq> 0 \<or> read_u16 wire 6 \<noteq> 0 \<or> read_u16 wire 8 \<noteq> 0 \<or> 1 < read_u16 wire 10)"
    by blast
  then show ?thesis
  proof cases
    case parsed
    have r: "resolve mode wire client datagram w = (case parse_message wire of
           Inl (Wire_error e) \<Rightarrow> answer_with (error_reply ?bare rcode_formerr) w
         | Inl e \<Rightarrow> (Done (Inl e), w)
         | Inr query \<Rightarrow>
            (if \<not> module_decides query then unchanged wire query w
             else (case mode of
                 Forwarder reply_log \<Rightarrow> relay_only reply_log wire query client w
               | Module h \<Rightarrow> ask_module h wire query client datagram w)))"
      unfolding resolve_def if_not_P [OF alive] Let_def parsed(1,2) if_not_P [OF parsed(3)] by simp
    show ?thesis
    proof (cases "parse_message wire")
      case (Inl e)
      moreover obtain t where "e = Wire_error t" using parse_result [of wire] Inl by auto
      ultimately show ?thesis using err r by simp
    next
      case (Inr query)
      have one: "length (ms_questions query) = 1" using parsed_question(3) [OF Inr] parsed(2) by simp
      then have q: "client_query wire query" "ms_questions query \<noteq> []"
        using Inr parsed_question(1) [OF Inr] by (auto simp: client_query_def)
      show ?thesis
        unfolding r Inr sum.case
        using unchanged_leg [OF q(1), of datagram w] relay_only_leg [OF q(1), of datagram _ client w] ask_module_leg [OF q Inr, of datagram _ client w]
        by (cases mode) simp_all
    qed
  qed (use alive err pass in \<open>simp_all add: resolve_def Let_def\<close>)
qed

lemma second_play:
  assumes "second_leg wire datagram relay d" "play d replies = (es, r)"
  shows "(es = [] \<and> (\<exists>x. d = Done x) \<or> (\<exists>c reply. es = [(c, reply)] \<and> chase_for wire c) \<or> (\<exists>c k. d = Ask c k \<and> replies = [] \<and> es = [] \<and> r = None))
    \<and> (replies \<noteq> [] \<longrightarrow> r \<noteq> None) \<and> (\<forall>x. r = Some x \<longrightarrow> result_ok wire datagram relay x \<and> x \<noteq> Inr None)"
proof (cases d)
  case (Done x)
  then show ?thesis using assms by (auto simp: second_leg_def)
next
  case (Ask c k)
  show ?thesis
  proof (cases replies)
    case Nil
    then show ?thesis using assms Ask by auto
  next
    case (Cons rw rest)
    obtain reply w where rw: "rw = (reply, w)" by (cases rw)
    obtain x where x: "fst (k reply w) = Done x" "result_ok wire datagram relay x" "x \<noteq> Inr None"
      using assms(1) Ask by (auto simp: second_leg_def)
    then show ?thesis using assms Ask Cons rw by (auto simp: second_leg_def)
  qed
qed

lemma first_play:
  assumes "first_leg wire datagram d" "play d replies = (es, r)"
  shows "(case map fst es of
        [] \<Rightarrow> True | [a] \<Rightarrow> a = wire \<or> chase_for wire a | [a, b] \<Rightarrow> a = wire \<and> chase_for wire b | _ \<Rightarrow> False)
    \<and> (2 \<le> length replies \<longrightarrow> r \<noteq> None)
    \<and> (\<forall>x. r = Some x \<longrightarrow> (\<exists>relay. (relay = None \<or> (wire, relay) \<in> set es) \<and> result_ok wire datagram relay x)
          \<and> (x = Inr None \<longrightarrow> es = []))"
proof (cases "second_leg wire datagram None d")
  case True
  from second_play [OF this assms(2)] show ?thesis by (cases replies) auto
next
  case first: False
  show ?thesis
  proof (cases d)
    case (Done x)
    then show ?thesis using assms by (auto simp: first_leg_def)
  next
    case (Ask request k)
    then have k: "request = wire"
      "\<And>reply w. \<exists>relay. (relay = None \<or> relay = reply) \<and> second_leg wire datagram relay (fst (k reply w))"
      using assms(1) first by (auto simp: first_leg_def)
    show ?thesis
    proof (cases replies)
      case Nil
      then show ?thesis using assms(2) Ask by auto
    next
      case (Cons rw rest)
      obtain reply w where rw: "rw = (reply, w)" by (cases rw)
      obtain es' where es: "es = (wire, reply) # es'" "play (fst (k reply w)) rest = (es', r)"
        using assms(2) Ask Cons rw k(1) by (auto split: prod.splits)
      obtain relay where relay: "relay = None \<or> relay = reply" "second_leg wire datagram relay (fst (k reply w))"
        using k(2) by blast
      note s = second_play [OF relay(2) es(2)]
      have "relay = None \<or> (wire, relay) \<in> set es" using relay(1) es(1) by auto
      moreover have "case map fst es of
        [] \<Rightarrow> True | [a] \<Rightarrow> a = wire \<or> chase_for wire a | [a, b] \<Rightarrow> a = wire \<and> chase_for wire b | _ \<Rightarrow> False"
        using s es(1) by auto
      ultimately show ?thesis using s Cons by (cases rest) auto
    qed
  qed
qed

subsection \<open>A blocked name behind the shipped module\<close>

text \<open>The queries \<open>resolve\<close> hands to the module, and the name they ask for.\<close>

definition reaches_module :: "bytes \<Rightarrow> Message \<Rightarrow> bool" where
  "reaches_module wire query \<longleftrightarrow> \<not> dropped wire \<and> drop_bit 11 (read_u16 wire 2) AND 0xF = 0
     \<and> read_u16 wire 4 = 1 \<and> read_u16 wire 2 AND flag_tc = 0 \<and> read_u16 wire 6 = 0 \<and> read_u16 wire 8 = 0
     \<and> read_u16 wire 10 \<le> 1 \<and> parse_message wire = Inr query \<and> module_decides query"

lemma reaches_resolve:
  assumes "reaches_module wire query"
  shows "resolve (Module h) wire client datagram w = ask_module h wire query client datagram w"
    "client_query wire query" "ms_questions query \<noteq> []"
proof -
  note r = assms [unfolded reaches_module_def dropped_def]
  have "\<not> (length wire < header_size \<or> wire ! 2 AND 0x80 \<noteq> 0)" using r by blast
  moreover have "\<not> (read_u16 wire 2 AND flag_tc \<noteq> 0 \<or> read_u16 wire 6 \<noteq> 0 \<or> read_u16 wire 8 \<noteq> 0 \<or> 1 < read_u16 wire 10)"
    using r by (simp add: not_less)
  ultimately show "resolve (Module h) wire client datagram w = ask_module h wire query client datagram w"
    using r unfolding resolve_def by simp
  have "length (ms_questions query) = 1" using r parsed_question(3) [of wire query] by simp
  then show "client_query wire query" "ms_questions query \<noteq> []"
    using r parsed_question(1) [of wire query] by (auto simp: client_query_def)
qed

text \<open>The settings under which the DNSBL stage is the first to answer.\<close>

definition dnsbl_first :: "settings \<Rightarrow> nat \<Rightarrow> bool" where
  "dnsbl_first se q_type \<longleftrightarrow> \<not> (q_type = rr_type_aaaa \<and> se_noaaaa se) \<and> \<not> se_safesearch se
     \<and> \<not> se_python_control_legacy se"

lemma operate_blocks:
  assumes "dnsbl_first se q_type" "qs_qtype q = Some q_type" "blacklist_on m" "q_type \<in> set rr_types"
    and "dnsbl_stage U E ub se q_type (lower (get_q_name_qstate q)) (get_q_ip q) q m = Inr (True, q', m')"
  shows "operate U E ub se started opened event_new q m = Inr (q', m')"
proof -
  have "pre_resolution ub se started opened q_type (lower (get_q_name_qstate q)) (get_q_ip q) q m = Inr (False, q, m)"
    using assms(1) unfolding dnsbl_first_def
    by (auto simp: pre_resolution_def noaaaa_stage_def safesearch_stage_def legacy_control_def chain_def)
  then show ?thesis using assms(2-5) by (simp add: operate_def Let_def chain_def)
qed

text \<open>The verdict on the name of a query, in its own context.\<close>

definition asked_name :: "Message \<Rightarrow> string \<Rightarrow> string" where
  "asked_name query client = lower (get_q_name_qstate (module_qstate (hd (ms_questions query)) client))"

lemma blocked_stage:
  assumes "env_ok E" "live E {snap} (m_st m)" "st_snapshot (m_st m) = Some snap" "lru_ok (st_cache (m_st m))"
    "lc_d (st_cache (m_st m)) = []" "\<not> suffix ''.in-addr.arpa'' q0" "\<not> gp_bypassed se m q"
    "qs_return_msg q = None" "is_block (chain_verdict U E (st_pfb (m_st m)) snap q q0 False q0)"
  shows "\<exists>q' m'. dnsbl_stage U E ub se q_type q0 q_ip q m = Inr (True, q', m') \<and> answered q'"
proof -
  have u: "unknown_names [q0] m" using assms(4,5) by (simp add: unknown_names_def lru_lookup_def)
  have c: "cname_targets q = []" using assms(8) by (simp add: cname_targets_def)
  have "names = q0 # (if se_python_cname se then cname_targets q else []) \<Longrightarrow>
      dnsbl_stage U E ub se q_type q0 q_ip q m = dnsbl_loop U E ub se snap q_type q0 q_ip False names q m" for names
    using assms(3,6,7) by (simp add: dnsbl_stage_def Let_def)
  from this [of "[q0]"] have e: "dnsbl_stage U E ub se q_type q0 q_ip q m = dnsbl_loop U E ub se snap q_type q0 q_ip False [q0] q m"
    using c by simp
  show ?thesis
    unfolding e using loop_blocks [OF assms(1,2) u, of False q0 U ub se q_type q_ip q] assms(9) by auto
qed

subsection \<open>A sample query\<close>

definition sample_wire :: bytes where
  "sample_wire = [0, 7, 1, 0, 0, 1, 0, 0, 0, 0, 0, 0, 3, 98, 97, 100, 3, 111, 114, 103, 0, 0, 1, 0, 1]"

definition sample_asked :: Message where
  "sample_asked = \<lparr>ms_id = 7, ms_flags = 0x0100, ms_questions = [\<lparr>qn_name = ''bad.org.'', qn_type = 1, qn_class = 1\<rparr>],
     ms_answers = [], ms_authority = [], ms_additional = []\<rparr>"

definition sample_frontend :: "modul frontend" where
  "sample_frontend = \<lparr>fe_mod = sample_modul, fe_clock = int, fe_reads = 0, fe_random = of_nat, fe_draws = 0,
     fe_silence_logged = None, fe_oversized_logged = None, fe_log = []\<rparr>"

lemma sample_reaches: "reaches_module sample_wire sample_asked"
proof -
  have "parse_message sample_wire = Inr sample_asked" by code_simp
  moreover have "\<not> dropped sample_wire" "drop_bit 11 (read_u16 sample_wire 2) AND 0xF = 0" "read_u16 sample_wire 4 = 1"
    "read_u16 sample_wire 2 AND flag_tc = 0" "read_u16 sample_wire 6 = 0" "read_u16 sample_wire 8 = 0"
    "read_u16 sample_wire 10 \<le> 1" by code_simp+
  moreover have "module_decides sample_asked" by code_simp
  ultimately show ?thesis unfolding reaches_module_def by blast
qed

subsection \<open>Properties\<close>

text \<open>C31. Whatever the module does and Unbound replies, \<open>resolve\<close> forwards at most twice: the client's own bytes,
  unchanged, and a SafeSearch chase of the proxy's making, of at most one DNS message; and after two replies it has
  come to its result.\<close>

theorem resolve_forwards:
  "case play (fst (resolve mode wire client datagram w)) replies of (es, r) \<Rightarrow>
    (case map fst es of
       [] \<Rightarrow> True | [a] \<Rightarrow> a = wire \<or> chase_for wire a | [a, b] \<Rightarrow> a = wire \<and> chase_for wire b | _ \<Rightarrow> False)
    \<and> (if 2 \<le> length replies then r \<noteq> None else True)"
  using first_play [OF resolve_leg [of wire datagram mode client w]] by (auto split: prod.split)




end
