(* ===== verification/ServiceLaws.thy ===== *)
theory ServiceLaws
  imports Service WireNames
begin

text \<open>
  The laws of the decision protocol: what the frame reader recovers from a stream cut anywhere, and
  the exchanges of a session.
\<close>

subsection \<open>Frames\<close>

definition frame_ok :: "wire_frame \<Rightarrow> bool" where
  "frame_ok f \<longleftrightarrow> 5 + int (length (snd (snd f))) \<le> max_frame_len"

definition frame_bytes :: "wire_frame \<Rightarrow> bytes" where
  "frame_bytes f = u32_bytes (of_nat (5 + length (snd (snd f)))) @ [fst f] @ u32_bytes (fst (snd f)) @ snd (snd f)"

lemma encode_frame_bytes: "frame_ok f \<Longrightarrow> encode_frame (fst f) (fst (snd f)) (snd (snd f)) = Inr (frame_bytes f)"
  by (simp add: encode_frame_def frame_bytes_def frame_ok_def max_frame_len_def)

lemma length_frame [simp]: "length (frame_bytes f) = 9 + length (snd (snd f))"
  by (simp add: frame_bytes_def)

lemma frame_len:
  assumes "frame_ok f"
  shows "unat (of_nat (5 + length (snd (snd f))) :: 32 word) = 5 + length (snd (snd f))"
    and "uint (of_nat (5 + length (snd (snd f))) :: 32 word) = 5 + int (length (snd (snd f)))"
proof -
  have "take_bit LENGTH(32) (5 + length (snd (snd f))) = 5 + length (snd (snd f))"
    using assms by (intro take_bit_nat_eq_self) (simp add: frame_ok_def max_frame_len_def)
  then show "unat (of_nat (5 + length (snd (snd f))) :: 32 word) = 5 + length (snd (snd f))"
    "uint (of_nat (5 + length (snd (snd f))) :: 32 word) = 5 + int (length (snd (snd f)))"
    by (simp_all only: unsigned_of_nat) simp_all
qed

lemma frame_size:
  assumes "4 \<le> n"
  shows "read_u32 (take n (frame_bytes f @ s)) 0 = of_nat (5 + length (snd (snd f)))"
proof -
  let ?l = "of_nat (5 + length (snd (snd f))) :: 32 word"
  have "read_u32 ([] @ u32_bytes ?l @ x) (length ([] :: bytes)) = ?l" for x by (rule read_u32_at)
  moreover have "take n (frame_bytes f @ s) = u32_bytes ?l @ take (n - 4) ([fst f] @ u32_bytes (fst (snd f)) @ snd (snd f) @ s)"
    using assms by (simp add: frame_bytes_def)
  ultimately show ?thesis by simp
qed

lemma cut_frame:
  assumes "length u = 4"
  shows "drop 5 (take (5 + length p) (a # u @ p @ t)) = p" "drop (5 + length p) (a # u @ p @ t) = t"
proof -
  have l: "5 + length p = length (a # u @ p)" using assms by simp
  have t: "take (5 + length p) (a # u @ p @ t) = a # u @ p" "drop (5 + length p) (a # u @ p @ t) = t"
    unfolding l by simp_all
  have "drop (length u) (u @ p) = p" by simp
  then show "drop 5 (take (5 + length p) (a # u @ p @ t)) = p" unfolding t using assms by simp
  show "drop (5 + length p) (a # u @ p @ t) = t" by (rule t(2))
qed

lemma read_frame_cut:
  assumes "frame_ok f"
  shows "read_frame (take n (frame_bytes f @ s))
    = (if n < length (frame_bytes f) then Closed else Frame f (take (n - length (frame_bytes f)) s))"
proof (cases "n < 4")
  case True
  then show ?thesis by (simp add: read_frame_def)
next
  case False
  let ?s = "take n (frame_bytes f @ s)" and ?p = "snd (snd f)"
  note z = frame_len [OF assms]
  have size: "read_u32 ?s 0 = of_nat (5 + length ?p)" by (rule frame_size) (use False in simp)
  have b: "drop 4 ?s = take (n - 4) ([fst f] @ u32_bytes (fst (snd f)) @ ?p @ s)"
    using False by (simp add: frame_bytes_def drop_take)
  have in_range: "5 \<le> uint (of_nat (5 + length ?p) :: 32 word) \<and> uint (of_nat (5 + length ?p) :: 32 word) \<le> max_frame_len"
    using assms unfolding z(2) by (simp add: frame_ok_def)
  have e: "read_frame ?s = (if length (drop 4 ?s) < 5 + length ?p then Closed
      else Frame (drop 4 ?s ! 0, read_u32 (drop 4 ?s) 1, drop 5 (take (5 + length ?p) (drop 4 ?s))) (drop (5 + length ?p) (drop 4 ?s)))"
    using False in_range z(1) unfolding read_frame_def Let_def size by (simp del: drop_drop)
  show ?thesis
  proof (cases "n < length (frame_bytes f)")
    case True
    then have "length (drop 4 ?s) < 5 + length ?p" by simp
    then show ?thesis using e True by simp
  next
    case inside: False
    have d: "drop 4 ?s = [fst f] @ u32_bytes (fst (snd f)) @ ?p @ take (n - length (frame_bytes f)) s"
    proof -
      have "take (length A + m) (A @ s) = A @ take m s" for A :: bytes and m by simp
      from this [of "[fst f] @ u32_bytes (fst (snd f)) @ ?p" "n - length (frame_bytes f)"] show ?thesis
        unfolding b using inside by (simp del: take_append)
    qed
    have "read_u32 ([fst f] @ u32_bytes (fst (snd f)) @ ?p @ take (n - length (frame_bytes f)) s) (length [fst f]) = fst (snd f)"
      by (rule read_u32_at)
    then show ?thesis using e inside cut_frame [of "u32_bytes (fst (snd f))" ?p "fst f"] unfolding d by simp
  qed
qed

lemma read_frames_cut:
  assumes "\<forall>f \<in> set fs. frame_ok f"
  shows "\<exists>k \<le> length fs. read_frames (take n (concat (map frame_bytes fs))) = (take k fs, Closed)
    \<and> length (concat (map frame_bytes (take k fs))) \<le> n
    \<and> (k < length fs \<longrightarrow> n < length (concat (map frame_bytes (take (Suc k) fs))))"
  using assms
proof (induction fs arbitrary: n)
  case Nil
  then show ?case by (subst read_frames.simps) (simp add: read_frame_def)
next
  case (Cons f fs)
  let ?r = "concat (map frame_bytes fs)"
  have f: "frame_ok f" using Cons.prems by simp
  show ?case
  proof (cases "n < length (frame_bytes f)")
    case True
    then show ?thesis
      using read_frame_cut [OF f, of n ?r] by (subst read_frames.simps) (auto intro: exI [of _ 0])
  next
    case False
    obtain k where k: "k \<le> length fs" "read_frames (take (n - length (frame_bytes f)) ?r) = (take k fs, Closed)"
      "length (concat (map frame_bytes (take k fs))) \<le> n - length (frame_bytes f)"
      "k < length fs \<longrightarrow> n - length (frame_bytes f) < length (concat (map frame_bytes (take (Suc k) fs)))"
      using Cons.IH [of "n - length (frame_bytes f)"] Cons.prems by auto
    have "read_frames (take n (concat (map frame_bytes (f # fs)))) = (take (Suc k) (f # fs), Closed)"
      using read_frame_cut [OF f, of n ?r] False k(2) by (subst read_frames.simps) simp
    then show ?thesis using k(1,3,4) False by (intro exI [of _ "Suc k"]) auto
  qed
qed

subsection \<open>The exchanges of a session\<close>

text \<open>The events of one id: from an accepted QUERY to its final frame it is busy; FORWARD, ANSWER and
  DROP are written for a busy id only.\<close>

fun exchange :: "32 word \<Rightarrow> bool \<Rightarrow> event list \<Rightarrow> bool option" where
  "exchange fid busy [] = Some busy"
| "exchange fid busy (In (t, i, p) # es) = exchange fid
     (busy \<or> i = fid \<and> t = ft_query \<and> (case split_query p of Inl e \<Rightarrow> False | Inr q \<Rightarrow> True)) es"
| "exchange fid busy (Out (t, i, p) # es) =
     (if i \<noteq> fid \<or> t = ft_ready then exchange fid busy es
      else if \<not> busy then None
      else if t = ft_forward then exchange fid busy es
      else if t = ft_answer \<or> t = ft_drop then exchange fid False es
      else None)"

lemma exchange_append:
  "exchange fid busy (es @ fs) = (case exchange fid busy es of None \<Rightarrow> None | Some b \<Rightarrow> exchange fid b fs)"
  by (induction fid busy es rule: exchange.induct) auto

lemma frame_types [simp]:
  "ft_forward \<noteq> ft_ready" "ft_answer \<noteq> ft_ready" "ft_drop \<noteq> ft_ready" "ft_answer \<noteq> ft_forward" "ft_drop \<noteq> ft_forward"
  "ft_reply \<noteq> ft_query" "ft_query \<noteq> ft_reply"
  by (simp_all add: ft_forward_def ft_ready_def ft_answer_def ft_drop_def ft_reply_def ft_query_def)

text \<open>All but the future of \<open>skip\<close>, which a step has just taken.\<close>

definition session_inv :: "32 word option \<Rightarrow> 'w session \<Rightarrow> bool" where
  "session_inv skip s \<longleftrightarrow> dom (ss_tasks s) = ss_inflight s
     \<and> (\<forall>fid k. ss_tasks s fid = Some (Waiting k) \<longrightarrow> Some fid \<noteq> skip \<longrightarrow> ss_replies s fid \<noteq> None)
     \<and> (\<forall>fid. exchange fid False (ss_trace s) = Some (fid \<in> ss_inflight s))"

lemma finish_inv:
  assumes "session_inv (Some fid) s" "fid \<in> ss_inflight s"
  shows "session_inv None (finish now fid result s)"
proof -
  have *: "session_inv None (emit t fid p (r\<lparr>ss_tasks := (ss_tasks r)(fid := None), ss_inflight := ss_inflight r - {fid}\<rparr>))"
    if "t = ft_answer \<or> t = ft_drop" "session_inv (Some fid) r" "fid \<in> ss_inflight r" for t p and r :: "'a session"
    using that by (auto simp: session_inv_def emit_def exchange_append)
  have "session_inv (Some fid) (log_failure now fid s)" "fid \<in> ss_inflight (log_failure now fid s)"
    using assms by (auto simp: log_failure_def session_inv_def)
  then show ?thesis using assms by (auto simp: finish_def Let_def intro!: * split: sum.split option.split)
qed

lemma proceed_inv:
  assumes "session_inv (Some fid) s" "fid \<in> ss_inflight s"
  shows "session_inv None (proceed now fid dw s)"
proof (cases "fst dw")
  case (Done result)
  have "session_inv (Some fid) (s\<lparr>ss_world := snd dw\<rparr>)" using assms(1) by (simp add: session_inv_def)
  then show ?thesis using finish_inv [of fid "s\<lparr>ss_world := snd dw\<rparr>"] assms(2) Done by (simp add: proceed_def)
next
  case (Ask request k)
  then show ?thesis using assms by (auto simp: proceed_def session_inv_def emit_def exchange_append Let_def)
qed

lemma receive_inv:
  assumes "session_inv None s"
  shows "session_inv None (receive f s)"
proof -
  obtain t i p where f: "f = (t, i, p)" by (cases f) auto
  show ?thesis
  proof (cases "t = ft_query")
    case True
    show ?thesis
    proof (cases "split_query p")
      case (Inl e)
      then show ?thesis using assms True by (simp add: receive_def f session_inv_def exchange_append Let_def)
    next
      case (Inr q)
      obtain d ip wire where q: "q = (d, ip, wire)" by (cases q) auto
      show ?thesis
        using assms True Inr q by (cases "i \<in> ss_inflight s") (auto simp: receive_def f session_inv_def exchange_append Let_def)
    qed
  next
    case False
    then show ?thesis using assms
      by (auto simp: receive_def f session_inv_def exchange_append Let_def split: option.splits)
  qed
qed

lemma session_step_inv:
  assumes "session_step resolve s s'" "session_inv None s"
  shows "session_inv None s'"
  using assms
proof cases
  case (frame f)
  then show ?thesis using receive_inv [OF assms(2)] by simp
next
  case (begin_task fid datagram ip wire now)
  have "fid \<in> ss_inflight s" using assms(2) begin_task(3) by (auto simp: session_inv_def)
  moreover have "session_inv (Some fid) s" using assms(2) by (simp add: session_inv_def)
  ultimately show ?thesis unfolding begin_task(1) by (rule proceed_inv [rotated])
next
  case (resume fid k reply now)
  have "fid \<in> ss_inflight s" using assms(2) resume(3) by (auto simp: session_inv_def)
  moreover have "session_inv (Some fid) (s\<lparr>ss_replies := (ss_replies s)(fid := None)\<rparr>)"
    using assms(2) by (simp add: session_inv_def)
  ultimately show ?thesis unfolding resume(1) by (intro proceed_inv) simp_all
next
  case (timeout fid k now)
  have "fid \<in> ss_inflight s" using assms(2) timeout(3) by (auto simp: session_inv_def)
  moreover have "session_inv (Some fid) (s\<lparr>ss_replies := (ss_replies s)(fid := None)\<rparr>)"
    using assms(2) by (simp add: session_inv_def)
  ultimately show ?thesis unfolding timeout(1) by (intro proceed_inv) simp_all
qed (simp_all add: session_inv_def)

lemma session_reachable_inv: "session_reachable resolve w s \<Longrightarrow> session_inv None s"
proof (induction rule: session_reachable.induct)
  case start
  show ?case by (auto simp: session_inv_def start_session_def emit_def)
qed (rule session_step_inv)

text \<open>A task left to itself finishes: every \<open>forward\<close> times out.\<close>

lemma finish_trace: "\<exists>t p. t \<in> {ft_answer, ft_drop} \<and> ss_trace (finish now fid result s) = ss_trace s @ [Out (t, fid, p)]"
  by (auto simp: finish_def emit_def log_failure_def Let_def split: sum.splits option.splits)

definition own_events :: "32 word \<Rightarrow> event list \<Rightarrow> bool" where
  "own_events fid es \<longleftrightarrow> (\<forall>e \<in> set es. \<exists>t p. e = Out (t, fid, p))"

lemma task_finishes:
  assumes "ss_status s = Open" "session_inv (Some fid) s" "fid \<in> ss_inflight s"
  shows "\<exists>s' es t p. (session_step resolve)\<^sup>*\<^sup>* (proceed now fid (d, w) s) s'
    \<and> ss_trace s' = ss_trace s @ es @ [Out (t, fid, p)] \<and> own_events fid es \<and> t \<in> {ft_answer, ft_drop}"
  using assms
proof (induction d arbitrary: s w)
  case (Done result)
  obtain t p where "t \<in> {ft_answer, ft_drop}"
    "ss_trace (finish now fid result (s\<lparr>ss_world := w\<rparr>)) = ss_trace (s\<lparr>ss_world := w\<rparr>) @ [Out (t, fid, p)]"
    using finish_trace by blast
  then show ?case
    by (intro exI [of _ "proceed now fid (Done result, w) s"] exI [of _ "[]"] exI [of _ t] exI [of _ p])
      (simp add: proceed_def own_events_def)
next
  case (Ask request k)
  let ?s1 = "proceed now fid (Ask request k, w) s"
  let ?s2 = "?s1\<lparr>ss_replies := (ss_replies ?s1)(fid := None)\<rparr>"
  have s1: "ss_status ?s1 = Open" "ss_tasks ?s1 fid = Some (Waiting k)" "ss_replies ?s1 fid = Some None"
    "ss_trace ?s1 = ss_trace s @ [Out (ft_forward, fid, request)]" "fid \<in> ss_inflight ?s1" "ss_world ?s1 = w"
    using Ask.prems by (simp_all add: proceed_def emit_def Let_def)
  have inv1: "session_inv None ?s1" by (rule proceed_inv [OF Ask.prems(2,3)])
  have inv2: "session_inv (Some fid) ?s2" using inv1 by (simp add: session_inv_def)
  obtain d w' where k: "k None w = (d, w')" by fastforce
  have st: "session_step resolve ?s1 (proceed now fid (d, w') ?s2)"
    using session_step.timeout [of ?s1 fid k resolve now] s1 by (simp add: k)
  have in_range: "(d, w') \<in> range (k None)" using k by (metis rangeI)
  obtain s' es t p where ih: "(session_step resolve)\<^sup>*\<^sup>* (proceed now fid (d, w') ?s2) s'"
    "ss_trace s' = ss_trace ?s2 @ es @ [Out (t, fid, p)]" "own_events fid es" "t \<in> {ft_answer, ft_drop}"
    using Ask.IH [of "k None" "(d, w')" d ?s2 w'] in_range inv2 s1 by auto
  have "(session_step resolve)\<^sup>*\<^sup>* ?s1 s'" using st ih(1) by (meson converse_rtranclp_into_rtranclp)
  moreover have "ss_trace s' = ss_trace s @ (Out (ft_forward, fid, request) # es) @ [Out (t, fid, p)]"
    using ih(2) s1(4) by simp
  moreover have "own_events fid (Out (ft_forward, fid, request) # es)" using ih(3) by (simp add: own_events_def)
  ultimately show ?case using ih(4) by blast
qed

subsection \<open>The protocol\<close>

lemma list_all2_frames:
  "list_all2 (\<lambda>(t, i, p) b. encode_frame t i p = Inr b \<and> 5 + int (length p) \<le> max_frame_len) fs bs
    \<Longrightarrow> (\<forall>f \<in> set fs. frame_ok f) \<and> bs = map frame_bytes fs"
proof (induction rule: list_all2_induct)
  case (Cons f fs b bs)
  then have "frame_ok f" by (auto simp: frame_ok_def split: prod.splits)
  then show ?case using Cons encode_frame_bytes [of f] by (auto split: prod.splits)
qed simp

text \<open>C27. Whatever the gateway wrote before its stream was cut, at any byte, the frame reader gives back exactly the
  frames that arrived whole, in order and unchanged, then the end of the stream: never a frame from a part.\<close>

theorem frame_stream_cut:
  assumes "list_all2 (\<lambda>(t, i, p) b. encode_frame t i p = Inr b \<and> 5 + int (length p) \<le> max_frame_len) fs bs"
  shows "\<exists>k \<le> length fs. read_frames (take n (concat bs)) = (take k fs, Closed)
    \<and> length (concat (take k bs)) \<le> n
    \<and> (k < length fs \<longrightarrow> n < length (concat (take (Suc k) bs)))"
  using read_frames_cut [of fs n] list_all2_frames [OF assms] by (auto simp: take_map)

theorem frame_stream_cut_witness:
  "\<exists>k \<le> length [(ft_query, 7 :: 32 word, [0, 1, 65 :: octet]), (ft_reply, 8, [])].
    read_frames (take 13 (concat [[0, 0, 0, 8, 1, 0, 0, 0, 7, 0, 1, 65], [0, 0, 0, 5, 3, 0, 0, 0, 8]]))
      = (take k [(ft_query, 7, [0, 1, 65]), (ft_reply, 8, [])], Closed)
    \<and> length (concat (take k [[0, 0, 0, 8, 1, 0, 0, 0, 7, 0, 1, 65], [0, 0, 0, 5, 3, 0, 0, 0, 8 :: octet]])) \<le> 13
    \<and> (k < length [(ft_query, 7 :: 32 word, [0, 1, 65 :: octet]), (ft_reply, 8, [])]
      \<longrightarrow> 13 < length (concat (take (Suc k) [[0, 0, 0, 8, 1, 0, 0, 0, 7, 0, 1, 65], [0, 0, 0, 5, 3, 0, 0, 0, 8 :: octet]])))"
  by (rule frame_stream_cut) (simp add: encode_frame_def max_frame_len_def ft_query_def ft_reply_def u32_bytes_def)

text \<open>A QUERY payload is accepted exactly when it is a transport byte, a client address of its stated non-zero
  length and the query; then the three parts come back as they were written.\<close>

theorem split_query_exact:
  "split_query p = Inr (datagram, ip, wire)
    \<longleftrightarrow> ip \<noteq> [] \<and> length ip < 256 \<and> p = [if datagram then 1 else 0, of_nat (length ip)] @ ip @ wire"
proof (cases p)
  case (Cons a q)
  show ?thesis
  proof (cases q)
    case (Cons n r)
    have "r = ip @ wire" if "take (unat n) r = ip" "drop (unat n) r = wire" using that append_take_drop_id by metis
    moreover have "unat n < 256" using unsigned_less [of n] by simp
    moreover have "unat n = 0 \<longleftrightarrow> n = 0" by (simp add: unat_eq_zero)
    moreover have "unat (of_nat (length ip) :: octet) = length ip" if "length ip < 256"
      using that by (simp add: unsigned_of_nat take_bit_nat_eq_self)
    ultimately show ?thesis
      using \<open>p = a # q\<close> Cons
      by (auto simp: split_query_def stream_client_def datagram_client_def not_less Let_def)
  qed (simp add: Cons split_query_def)
qed (simp add: split_query_def)


lemma first_frame: "session_reachable resolve w (receive f (start_session w))"
  by (rule session_reachable.step [OF session_reachable.start session_step.frame]) (simp add: start_session_def emit_def)


lemma run_to_the_end:
  assumes "\<And>now. session_step resolve s (proceed now fid (d, w') r)" "session_inv (Some fid) r"
    "ss_trace r = ss_trace s" "ss_status r = Open" "fid \<in> ss_inflight r"
  shows "\<exists>s' es t p. (session_step resolve)\<^sup>*\<^sup>* s s' \<and> ss_trace s' = ss_trace s @ es @ [Out (t, fid, p)]
    \<and> own_events fid es \<and> (t = ft_answer \<or> t = ft_drop)"
proof -
  obtain s' es t p where "(session_step resolve)\<^sup>*\<^sup>* (proceed 0 fid (d, w') r) s'"
    "ss_trace s' = ss_trace r @ es @ [Out (t, fid, p)]" "own_events fid es" "t \<in> {ft_answer, ft_drop}"
    using task_finishes [OF assms(4,2,5)] by blast
  moreover from this(1) have "(session_step resolve)\<^sup>*\<^sup>* s s'" by (rule converse_rtranclp_into_rtranclp [of "session_step resolve", OF assms(1)])
  ultimately show ?thesis using assms(3) by auto
qed

text \<open>C29. No query is lost: from every reachable session whose stream is open, every query in flight can be run on
  its own to its final frame, by steps that write frames of that id only.\<close>

theorem session_answers:
  assumes "session_reachable resolve w s" "ss_status s = Open" "fid \<in> ss_inflight s"
  shows "\<exists>s' es t p. (session_step resolve)\<^sup>*\<^sup>* s s' \<and> ss_trace s' = ss_trace s @ es @ [Out (t, fid, p)]
    \<and> own_events fid es \<and> (t = ft_answer \<or> t = ft_drop)"
proof -
  have inv: "session_inv None s" by (rule session_reachable_inv [OF assms(1)])
  have "fid \<in> dom (ss_tasks s)" using inv assms(3) by (simp add: session_inv_def)
  then obtain ph where ph: "ss_tasks s fid = Some ph" by auto
  show ?thesis
  proof (cases ph)
    case (Scheduled datagram ip wire)
    obtain d w' where d: "(case ip of None \<Rightarrow> (Done (Inr None), ss_world s) | Some ip \<Rightarrow> resolve wire ip datagram (ss_world s)) = (d, w')"
      by fastforce
    have "session_step resolve s (proceed now fid (d, w') s)" for now
      using session_step.begin_task [of s fid datagram ip wire resolve now] assms(2) ph Scheduled d by simp
    moreover have "session_inv (Some fid) s" using inv by (simp add: session_inv_def)
    ultimately show ?thesis by (rule run_to_the_end) (use assms in simp_all)
  next
    case (Waiting k)
    let ?s = "s\<lparr>ss_replies := (ss_replies s)(fid := None)\<rparr>"
    obtain r where r: "ss_replies s fid = Some r" using inv ph Waiting by (auto simp: session_inv_def)
    define reply where "reply = (case r of None \<Rightarrow> None | Some x \<Rightarrow> x)"
    obtain d w' where d: "k reply (ss_world s) = (d, w')" by fastforce
    have "session_step resolve s (proceed now fid (d, w') ?s)" for now
      using session_step.resume [of s fid k reply resolve now] session_step.timeout [of s fid k resolve now]
        assms(2) ph Waiting d r by (cases r) (auto simp: reply_def)
    moreover have "session_inv (Some fid) ?s" using inv by (simp add: session_inv_def)
    moreover have "ss_trace ?s = ss_trace s" "ss_status ?s = Open" "fid \<in> ss_inflight ?s" using assms by simp_all
    ultimately show ?thesis by (rule run_to_the_end)
  qed
qed


theorem session_answers_witness:
  "let s = receive (ft_query, 7, [0, 1, 65, 1, 2]) (start_session ()) in
   \<exists>s' es t p. (session_step (\<lambda>wire ip datagram w. (Ask wire (\<lambda>r w. (Done (Inr r), w)), w)))\<^sup>*\<^sup>* s s'
    \<and> ss_trace s' = ss_trace s @ es @ [Out (t, 7, p)] \<and> own_events 7 es \<and> (t = ft_answer \<or> t = ft_drop)"
  unfolding Let_def
  by (rule session_answers [OF first_frame])
    (simp_all add: receive_def start_session_def emit_def ft_query_def ft_reply_def split_query_def stream_client_def
      datagram_client_def)

end
