(* ===== verification/Json.thy ===== *)
theory Json
  imports Prelude
begin

text \<open>
  JSON as the program uses it: the values, the text \<open>json.dumps\<close> writes and the values
  \<open>json.loads\<close> reads.  Texts have code points below 256; an escape of a higher one is outside the
  model and read as an error.
\<close>

subsection \<open>Values\<close>

text \<open>A number that is not an integer is kept by its text; an object has its keys in the order they first occur.\<close>

datatype jvalue =
    V_null
  | V_bool bool
  | V_int int
  | V_float string
  | V_str string
  | V_list "jvalue list"
  | V_dict "(string \<times> jvalue) list"

fun dict_of :: "jvalue \<Rightarrow> (string \<times> jvalue) list option" where
  "dict_of (V_dict d) = Some d"
| "dict_of v = None"

fun vget :: "string \<Rightarrow> jvalue \<Rightarrow> jvalue option" where
  "vget k (V_dict d) = map_of d k"
| "vget k v = None"

subsection \<open>Writing\<close>

text \<open>\<open>ensure_ascii\<close>: everything outside printable ASCII is escaped.\<close>

abbreviation quote_char :: char where "quote_char \<equiv> CHR 0x22"
abbreviation backslash :: char where "backslash \<equiv> CHR 0x5C"

definition short_escapes :: "(char \<times> char) list" where
  "short_escapes = [(CHR 0x22, CHR 0x22), (CHR 0x5C, CHR 0x5C), (CHR 0x0A, CHR ''n''), (CHR 0x0D, CHR ''r''),
     (CHR 0x09, CHR ''t''), (CHR 0x0C, CHR ''f''), (CHR 0x08, CHR ''b'')]"

definition json_char :: "char \<Rightarrow> string" where
  "json_char c = (case map_of short_escapes c of
       Some e \<Rightarrow> [backslash, e]
     | None \<Rightarrow>
        if 32 \<le> code_pt c \<and> code_pt c < 127 then [c]
        else [backslash, CHR ''u'', CHR ''0'', CHR ''0'', hex_digit (code_pt c div 16), hex_digit (code_pt c mod 16)])"

definition json_string :: "string \<Rightarrow> string" where
  "json_string s = quote_char # concat (map json_char s) @ [quote_char]"

fun join_items :: "string list \<Rightarrow> string" where
  "join_items [] = []"
| "join_items [s] = s"
| "join_items (s # ss) = s @ '', '' @ join_items ss"

fun dumps :: "jvalue \<Rightarrow> string" where
  "dumps V_null = ''null''"
| "dumps (V_bool b) = (if b then ''true'' else ''false'')"
| "dumps (V_int i) = int_text i"
| "dumps (V_float t) = t"
| "dumps (V_str s) = json_string s"
| "dumps (V_list vs) = CHR ''['' # join_items (map dumps vs) @ '']''"
| "dumps (V_dict d) = CHR ''{'' # join_items (map (\<lambda>(k, v). json_string k @ '': '' @ dumps v) d) @ ''}''"

subsection \<open>Reading\<close>

definition is_ws :: "char \<Rightarrow> bool" where
  "is_ws c \<longleftrightarrow> code_pt c \<in> {32, 9, 10, 13}"

definition skip_ws :: "string \<Rightarrow> string" where
  "skip_ws s = dropWhile is_ws s"

definition hex_val :: "char \<Rightarrow> nat option" where
  "hex_val c =
    (let n = code_pt c in
     if 48 \<le> n \<and> n \<le> 57 then Some (n - 48)
     else if 97 \<le> n \<and> n \<le> 102 then Some (n - 87)
     else if 65 \<le> n \<and> n \<le> 70 then Some (n - 55)
     else None)"

definition unescape :: "char \<Rightarrow> char option" where
  "unescape e = (if e = CHR ''/'' then Some e else map_of (map (\<lambda>(c, e). (e, c)) short_escapes) e)"

text \<open>The body of a string, after its quote, and what follows it.  The escape of a code point has four hex
  digits, of which the first two are zero here.\<close>

definition hex_escape :: "string \<Rightarrow> (char \<times> string) option" where
  "hex_escape s = (case s of
       a # b # c # d # r \<Rightarrow>
        (case (hex_val a, hex_val b, hex_val c, hex_val d) of
           (Some 0, Some 0, Some h, Some l) \<Rightarrow> Some (char_of (16 * h + l), r)
         | _ \<Rightarrow> None)
     | _ \<Rightarrow> None)"

lemma hex_escape_shorter: "hex_escape s = Some (c, r) \<Longrightarrow> length r < length s"
  by (auto simp: hex_escape_def split: list.splits option.splits nat.splits)

function str_body :: "string \<Rightarrow> (string \<times> string) option" where
  "str_body [] = None"
| "str_body (c # s) =
    (if c = quote_char then Some ([], s)
     else if c = backslash then
      (case s of
         [] \<Rightarrow> None
       | e # t \<Rightarrow>
          if e = CHR ''u'' then
           (case hex_escape t of
              None \<Rightarrow> None
            | Some (x, r) \<Rightarrow> map_option (apfst (Cons x)) (str_body r))
          else
           (case unescape e of
              None \<Rightarrow> None
            | Some x \<Rightarrow> map_option (apfst (Cons x)) (str_body t)))
     else if code_pt c < 32 then None
     else map_option (apfst (Cons c)) (str_body s))"
  by pat_completeness auto

termination
  by (relation "measure length") (auto dest: hex_escape_shorter)

text \<open>A number: the integer part, and whether a fraction or an exponent makes it a float.\<close>

definition digits_of :: "string \<Rightarrow> string \<times> string" where
  "digits_of s = (takeWhile is_dec s, dropWhile is_dec s)"

definition int_part :: "string \<Rightarrow> (string \<times> string) option" where
  "int_part s = (case s of
       [] \<Rightarrow> None
     | c # r \<Rightarrow> if c = CHR ''0'' then Some ([c], r) else if is_dec c then Some (digits_of s) else None)"

definition fraction :: "string \<Rightarrow> string \<times> string" where
  "fraction s = (case s of
       c # r \<Rightarrow> if c = CHR ''.'' \<and> r \<noteq> [] \<and> is_dec (hd r) then (c # fst (digits_of r), snd (digits_of r)) else ([], s)
     | [] \<Rightarrow> ([], s))"

definition exponent :: "string \<Rightarrow> string \<times> string" where
  "exponent s = (case s of
       c # r \<Rightarrow>
        (if c = CHR ''e'' \<or> c = CHR ''E'' then
          (let sign = (if r \<noteq> [] \<and> (hd r = CHR ''+'' \<or> hd r = CHR ''-'') then [hd r] else []); t = drop (length sign) r in
           if t \<noteq> [] \<and> is_dec (hd t) then (c # sign @ fst (digits_of t), snd (digits_of t)) else ([], s))
         else ([], s))
     | [] \<Rightarrow> ([], s))"

definition number :: "string \<Rightarrow> (jvalue \<times> string) option" where
  "number s =
    (let neg = (s \<noteq> [] \<and> hd s = CHR ''-''); t = (if neg then tl s else s) in
     case int_part t of
       None \<Rightarrow> None
     | Some (ds, r) \<Rightarrow>
        (let (frac, r) = fraction r; (ex, r) = exponent r in
         if frac = [] \<and> ex = [] then
           (if length ds > 4300 then None else Some (V_int ((if neg then -1 else 1) * int (dec_value ds)), r))
         else Some (V_float ((if neg then ''-'' else []) @ ds @ frac @ ex), r)))"

definition json_words :: "(string \<times> jvalue) list" where
  "json_words = [(''null'', V_null), (''true'', V_bool True), (''false'', V_bool False), (''NaN'', V_float ''NaN''),
     (''Infinity'', V_float ''Infinity''), (''-Infinity'', V_float ''-Infinity'')]"

definition json_word :: "string \<Rightarrow> (jvalue \<times> string) option" where
  "json_word s = (case filter (\<lambda>(w, v). prefix w s) json_words of
       [] \<Rightarrow> None | (w, v) # _ \<Rightarrow> Some (v, drop (length w) s))"

text \<open>The values, with fuel for the nesting and the length of the text.  A repeated key keeps its place and
  takes the last value.\<close>

fun read_value :: "nat \<Rightarrow> string \<Rightarrow> (jvalue \<times> string) option"
  and read_items :: "nat \<Rightarrow> string \<Rightarrow> (jvalue list \<times> string) option"
  and read_pairs :: "nat \<Rightarrow> (string \<times> jvalue) list \<Rightarrow> string \<Rightarrow> ((string \<times> jvalue) list \<times> string) option" where
  "read_value 0 s = None"
| "read_value (Suc n) s = (case s of
       [] \<Rightarrow> None
     | c # r \<Rightarrow>
        if c = quote_char then map_option (apfst V_str) (str_body r)
        else if c = CHR ''['' then
         (let r = skip_ws r in
          if r \<noteq> [] \<and> hd r = CHR '']'' then Some (V_list [], tl r) else map_option (apfst V_list) (read_items n r))
        else if c = CHR ''{'' then
         (let r = skip_ws r in
          if r \<noteq> [] \<and> hd r = CHR ''}'' then Some (V_dict [], tl r) else map_option (apfst V_dict) (read_pairs n [] r))
        else (case json_word s of Some p \<Rightarrow> Some p | None \<Rightarrow> number s))"
| "read_items 0 s = None"
| "read_items (Suc n) s = (case read_value n s of
       None \<Rightarrow> None
     | Some (v, r) \<Rightarrow> (case skip_ws r of
         [] \<Rightarrow> None
       | c # t \<Rightarrow>
          if c = CHR '']'' then Some ([v], t)
          else if c = CHR '','' then map_option (apfst (Cons v)) (read_items n (skip_ws t))
          else None))"
| "read_pairs 0 d s = None"
| "read_pairs (Suc n) d s = (case s of
       [] \<Rightarrow> None
     | q # r \<Rightarrow>
        if q \<noteq> quote_char then None
        else (case str_body r of
          None \<Rightarrow> None
        | Some (k, r) \<Rightarrow> (case skip_ws r of
            [] \<Rightarrow> None
          | c # t \<Rightarrow>
             if c \<noteq> CHR '':'' then None
             else (case read_value n (skip_ws t) of
               None \<Rightarrow> None
             | Some (v, r) \<Rightarrow> (case skip_ws r of
                 [] \<Rightarrow> None
               | c # t \<Rightarrow>
                  if c = CHR ''}'' then Some (AList.update k v d, t)
                  else if c = CHR '','' then read_pairs n (AList.update k v d) (skip_ws t)
                  else None)))))"

definition loads :: "string \<Rightarrow> jvalue option" where
  "loads s = (case read_value (2 * length s + 2) (skip_ws s) of
       Some (v, r) \<Rightarrow> if skip_ws r = [] then Some v else None
     | None \<Rightarrow> None)"

subsection \<open>What is written is read back\<close>

lemma hex_val_digit: "n < 16 \<Longrightarrow> hex_val (hex_digit n) = Some n"
  by (auto simp: hex_val_def hex_digit_def Let_def)

lemma short_escape_read:
  assumes "map_of short_escapes c = Some e"
  shows "unescape e = Some c" and "e \<noteq> CHR ''u''"
proof -
  have "(c, e) \<in> set short_escapes" using assms by (rule map_of_SomeD)
  then show "unescape e = Some c" "e \<noteq> CHR ''u''" by (auto simp: short_escapes_def unescape_def)
qed

lemma json_char_read: "str_body (json_char c @ t) = map_option (apfst (Cons c)) (str_body t)"
proof (cases "map_of short_escapes c")
  case (Some e)
  then show ?thesis using short_escape_read [OF Some] by (simp add: json_char_def)
next
  case None
  then have c: "c \<noteq> quote_char" "c \<noteq> backslash" by (auto simp: short_escapes_def)
  show ?thesis
  proof (cases "32 \<le> code_pt c \<and> code_pt c < 127")
    case True
    then show ?thesis using None c by (simp add: json_char_def)
  next
    case False
    have "hex_val (hex_digit (code_pt c div 16)) = Some (code_pt c div 16)"
      "hex_val (hex_digit (code_pt c mod 16)) = Some (code_pt c mod 16)"
      using code_pt_bound [of c] by (auto intro!: hex_val_digit)
    moreover have "hex_val (CHR ''0'') = Some 0" by (simp add: hex_val_def code_pt_def)
    moreover have "16 * (code_pt c div 16) + code_pt c mod 16 = code_pt c" by simp
    moreover have j: "json_char c = [backslash, CHR ''u'', CHR ''0'', CHR ''0'', hex_digit (code_pt c div 16), hex_digit (code_pt c mod 16)]"
      using None by (simp only: json_char_def option.case if_not_P [OF False])
    ultimately have "hex_escape (drop 2 (json_char c) @ t) = Some (c, t)"
      by (simp add: hex_escape_def)
    then show ?thesis by (simp add: j)
  qed
qed

lemma json_string_read: "str_body (concat (map json_char s) @ quote_char # r) = Some (s, r)"
  by (induction s) (simp_all add: json_char_read)

definition ends :: "string \<Rightarrow> bool" where
  "ends r \<longleftrightarrow> r = [] \<or> hd r \<in> {CHR '','', CHR '']'', CHR ''}''}"

lemma ends_more: "ends r \<Longrightarrow> fraction r = ([], r) \<and> exponent r = ([], r) \<and> (r \<noteq> [] \<longrightarrow> \<not> is_dec (hd r))"
proof (cases r)
  case Nil
  then show ?thesis by (simp add: fraction_def exponent_def)
next
  case (Cons c t)
  assume "ends r"
  then have c: "c = CHR '','' \<or> c = CHR '']'' \<or> c = CHR ''}''" using Cons by (simp add: ends_def)
  then have "c \<noteq> CHR ''.''" "c \<noteq> CHR ''e''" "c \<noteq> CHR ''E''" by auto
  moreover have "\<not> is_dec c" using c by (auto simp: is_dec_def code_pt_def)
  ultimately show ?thesis using Cons by (simp add: fraction_def exponent_def)
qed

lemma digits_of_append:
  "\<forall>c \<in> set ds. is_dec c \<Longrightarrow> r = [] \<or> \<not> is_dec (hd r) \<Longrightarrow> digits_of (ds @ r) = (ds, r)"
  by (cases r) (auto simp: digits_of_def takeWhile_append takeWhile_eq_all_conv dropWhile_append dropWhile_eq_Nil_conv)

lemma int_part_read: "ends r \<Longrightarrow> int_part (nat_text n @ r) = Some (nat_text n, r)"
proof (cases "n = 0")
  case True
  then show ?thesis by (simp add: int_part_def nat_text_zero)
next
  case False
  assume e: "ends r"
  obtain c ds where n: "nat_text n = c # ds" using nat_text_hd [of n] False by (cases "nat_text n") auto
  have "is_dec c" "c \<noteq> CHR ''0''" using nat_text_hd [of n] False n nat_text_dec [of c n] by auto
  moreover have "digits_of (nat_text n @ r) = (nat_text n, r)"
    using nat_text_dec ends_more [OF e] by (intro digits_of_append) auto
  ultimately show ?thesis using n by (simp add: int_part_def)
qed

lemma number_read:
  assumes "ends r" and "length (nat_text (nat \<bar>i\<bar>)) \<le> 4300"
  shows "number (int_text i @ r) = Some (V_int i, r)" and "json_word (int_text i @ r) = None"
    and "\<exists>c ds. int_text i = c # ds \<and> (c = CHR ''-'' \<or> is_dec c)"
proof -
  obtain c ds where n: "nat_text (nat \<bar>i\<bar>) = c # ds" "is_dec c" using nat_text_first by blast
  have not_minus: "c \<noteq> CHR ''-''" using n(2) by (auto simp: is_dec_def code_pt_def)
  have val: "dec_value (c # ds) = nat \<bar>i\<bar>" by (metis n(1) dec_value_nat_text)
  have int: "int_text i = (if i < 0 then CHR ''-'' # c # ds else c # ds)"
    using n(1) by (cases "i < 0") (simp_all add: int_text_def)
  then show "\<exists>c ds. int_text i = c # ds \<and> (c = CHR ''-'' \<or> is_dec c)" using n(2) by auto
  show "number (int_text i @ r) = Some (V_int i, r)"
    using int_part_read [OF assms(1), of "nat \<bar>i\<bar>"] ends_more [OF assms(1)] assms(2) n(1) not_minus val
    by (cases "i < 0") (simp_all add: number_def int)
  have word: "c \<noteq> CHR ''n''" "c \<noteq> CHR ''t''" "c \<noteq> CHR ''f''" "c \<noteq> CHR ''N''" "c \<noteq> CHR ''I''"
    using n(2) by (auto simp: is_dec_def code_pt_def)
  show "json_word (int_text i @ r) = None"
    using word not_minus by (cases "i < 0") (simp_all add: json_word_def json_words_def int)
qed

text \<open>The values whose text is read back: no floats, integers within the limit of \<open>int\<close>, keys without repetition.\<close>

fun plain :: "jvalue \<Rightarrow> bool" where
  "plain (V_int i) = (length (nat_text (nat \<bar>i\<bar>)) \<le> 4300)"
| "plain (V_float t) = False"
| "plain (V_list vs) = list_all plain vs"
| "plain (V_dict d) = (distinct (map fst d) \<and> list_all (\<lambda>(k, v). plain v) d)"
| "plain v = True"

definition starts :: "string \<Rightarrow> bool" where
  "starts s \<longleftrightarrow> s \<noteq> [] \<and> \<not> is_ws (hd s) \<and> hd s \<noteq> CHR '']'' \<and> hd s \<noteq> CHR ''}''"

lemma starts_char: "is_dec c \<Longrightarrow> \<not> is_ws c \<and> c \<noteq> CHR '']'' \<and> c \<noteq> CHR ''}'' \<and> c \<noteq> quote_char \<and> c \<noteq> CHR ''['' \<and> c \<noteq> CHR ''{''"
  by (auto simp: is_dec_def is_ws_def code_pt_def)

lemma dumps_starts: "plain v \<Longrightarrow> starts (dumps v)"
proof (cases v)
  case (V_int i)
  assume "plain v"
  then obtain c ds where "int_text i = c # ds" "c = CHR ''-'' \<or> is_dec c"
    using number_read(3) [of "[]" i] V_int by (auto simp: ends_def)
  then show ?thesis using V_int starts_char [of c] by (auto simp: starts_def is_ws_def code_pt_def)
qed (auto simp: starts_def is_ws_def code_pt_def json_string_def)

lemma skip_starts: "starts s \<Longrightarrow> skip_ws (s @ r) = s @ r" "starts s \<Longrightarrow> skip_ws (CHR '' '' # s @ r) = s @ r"
  by (cases s; simp add: starts_def skip_ws_def is_ws_def code_pt_def)+

lemma skip_punct [simp]: "skip_ws (CHR '','' # r) = CHR '','' # r" "skip_ws (CHR '']'' # r) = CHR '']'' # r"
  "skip_ws (CHR ''}'' # r) = CHR ''}'' # r" "skip_ws (CHR '':'' # r) = CHR '':'' # r" "skip_ws (quote_char # r) = quote_char # r"
  "skip_ws (CHR '' '' # quote_char # r) = quote_char # r"
  by (simp_all add: skip_ws_def is_ws_def code_pt_def)

definition reads :: "jvalue \<Rightarrow> bool" where
  "reads v \<longleftrightarrow> (\<forall>k r. length (dumps v) \<le> k \<longrightarrow> ends r \<longrightarrow> read_value k (dumps v @ r) = Some (v, r))"

lemma join_items_Cons: "join_items (s # ss) = s @ (if ss = [] then [] else '', '' @ join_items ss)"
  by (cases ss) simp_all

lemma read_items_back:
  assumes "vs \<noteq> []" and "list_all plain vs" and "\<And>v. v \<in> set vs \<Longrightarrow> reads v"
    and "length (join_items (map dumps vs)) < k"
  shows "read_items k (join_items (map dumps vs) @ CHR '']'' # r) = Some (vs, r)"
  using assms
proof (induction vs arbitrary: k)
  case Nil
  then show ?case by simp
next
  case (Cons v vs)
  obtain n where k: "k = Suc n" using Cons.prems(4) by (cases k) auto
  have v: "reads v" "plain v" using Cons.prems by auto
  show ?case
  proof (cases "vs = []")
    case True
    then show ?thesis using v k Cons.prems(4) by (simp add: reads_def ends_def)
  next
    case False
    let ?rest = "join_items (map dumps vs)"
    obtain w ws where w: "vs = w # ws" using False by (cases vs) auto
    then have "starts (dumps w)" using Cons.prems(2) dumps_starts by simp
    then have "starts ?rest" using w by (auto simp: join_items_Cons starts_def)
    then have skip: "skip_ws (CHR '' '' # ?rest @ CHR '']'' # r) = ?rest @ CHR '']'' # r" by (rule skip_starts(2))
    have "read_value n (dumps v @ CHR '','' # CHR '' '' # ?rest @ CHR '']'' # r) = Some (v, CHR '','' # CHR '' '' # ?rest @ CHR '']'' # r)"
      using v Cons.prems(4) k False by (simp add: reads_def ends_def join_items_Cons)
    moreover have "read_items n (?rest @ CHR '']'' # r) = Some (vs, r)"
      using Cons.prems k False by (intro Cons.IH) (auto simp: join_items_Cons)
    ultimately show ?thesis using False k skip by (simp add: join_items_Cons)
  qed
qed

definition pair_text :: "string \<times> jvalue \<Rightarrow> string" where
  "pair_text = (\<lambda>(k, v). json_string k @ '': '' @ dumps v)"

lemma read_pairs_back:
  assumes "ps \<noteq> []" and "list_all (\<lambda>(k, v). plain v) ps" and "\<And>k v. (k, v) \<in> set ps \<Longrightarrow> reads v"
    and "length (join_items (map pair_text ps)) < n" and "distinct (map fst (d @ ps))"
  shows "read_pairs n d (join_items (map pair_text ps) @ CHR ''}'' # r) = Some (d @ ps, r)"
  using assms
proof (induction ps arbitrary: n d)
  case Nil
  then show ?case by simp
next
  case (Cons p ps)
  obtain k v where p: "p = (k, v)" by fastforce
  obtain m where n: "n = Suc m" using Cons.prems(4) by (cases n) auto
  have v: "reads v" "plain v" using Cons.prems p by auto
  have upd: "AList.update k v d = d @ [p]" using Cons.prems(5) p by (induction d) auto
  have start: "starts (dumps v)" using dumps_starts v by blast
  show ?case
  proof (cases "ps = []")
    case True
    have "read_value m (dumps v @ CHR ''}'' # r) = Some (v, CHR ''}'' # r)"
      using v Cons.prems(4) n True by (simp add: reads_def ends_def pair_text_def p)
    then show ?thesis using True n upd skip_starts(2) [OF start, of "CHR ''}'' # r"]
      by (simp add: pair_text_def p json_string_def json_string_read)
  next
    case False
    let ?rest = "join_items (map pair_text ps)"
    obtain q qs where "ps = q # qs" using False by (cases ps) auto
    then have "\<exists>t. ?rest = quote_char # t" by (cases q) (auto simp: join_items_Cons pair_text_def json_string_def)
    then have skip: "skip_ws (CHR '' '' # ?rest @ CHR ''}'' # r) = ?rest @ CHR ''}'' # r" by auto
    have "read_value m (dumps v @ CHR '','' # CHR '' '' # ?rest @ CHR ''}'' # r) = Some (v, CHR '','' # CHR '' '' # ?rest @ CHR ''}'' # r)"
      using v Cons.prems(4) n False by (simp add: reads_def ends_def join_items_Cons pair_text_def p)
    moreover have "read_pairs m (d @ [p]) (?rest @ CHR ''}'' # r) = Some ((d @ [p]) @ ps, r)"
      using Cons.prems n False by (intro Cons.IH) (auto simp: join_items_Cons)
    ultimately show ?thesis using False n upd skip skip_starts(2) [OF start]
      by (simp add: join_items_Cons pair_text_def p json_string_def json_string_read)
  qed
qed

lemma dumps_dict: "dumps (V_dict d) = CHR ''{'' # join_items (map pair_text d) @ ''}''"
  by (simp add: pair_text_def)

lemma plain_reads: "plain v \<Longrightarrow> reads v"
proof (induction v rule: plain.induct)
  case (1 i)
  show ?case unfolding reads_def
  proof (intro allI impI)
    fix k r assume k: "length (dumps (V_int i)) \<le> k" and r: "ends r"
    have l: "length (nat_text (nat \<bar>i\<bar>)) \<le> 4300" using 1 by simp
    obtain c ds where c: "int_text i = c # ds" "c = CHR ''-'' \<or> is_dec c" using number_read(3) [OF r l] by blast
    then have "c \<noteq> quote_char" "c \<noteq> CHR ''[''" "c \<noteq> CHR ''{''" using starts_char [of c] by auto
    moreover obtain m where "k = Suc m" using k c by (cases k) auto
    ultimately show "read_value k (dumps (V_int i) @ r) = Some (V_int i, r)"
      using number_read(1,2) [OF r l] c(1) by simp
  qed
next
  case (3 vs)
  show ?case unfolding reads_def
  proof (intro allI impI)
    fix k r assume k: "length (dumps (V_list vs)) \<le> k"
    then obtain m where m: "k = Suc m" by (cases k) auto
    show "read_value k (dumps (V_list vs) @ r) = Some (V_list vs, r)"
    proof (cases vs)
      case Nil
      then show ?thesis using m by simp
    next
      case (Cons w ws)
      then have "starts (dumps w)" using 3(2) dumps_starts by simp
      then have s: "starts (join_items (map dumps vs))" using Cons by (auto simp: join_items_Cons starts_def)
      then have "skip_ws (join_items (map dumps vs) @ CHR '']'' # r) = join_items (map dumps vs) @ CHR '']'' # r"
        by (rule skip_starts(1))
      moreover have "read_items m (join_items (map dumps vs) @ CHR '']'' # r) = Some (vs, r)"
        using 3 Cons k m by (intro read_items_back) (auto simp: list_all_iff)
      ultimately show ?thesis using m s by (simp add: starts_def)
    qed
  qed
next
  case (4 d)
  have rd: "reads v" if "(k, v) \<in> set d" for k v
    using 4(1) [of "(k, v)" k v] 4(2) that by (auto simp: list_all_iff)
  show ?case unfolding reads_def
  proof (intro allI impI)
    fix k r assume k: "length (dumps (V_dict d)) \<le> k"
    then obtain m where m: "k = Suc m" by (cases k) auto
    show "read_value k (dumps (V_dict d) @ r) = Some (V_dict d, r)"
    proof (cases d)
      case Nil
      then show ?thesis using m by simp
    next
      case (Cons p ps)
      then have "\<exists>t. join_items (map pair_text d) = quote_char # t"
        by (cases p) (auto simp: join_items_Cons pair_text_def json_string_def)
      then obtain t where t: "join_items (map pair_text d) = quote_char # t" by blast
      have "read_pairs m [] (join_items (map pair_text d) @ CHR ''}'' # r) = Some ([] @ d, r)"
        using 4(2) Cons k m rd by (intro read_pairs_back) (auto simp: dumps_dict simp del: dumps.simps)
      then show ?thesis using m t by (simp add: dumps_dict del: dumps.simps)
    qed
  qed
qed (auto simp: reads_def json_string_def json_string_read json_word_def json_words_def dest!: Suc_le_D)

text \<open>What \<open>json.dumps\<close> writes \<open>json.loads\<close> reads back, for every value without floats: escapes, nesting and order
  of the keys included.\<close>

theorem loads_dumps:
  assumes "plain v"
  shows "loads (dumps v) = Some v"
proof -
  have "read_value (2 * length (dumps v) + 2) (dumps v @ []) = Some (v, [])"
    by (rule plain_reads [OF assms, unfolded reads_def, rule_format]) (simp_all add: ends_def)
  moreover have "skip_ws (dumps v) = dumps v" using skip_starts(1) [OF dumps_starts [OF assms], of "[]"] by simp
  ultimately show ?thesis by (simp add: loads_def skip_ws_def del: read_value.simps)
qed

definition sample_value :: jvalue where
  "sample_value = V_dict [(''a'', V_list [V_int (-12), V_str [CHR 0x22, CHR 0x0A, CHR 0xE9], V_null]), (''b'', V_bool True)]"

theorem loads_dumps_witness: "loads (dumps sample_value) = Some sample_value \<and> length (dumps sample_value) = 43"
proof -
  have "plain sample_value" by code_simp
  moreover have "length (dumps sample_value) = 43" by code_simp
  ultimately show ?thesis using loads_dumps by blast
qed

subsection \<open>The fuel bounds nothing\<close>

lemma skip_ws_le: "length (skip_ws s) \<le> length s"
  by (simp add: skip_ws_def length_dropWhile_le)

lemma str_body_le: "str_body s = Some (t, r) \<Longrightarrow> length r < length s"
  by (induction s arbitrary: t r rule: str_body.induct)
    (auto split: if_splits list.splits option.splits dest!: hex_escape_shorter intro: less_SucI less_trans, fastforce)

lemma digits_le: "length (snd (digits_of s)) \<le> length s"
  by (simp add: digits_of_def length_dropWhile_le)

lemma number_le: "number s = Some (v, r) \<Longrightarrow> length r \<le> length s"
proof -
  assume n: "number s = Some (v, r)"
  define t where "t = (if s \<noteq> [] \<and> hd s = CHR ''-'' then tl s else s)"
  have t: "length t \<le> length s" by (auto simp: t_def)
  obtain ds u where u: "int_part t = Some (ds, u)" using n by (auto simp: number_def t_def Let_def split: option.splits)
  have "length u \<le> length t" using u digits_le [of t] by (auto simp: int_part_def split: list.splits if_splits)
  moreover have "length (snd (fraction w)) \<le> length w" for w
    using digits_le [of "tl w"] by (cases w) (auto simp: fraction_def)
  moreover have "length (snd (exponent w)) \<le> length w" for w
  proof (cases w)
    case (Cons c x)
    have "length (snd (digits_of (drop n x))) \<le> length w" for n
      using digits_le [of "drop n x"] Cons by simp
    then show ?thesis using Cons by (simp add: exponent_def Let_def)
  qed (simp add: exponent_def)
  moreover have "r = snd (exponent (snd (fraction u)))"
    using n u by (auto simp: number_def t_def Let_def split: prod.splits if_splits)
  ultimately show ?thesis using t by (metis le_trans)
qed

lemma read_le:
  "read_value n s = Some (v, r) \<Longrightarrow> length r \<le> length s"
  "read_items n s = Some (vs, r) \<Longrightarrow> length r \<le> length s"
  "read_pairs n d s = Some (d', r) \<Longrightarrow> length r \<le> length s"
proof (induction n s and n s and n d s arbitrary: v r and vs r and d' r rule: read_value_read_items_read_pairs.induct)
  case (2 n s)
  show ?case
  proof (cases s)
    case (Cons c t)
    have w: "length x \<le> length s" if "json_word s = Some (y, x)" for x y
      using that by (auto simp: json_word_def split: list.splits)
    show ?thesis
      using 2 Cons skip_ws_le [of t] number_le [of s v r] w [of v r] str_body_le [of t]
      by (auto simp: Let_def split: if_splits option.splits) (fastforce | (metis le_SucI le_trans tl_Nil length_tl diff_le_self))+
  qed (use 2 in simp)
next
  case (4 n s)
  obtain w r1 where w: "read_value n s = Some (w, r1)" using 4(3) by (cases "read_value n s") auto
  then have l: "length r1 \<le> length s" using 4(1) by blast
  obtain c t where c: "skip_ws r1 = c # t" using 4(3) w by (cases "skip_ws r1") auto
  then have t: "length t < length s" using skip_ws_le [of r1] l by simp
  show ?case
  proof (cases "c = CHR '']''")
    case True
    then show ?thesis using 4(3) w c t by simp
  next
    case False
    then obtain ws where "read_items n (skip_ws t) = Some (ws, r)" using 4(3) w c by (auto split: if_splits)
    then have "length r \<le> length (skip_ws t)" using 4(2) [OF w] c False 4(3) w by (auto split: if_splits)
    then show ?thesis using t skip_ws_le [of t] by simp
  qed
next
  case (6 n d s)
  obtain q x where s: "s = q # x" "q = quote_char" using 6(3) by (cases s) (auto split: if_splits)
  obtain k r1 where k: "str_body x = Some (k, r1)" using 6(3) s by (cases "str_body x") auto
  obtain c t where c: "skip_ws r1 = c # t" "c = CHR '':''" using 6(3) s k by (cases "skip_ws r1") (auto split: if_splits)
  obtain w r2 where w: "read_value n (skip_ws t) = Some (w, r2)" using 6(3) s k c by (cases "read_value n (skip_ws t)") auto
  obtain c2 t2 where c2: "skip_ws r2 = c2 # t2" using 6(3) s k c w by (cases "skip_ws r2") auto
  have "length r2 \<le> length (skip_ws t)" using 6(1) s k c w by blast
  then have t2: "length t2 < length s"
    using skip_ws_le [of t] skip_ws_le [of r2] skip_ws_le [of r1] str_body_le [OF k] c c2 s by simp
  show ?case
  proof (cases "c2 = CHR ''}''")
    case True
    then show ?thesis using 6(3) s k c w c2 t2 by simp
  next
    case False
    then have c3: "c2 = CHR '',''" and rest: "read_pairs n (AList.update k w d) (skip_ws t2) = Some (d', r)"
      using 6(3) s k c w c2 by (auto split: if_splits)
    then have "length r \<le> length (skip_ws t2)" using 6(2) s k c w c2 False by blast
    then show ?thesis using t2 skip_ws_le [of t2] by simp
  qed
qed simp_all

text \<open>Any two amounts of fuel that are enough give the same.\<close>

lemma enough_value:
  assumes "\<And>t. length t < length s \<Longrightarrow> read_items n t = read_items m t"
    and "\<And>t d. length t < length s \<Longrightarrow> read_pairs n d t = read_pairs m d t"
  shows "read_value (Suc n) s = read_value (Suc m) s"
proof (cases s)
  case (Cons c r)
  then have "length (skip_ws r) < length s" using skip_ws_le [of r] by simp
  then show ?thesis using assms Cons by (simp add: Let_def)
qed simp

lemma enough_items:
  assumes "read_value n s = read_value m s" and "\<And>t. length t < length s \<Longrightarrow> read_items n t = read_items m t"
  shows "read_items (Suc n) s = read_items (Suc m) s"
proof (cases "read_value m s")
  case (Some p)
  obtain v r where p: "p = (v, r)" by fastforce
  have "length r \<le> length s" using read_le(1) Some p by blast
  then have "length (skip_ws t) < length s" if "skip_ws r = c # t" for c t
    using that skip_ws_le [of r] skip_ws_le [of t] by simp
  then show ?thesis using assms Some p by (auto split: list.split)
qed (use assms in simp)

lemma enough_pairs:
  assumes "\<And>t. length t < length s \<Longrightarrow> read_value n t = read_value m t"
    and "\<And>t d. length t < length s \<Longrightarrow> read_pairs n d t = read_pairs m d t"
  shows "read_pairs (Suc n) d s = read_pairs (Suc m) d s"
proof (cases s)
  case (Cons q x)
  have first: "length (skip_ws t) < length s" if "str_body x = Some (k, r)" "skip_ws r = c # t" for k r c t
    using that skip_ws_le [of r] skip_ws_le [of t] str_body_le [of x k r] Cons by simp
  have second: "length (skip_ws t2) < length s"
    if "str_body x = Some (k, r)" "skip_ws r = c # t" "read_value m (skip_ws t) = Some (v, r2)" "skip_ws r2 = c2 # t2"
    for k r c t v r2 c2 t2
    using first [OF that(1,2)] read_le(1) [OF that(3)] that(4) skip_ws_le [of r2] skip_ws_le [of t2] by simp
  show ?thesis
  proof (cases "str_body x")
    case (Some p)
    obtain k r where p: "p = (k, r)" by fastforce
    show ?thesis
    proof (cases "skip_ws r")
      case (Cons c t)
      have v: "read_value n (skip_ws t) = read_value m (skip_ws t)" using assms(1) first Some p Cons by blast
      show ?thesis using second [of k r c t] assms(2) v Some p Cons \<open>s = q # x\<close>
        by (auto split: option.split list.split)
    qed (use Some p \<open>s = q # x\<close> in simp)
  qed (use Cons in simp)
qed simp

lemmas read_steps = read_value.simps read_items.simps read_pairs.simps

lemma fuel_enough:
  "2 * length s < n \<Longrightarrow> 2 * length s < m \<Longrightarrow> read_value n s = read_value m s"
  "2 * length s + 1 < n \<Longrightarrow> 2 * length s + 1 < m \<Longrightarrow> read_items n s = read_items m s"
  "2 * length s + 1 < n \<Longrightarrow> 2 * length s + 1 < m \<Longrightarrow> read_pairs n d s = read_pairs m d s"
proof (induction "length s" arbitrary: s n m d rule: less_induct)
  case less
  have v: "read_value n s = read_value m s" if a: "2 * length s < n" "2 * length s < m" for n m
  proof -
    obtain n' m' where "n = Suc n'" "m = Suc m'" using a by (cases n; cases m) auto
    then show ?thesis using a less.hyps by (auto intro!: enough_value simp del: read_steps)
  qed
  { case 1 then show ?case by (rule v) next
    case 2
    then obtain n' m' where "n = Suc n'" "m = Suc m'" by (cases n; cases m) auto
    then show ?case using 2 less.hyps by (auto intro!: enough_items v simp del: read_steps) next
    case 3
    then obtain n' m' where "n = Suc n'" "m = Suc m'" by (cases n; cases m) auto
    then show ?case using 3 less.hyps by (auto intro!: enough_pairs simp del: read_steps) }
qed

text \<open>The fuel of the reader bounds nothing: more of it reads the same, for every text.\<close>

theorem loads_fuel:
  "(case read_value (2 * length s + 2 + more) (skip_ws s) of
      Some (v, r) \<Rightarrow> if skip_ws r = [] then Some v else None
    | None \<Rightarrow> None) = loads s"
proof -
  have "read_value (2 * length s + 2 + more) (skip_ws s) = read_value (2 * length s + 2) (skip_ws s)"
    using skip_ws_le [of s] by (intro fuel_enough(1)) simp_all
  then show ?thesis by (simp only: loads_def)
qed

end
