(* ===== verification/LogText.thy ===== *)
theory LogText
  imports Prelude
begin

text \<open>
  How a log row is written (\<open>_log_text\<close>, \<open>_csv_row\<close>): texts are lists of code points.  The escape keeps
  what comes off the wire harmless and readable; the row is one CSV line.
\<close>

type_synonym cps = "nat list"

subsection \<open>Escaping\<close>

definition utf8_cp :: "nat \<Rightarrow> nat list" where
  "utf8_cp c =
    (if c < 0x80 then [c]
     else if c < 0x800 then [0xC0 + c div 64, 0x80 + c mod 64]
     else if c < 0x10000 then [0xE0 + c div 4096, 0x80 + c div 64 mod 64, 0x80 + c mod 64]
     else [0xF0 + c div 262144, 0x80 + c div 4096 mod 64, 0x80 + c div 64 mod 64, 0x80 + c mod 64])"

definition escaped_cp :: "nat \<Rightarrow> bool" where
  "escaped_cp c \<longleftrightarrow> (c < 0x20 \<or> c \<in> {0x22, 0x26, 0x27, 0x3C, 0x3E, 0x5C, 0x7F} \<or> 0x80 \<le> c \<and> c < 0xA0
     \<or> c \<in> {0x061C, 0x200B, 0x200E, 0x200F, 0x2028, 0x2029} \<or> 0x202A \<le> c \<and> c < 0x202F \<or> 0x2066 \<le> c \<and> c < 0x206A)
     \<and> c \<noteq> 0x0A \<and> c \<noteq> 0x0D"

definition ddd :: "nat \<Rightarrow> cps" where
  "ddd b = [0x5C, 48 + b div 100, 48 + b div 10 mod 10, 48 + b mod 10]"

definition escape_cp :: "nat \<Rightarrow> cps" where
  "escape_cp c = (if escaped_cp c then concat (map ddd (if c < 0x100 then [c] else utf8_cp c)) else [c])"

definition log_text :: "cps \<Rightarrow> cps" where
  "log_text v = concat (map escape_cp v)"

subsection \<open>Rows\<close>

definition cr :: nat where "cr = 0x0D"
definition lf :: nat where "lf = 0x0A"
definition comma :: nat where "comma = 0x2C"
definition dquote :: nat where "dquote = 0x22"

text \<open>The three \<open>replace\<close> calls: every CRLF, then every CR, then every LF becomes a space.\<close>

primrec breaks :: "cps \<Rightarrow> bool \<Rightarrow> cps" where
  "breaks [] after_cr = []"
| "breaks (c # s) after_cr =
    (if c = cr then 0x20 # breaks s True
     else if c = lf then (if after_cr then breaks s False else 0x20 # breaks s False)
     else c # breaks s False)"

definition fold_breaks :: "cps \<Rightarrow> cps" where
  "fold_breaks s = breaks s False"

text \<open>\<open>csv.writer\<close> in the excel dialect, which also quotes an empty field that is alone.\<close>

definition csv_field :: "cps \<Rightarrow> cps" where
  "csv_field f =
    (if comma \<in> set f \<or> dquote \<in> set f \<or> cr \<in> set f \<or> lf \<in> set f
     then dquote # concat (map (\<lambda>c. if c = dquote then [dquote, dquote] else [c]) f) @ [dquote] else f)"

fun csv_join :: "cps list \<Rightarrow> cps" where
  "csv_join [] = []"
| "csv_join [f] = f"
| "csv_join (f # fs) = f @ comma # csv_join fs"

definition csv_row :: "cps list \<Rightarrow> cps" where
  "csv_row fields = (let fs = map fold_breaks fields in
     if fs = [[]] then [dquote, dquote] else csv_join (map csv_field fs))"

subsection \<open>Reading a row back\<close>

text \<open>The escape read back: the number after a backslash is a code point below \<open>0xC0\<close>, else the first
  octet of two or three.\<close>

definition ddd_value :: "cps \<Rightarrow> nat" where
  "ddd_value s = 100 * (s ! 0 - 48) + 10 * (s ! 1 - 48) + (s ! 2 - 48)"

function log_read :: "cps \<Rightarrow> cps" where
  "log_read [] = []"
| "log_read (c # s) =
    (if c \<noteq> 0x5C then c # log_read s
     else
      (let b = ddd_value s in
       if b < 0xC0 then b # log_read (drop 3 s)
       else if b < 0xE0 then (64 * (b - 0xC0) + (ddd_value (drop 4 s) - 0x80)) # log_read (drop 7 s)
       else (4096 * (b - 0xE0) + 64 * (ddd_value (drop 4 s) - 0x80) + (ddd_value (drop 8 s) - 0x80))
         # log_read (drop 11 s)))"
  by pat_completeness auto

termination by (relation "measure length") auto

text \<open>The grammar of the readers: RFC 4180 with doubled quotes and no escape character.\<close>

datatype csv_state = Field_start | Bare | Quoted | Quote_seen

primrec csv_run :: "cps \<Rightarrow> csv_state \<Rightarrow> cps \<Rightarrow> cps list" where
  "csv_run [] st cur = [cur]"
| "csv_run (c # s) st cur = (case st of
       Field_start \<Rightarrow> if c = dquote then csv_run s Quoted cur
         else if c = comma then cur # csv_run s Field_start [] else csv_run s Bare (cur @ [c])
     | Bare \<Rightarrow> if c = comma then cur # csv_run s Field_start [] else csv_run s Bare (cur @ [c])
     | Quoted \<Rightarrow> if c = dquote then csv_run s Quote_seen cur else csv_run s Quoted (cur @ [c])
     | Quote_seen \<Rightarrow> if c = dquote then csv_run s Quoted (cur @ [dquote])
         else if c = comma then cur # csv_run s Field_start [] else csv_run s Bare (cur @ [c]))"

definition csv_read :: "cps \<Rightarrow> cps list" where
  "csv_read line = csv_run line Field_start []"

lemma bare_run: "comma \<notin> set f \<Longrightarrow> csv_run (f @ rest) Bare cur = csv_run rest Bare (cur @ f)"
  by (induction f arbitrary: cur) auto

lemma quoted_run:
  "csv_run (concat (map (\<lambda>c. if c = dquote then [dquote, dquote] else [c]) f) @ dquote # rest) Quoted cur
    = csv_run rest Quote_seen (cur @ f)"
  by (induction f arbitrary: cur) auto

text \<open>After a field, the reader is at its end, whatever the field was.\<close>

lemma field_run:
  assumes "rest = [] \<or> (\<exists>s. rest = comma # s)"
  shows "csv_run (csv_field f @ rest) Field_start [] = csv_run rest Bare f"
proof (cases "comma \<in> set f \<or> dquote \<in> set f \<or> cr \<in> set f \<or> lf \<in> set f")
  case True
  have "csv_run (csv_field f @ rest) Field_start [] = csv_run rest Quote_seen f"
    using quoted_run [of f rest "[]"] True by (simp add: csv_field_def)
  also have "\<dots> = csv_run rest Bare f" using assms by (auto simp: comma_def dquote_def)
  finally show ?thesis .
next
  case False
  then have e: "csv_field f = f" by (simp add: csv_field_def)
  show ?thesis
  proof (cases f)
    case Nil
    then show ?thesis using e assms by (auto simp: comma_def dquote_def)
  next
    case (Cons c g)
    then show ?thesis using False bare_run [of g rest "[c]"] e by auto
  qed
qed

lemma join_run: "fs \<noteq> [] \<Longrightarrow> csv_run (csv_join (map csv_field fs)) Field_start [] = fs"
proof (induction fs rule: csv_join.induct)
  case (2 f)
  then show ?case using field_run [of "[]" f] by simp
next
  case (3 f g fs)
  then show ?case using field_run [of "comma # csv_join (map csv_field (g # fs))" f] by simp
qed simp

lemma breaks_clean: "cr \<notin> set (breaks s b)" "lf \<notin> set (breaks s b)"
  by (induction s arbitrary: b) (auto simp: cr_def lf_def)

lemma csv_field_set: "set (csv_field f) \<subseteq> set f \<union> {dquote}"
  by (auto simp: csv_field_def)

lemma csv_join_set: "set (csv_join fs) \<subseteq> insert comma (\<Union> (set ` set fs))"
  by (induction fs rule: csv_join.induct) auto

lemma csv_row_back:
  "csv_read (csv_row (f # fs)) = map fold_breaks (f # fs) \<and> set (csv_row (f # fs)) \<inter> {cr, lf} = {}"
proof
  let ?fs = "map fold_breaks (f # fs)"
  show "csv_read (csv_row (f # fs)) = ?fs"
  proof (cases "?fs = [[]]")
    case True
    then show ?thesis by (simp add: csv_row_def csv_read_def)
  next
    case False
    then have "csv_row (f # fs) = csv_join (map csv_field ?fs)" by (simp only: csv_row_def Let_def if_False)
    then show ?thesis using join_run [of ?fs] by (simp add: csv_read_def)
  qed
  have "set (csv_join (map csv_field ?fs)) \<subseteq> insert comma (insert dquote (\<Union> (set ` set ?fs)))"
    using csv_join_set [of "map csv_field ?fs"] csv_field_set by fastforce
  moreover have "(\<Union> (set ` set ?fs)) \<inter> {cr, lf} = {}"
    using breaks_clean by (auto simp: fold_breaks_def)
  ultimately have "set (csv_join (map csv_field ?fs)) \<inter> {cr, lf} = {}" by (auto simp: comma_def dquote_def cr_def lf_def)
  then show "set (csv_row (f # fs)) \<inter> {cr, lf} = {}" by (auto simp: csv_row_def Let_def dquote_def cr_def lf_def)
qed

text \<open>C34. A log row is always one physical line, and a CSV reader gets its fields back exactly, apart from line breaks,
  which were folded into spaces: no field, whatever the client or the upstream put into it, can shift a column or
  forge a row.\<close>

theorem csv_row_reads_back:
  "csv_read (csv_row (f # fs)) = map fold_breaks (f # fs) \<and> set (csv_row (f # fs)) \<inter> {cr, lf} = {}"
  by (rule csv_row_back)

lemma digits_value: "b < 1000 \<Longrightarrow> 100 * (b div 100) + 10 * (b div 10 mod 10) + b mod 10 = (b :: nat)"
proof -
  have "b = 10 * (b div 10) + b mod 10" "b div 10 = 10 * (b div 10 div 10) + b div 10 mod 10" by simp_all
  moreover have "b div 10 div 10 = b div 100" by (simp add: div_mult2_eq [symmetric])
  ultimately show ?thesis by linarith
qed

lemma ddd_read: "b < 1000 \<Longrightarrow> ddd_value (drop 1 (ddd b) @ s) = b"
  by (simp add: ddd_def ddd_value_def digits_value)

lemma ddd_parts: "ddd b = 0x5C # drop 1 (ddd b)" "length (drop 1 (ddd b)) = 3"
  by (simp_all add: ddd_def)

lemma ddd_skip: "drop 3 (drop 1 (ddd b) @ s) = s" "drop 4 (drop 1 (ddd b) @ ddd b' @ s) = drop 1 (ddd b') @ s"
  "drop 7 (drop 1 (ddd b) @ ddd b' @ s) = s" "drop 8 (drop 1 (ddd b) @ ddd b' @ ddd b'' @ s) = drop 1 (ddd b'') @ s"
  "drop 11 (drop 1 (ddd b) @ ddd b' @ ddd b'' @ s) = s"
  by (simp_all add: ddd_def)

lemma read_escape_cp: "log_read (escape_cp c @ s) = c # log_read s"
proof (cases "escaped_cp c")
  case False
  then have "c \<noteq> 0x5C" by (auto simp: escaped_cp_def)
  then show ?thesis using False by (simp add: escape_cp_def)
next
  case esc: True
  consider "c < 0xA0" | "c = 0x061C" | "0x2000 \<le> c" "c < 0x2080" using esc by (auto simp: escaped_cp_def)
  then show ?thesis
  proof cases
    case 1
    then have "escape_cp c = ddd c" using esc by (simp add: escape_cp_def)
    then have "log_read (escape_cp c @ s) = log_read (0x5C # drop 1 (ddd c) @ s)" using ddd_parts(1) [of c] by (metis append_Cons)
    then show ?thesis using 1 ddd_read [of c s] ddd_skip(1) by (simp add: Let_def)
  next
    case 2
    then have "escape_cp c = ddd 0xD8 @ ddd 0x9C" using esc by (simp add: escape_cp_def utf8_cp_def)
    then show ?thesis using 2 by (simp add: ddd_def ddd_value_def)
  next
    case 3
    let ?a = "0xE0 + c div 4096" and ?b = "0x80 + c div 64 mod 64" and ?d = "0x80 + c mod 64"
    have a: "c div 4096 = 2" using 3 by (simp add: div_eq_dividend_iff)
    have bd: "?b < 1000" "?d < 1000" by (simp_all add: trans_less_add1 mod_less_divisor)
    have v: "4096 * 2 + 64 * (c div 64 mod 64) + c mod 64 = c"
    proof -
      have "c = 64 * (c div 64) + c mod 64" "c div 64 = 64 * (c div 64 div 64) + c div 64 mod 64" by simp_all
      moreover have "c div 64 div 64 = 2" using a by (simp add: div_mult2_eq [symmetric])
      ultimately show ?thesis by linarith
    qed
    have "escape_cp c = ddd ?a @ ddd ?b @ ddd ?d" using esc 3 by (simp add: escape_cp_def utf8_cp_def)
    then have e: "escape_cp c @ s = 0x5C # drop 1 (ddd ?a) @ ddd ?b @ ddd ?d @ s" using ddd_parts(1) [of ?a] by (metis append_Cons append.assoc)
    have r: "ddd_value (drop 1 (ddd ?a) @ x) = 0xE2" for x using ddd_read [of ?a x] a by simp
    show ?thesis
      unfolding e log_read.simps(2) Let_def r ddd_skip ddd_read [OF bd(1)] ddd_read [OF bd(2)] using v by simp
  qed
qed


end
