(* ===== verification/Reply.thy ===== *)
theory Reply
  imports LogText Shim Frontend
begin

unbundle bit_operations_syntax

text \<open>
  The rows of the logs: the block rows of \<open>operate\<close> as lines, the reply row \<open>get_details_reply\<close> and the
  callbacks that write it, the upstream blocks of \<open>inplace_cb_query_response\<close>, and the reply log of
  the proxy without a module (\<open>dns_reply_log.py\<close>).  A log is the list of its lines; the timestamp, the
  clock and the GeoIP database are inputs.
\<close>

subsection \<open>Settings and logs\<close>

text \<open>\<open>ip_address\<close> of a text that is one, and the database entry of an address: whether it has a country
  or a continent, and their codes.\<close>

record ip_facts =
  ip_private :: bool
  ip_loopback :: bool

record geo =
  geo_country :: "string option option"
  geo_continent :: "string option option"

record reply_env =
  re_python_reply :: bool
  re_resolver_con :: bool
  re_dnsbl_con :: bool
  re_forwarding :: bool
  re_mod_ipaddress :: bool
  re_python_maxmind :: bool
  re_noaaaa_db :: "(string \<times> bool) list"
  re_ip :: "string \<Rightarrow> ip_facts option"
  re_geo :: "string \<Rightarrow> geo option option"

record logs =
  lg_reply :: "cps list"
  lg_dnsbl :: "cps list"
  lg_tasks :: "db_task list"

definition rcodes :: "(nat \<times> string) list" where
  "rcodes = [(0, ''NoError''), (1, ''FormErr''), (2, ''ServFail''), (3, ''NXDOMAIN''), (4, ''NotImp''), (5, ''Refused''),
     (6, ''YXDomain''), (7, ''YXRRSet''), (8, ''NXRRSet''), (9, ''NotAuth''), (10, ''NotZone''), (11, ''DSOTYPENI''),
     (16, ''BADVERS''), (17, ''BADKEY''), (18, ''BADTIME''), (19, ''BADMODE''), (20, ''BADNAME''), (21, ''BADALG''),
     (22, ''BADTRUNC''), (23, ''BADCOOKIE'')]"

subsection \<open>Block rows\<close>

definition local_ip :: "string \<Rightarrow> string" where
  "local_ip q_ip = (if q_ip = ''Unknown'' then ''127.0.0.1'' else q_ip)"

definition dnsbl_line :: "string \<Rightarrow> log_row \<Rightarrow> cps" where
  "dnsbl_line timestamp r = csv_row [codes ''DNSBL-python'', codes timestamp, log_text (codes (lr_name r)), codes (lr_ip r),
     codes (lr_p_type r), codes (lr_b_type r), codes (lr_group r), log_text (lr_b_eval r), codes (lr_feed r),
     codes (lr_dup r), codes (lr_q_type r)]"

definition log_upstream_block ::
  "reply_env \<Rightarrow> string \<Rightarrow> string \<Rightarrow> string \<Rightarrow> UpstreamBlock \<Rightarrow> string \<Rightarrow> logs \<Rightarrow> logs" where
  "log_upstream_block E timestamp q_name q_ip result q_type lg =
    (let provider = log_text (ub_provider result);
         line = csv_row [codes ''DNSBL-python'', codes timestamp, log_text (codes q_name), codes (local_ip q_ip), codes ''Python'',
           codes ''Upstream_Block'', codes ''Upstream'', log_text (codes (ub_label result)),
           (if provider = [] then codes ''External'' else provider), codes ''+'', codes q_type];
         lg = lg\<lparr>lg_dnsbl := lg_dnsbl lg @ [line]\<rparr> in
     if re_dnsbl_con E then lg\<lparr>lg_tasks := lg_tasks lg @ [Task_dnsbl ''Upstream'']\<rparr> else lg)"

subsection \<open>Reading the reply\<close>

text \<open>A query without a state, as the cache and local callbacks get it.\<close>

record query_info =
  qi_qname :: "string option"
  qi_qtype_str :: string

definition get_q_name_qinfo :: "query_info \<Rightarrow> string" where
  "get_q_name_qinfo q = (case qi_qname q of
       None \<Rightarrow> ''Unknown''
     | Some n \<Rightarrow> is_unknown (if strip n = [] then [] else rstrip_dots n))"

definition reply_q_type :: "qstate option \<Rightarrow> query_info option \<Rightarrow> string" where
  "reply_q_type qstate qinfo = is_unknown
    (case qstate of
       Some q \<Rightarrow> if qs_qtype_str q \<noteq> [] then qs_qtype_str q else (case qinfo of Some i \<Rightarrow> qi_qtype_str i | None \<Rightarrow> [])
     | None \<Rightarrow> (case qinfo of Some i \<Rightarrow> qi_qtype_str i | None \<Rightarrow> []))"

definition get_o_type :: "qstate option \<Rightarrow> reply option \<Rightarrow> string" where
  "get_o_type qstate rep = is_unknown
    (case qstate of
       None \<Rightarrow> []
     | Some q \<Rightarrow>
        (case map_option (rp_rrsets \<circ> rm_rep) (qs_return_msg q) of
           Some (s # _) \<Rightarrow> rr_type_str s
         | _ \<Rightarrow> if qs_qtype_str q \<noteq> [] then qs_qtype_str q
             else (case map_option rp_rrsets rep of Some (s # _) \<Rightarrow> rr_type_str s | _ \<Rightarrow> [])))"

definition get_rep_ttl :: "reply option \<Rightarrow> string" where
  "get_rep_ttl rep = (case rep of None \<Rightarrow> ''Unk'' | Some r \<Rightarrow> nat_text (rp_ttl r))"

text \<open>The address texts; \<open>None\<close> where a short record raises \<open>IndexError\<close>.\<close>

definition convert_ipv4 :: "nat list \<Rightarrow> string option" where
  "convert_ipv4 x =
    (if x = [] then Some ''Unknown''
     else if length x < 6 then None
     else Some (join_with dot (map (\<lambda>i. nat_text (x ! i)) [2, 3, 4, 5])))"

definition hex2 :: "nat \<Rightarrow> string" where
  "hex2 n = [hex_digit (n div 16), hex_digit (n mod 16)]"

definition convert_ipv6 :: "nat list \<Rightarrow> string option" where
  "convert_ipv6 x =
    (if x = [] then Some ''Unknown''
     else if length x < 18 then None
     else Some (join_with (CHR '':'') (map (\<lambda>i. hex2 (x ! (2 * i + 2)) @ hex2 (x ! (2 * i + 3))) [0..<8])))"

text \<open>\<open>IPv6Address.compressed\<close> of the octets: the first longest run of at least two zero groups
  becomes \<open>::\<close>.\<close>

fun hex_text :: "nat \<Rightarrow> nat \<Rightarrow> string" where
  "hex_text 0 n = []"
| "hex_text (Suc k) n = (if n < 16 then [hex_digit n] else hex_text k (n div 16) @ [hex_digit (n mod 16)])"

definition zero_run :: "nat list \<Rightarrow> nat \<Rightarrow> nat" where
  "zero_run groups i = length (takeWhile (\<lambda>g. g = 0) (drop i groups))"

definition compress_groups :: "nat list \<Rightarrow> string list" where
  "compress_groups groups =
    (let runs = map (zero_run groups) [0..<length groups]; best = fold max runs 0; texts = map (hex_text 4) groups in
     if best < 2 then texts
     else
      (let start = length (takeWhile (\<lambda>r. r \<noteq> best) runs); stop = start + best in
       (if start = 0 then [[]] else take start texts) @ [[]] @ (if stop = length groups then [[]] else drop stop texts)))"

definition ipv6_text :: "nat list \<Rightarrow> string" where
  "ipv6_text x = join_with (CHR '':'') (compress_groups (map (\<lambda>i. 256 * x ! (2 * i + 2) + x ! (2 * i + 3)) [0..<8]))"

text \<open>\<open>r_addr\<close> over the RRs of one set: an address ends the loop, other data accumulate.\<close>

fun set_addr :: "reply_env \<Rightarrow> string \<Rightarrow> nat list list \<Rightarrow> string \<Rightarrow> string option" where
  "set_addr E kind [] r_addr = Some r_addr"
| "set_addr E kind (x # xs) r_addr =
    (if kind = ''A'' then convert_ipv4 x
     else if kind = ''AAAA'' then
      (if \<not> re_mod_ipaddress E then Some r_addr
       else map_option (\<lambda>t. if x = [] then t else ipv6_text x) (convert_ipv6 x))
     else if kind \<in> {''DNSKEY'', ''DS''} then Some ''DNSSEC''
     else
      (let r = strip_of (\<lambda>c. c = CHR ''|'') (r_addr @ [CHR ''|''] @ convert_other x) in
       set_addr E kind xs (if r = [] then ''NXDOMAIN'' else r)))"

fun sets_addr :: "reply_env \<Rightarrow> rrset list \<Rightarrow> string \<Rightarrow> string option" where
  "sets_addr E [] r_addr = Some r_addr"
| "sets_addr E (s # ss) r_addr =
    (if rr_type_str s = [] \<or> rr_type_str s = ''CNAME'' \<and> rr_count s > 1 then sets_addr E ss r_addr
     else (case set_addr E (rr_type_str s) (set_rrs s) r_addr of None \<Rightarrow> None | Some r \<Rightarrow> sets_addr E ss r))"

definition reply_addr :: "reply_env \<Rightarrow> reply option \<Rightarrow> string option" where
  "reply_addr E rep = (case rep of
       None \<Rightarrow> Some []
     | Some r \<Rightarrow> if rp_an r > 0 then sets_addr E (take (rp_an r) (rp_rrsets r)) [] else Some ''NXDOMAIN'')"

text \<open>The corrections that follow: the return code, the types without an address, the suppressed AAAA.\<close>

definition final_addr :: "reply_env \<Rightarrow> qstate option \<Rightarrow> string \<Rightarrow> string \<Rightarrow> string \<Rightarrow> string \<times> string" where
  "final_addr E qstate q_type q_name r_addr =
    (let r = (case qstate of
           None \<Rightarrow> r_addr
         | Some q \<Rightarrow> if qs_return_rcode q = 0 then r_addr
             else (case map_of rcodes (qs_return_rcode q) of Some n \<Rightarrow> n | None \<Rightarrow> r_addr));
         r = is_unknown r;
         r = (if q_type = ''SOA'' \<and> r = ''NXDOMAIN'' then ''SOA'' else r);
         r = (if q_type = ''NSEC3'' \<and> r = ''NXDOMAIN'' then ''NSEC3'' else r);
         q_name = (if q_type = ''NS'' \<and> q_name = ''Unknown'' then ''NS'' else q_name);
         r = (if r = ''NXDOMAIN'' \<and> q_type = ''AAAA'' \<and> evaluate_noaaaa q_name (re_noaaaa_db E) then ''noAAAA'' else r) in
     (q_name, r))"

definition iso_code :: "reply_env \<Rightarrow> string \<Rightarrow> string" where
  "iso_code E r_addr =
    (if \<not> re_python_maxmind E \<or> r_addr \<in> {'''', ''Unknown'', ''NXDOMAIN'', ''NODATA'', ''DNSSEC'', ''SOA'', ''NS''} then ''unk''
     else (case re_ip E r_addr of
         None \<Rightarrow> ''unk''
       | Some ip \<Rightarrow>
          if ip_private ip then ''prv''
          else if ip_loopback ip then ''l.b.''
          else (case re_geo E r_addr of
              Some (Some g) \<Rightarrow>
                (case geo_country g of
                   Some c \<Rightarrow> (case c of Some code \<Rightarrow> code | None \<Rightarrow> ''unk'')
                 | None \<Rightarrow> (case geo_continent g of Some (Some code) \<Rightarrow> code | _ \<Rightarrow> ''unk''))
            | _ \<Rightarrow> ''unk'')))"

definition row_ttl :: "string \<Rightarrow> reply option \<Rightarrow> int \<Rightarrow> string" where
  "row_ttl m_type rep now =
    (let ttl = get_rep_ttl rep in
     if m_type = ''cache'' then
      (if list_all is_dec ttl \<and> length ttl = 10 then int_text (dec_int ttl - now) else [])
     else ttl)"

subsection \<open>The reply row\<close>

definition reply_line ::
  "reply_env \<Rightarrow> string \<Rightarrow> string \<Rightarrow> string \<Rightarrow> string \<Rightarrow> string \<Rightarrow> string \<Rightarrow> string \<Rightarrow> string \<Rightarrow> cps" where
  "reply_line E timestamp m_type o_type q_type ttl q_name q_ip r_addr = csv_row
     [codes ''DNS-reply'', codes timestamp, codes m_type, codes o_type, codes q_type, codes ttl, log_text (codes q_name),
      codes q_ip, log_text (codes r_addr), codes (iso_code E r_addr)]"

text \<open>\<open>get_details_reply\<close>: whether it raised, and the logs.  \<open>addr\<close> is the client of \<open>kwargs\<close>.\<close>

definition get_details_reply ::
  "reply_env \<Rightarrow> string \<Rightarrow> int \<Rightarrow> string \<Rightarrow> query_info option \<Rightarrow> qstate option \<Rightarrow> reply option \<Rightarrow> string \<Rightarrow> logs \<Rightarrow> bool \<times> logs" where
  "get_details_reply E timestamp now m_type qinfo qstate rep addr lg =
    (case (qstate, qinfo) of
       (None, None) \<Rightarrow> (False, lg)
     | _ \<Rightarrow>
      (let q_name = (case qstate of Some q \<Rightarrow> get_q_name_qstate q | None \<Rightarrow> get_q_name_qinfo (the qinfo));
           q_ip = is_unknown addr; at_home = (q_ip = ''Unknown'' \<or> q_ip = ''127.0.0.1'');
           q_ip = (if at_home then ''127.0.0.1'' else q_ip); m_type = (if at_home then ''resolver'' else m_type);
           o_type = reply_q_type qstate qinfo;
           q_type = (if m_type = ''cache'' \<or> o_type = ''PTR'' then o_type else get_o_type qstate rep) in
       if m_type = ''reply-x'' \<and> \<not> prefix ''python_control.'' q_name
         \<and> \<not> (q_type = ''AAAA'' \<and> evaluate_noaaaa q_name (re_noaaaa_db E)) then (False, lg)
       else
        (let m_type = (if m_type = ''reply-x'' then ''reply'' else m_type);
             lg = (if re_resolver_con E \<and> q_ip \<noteq> ''127.0.0.1'' then lg\<lparr>lg_tasks := lg_tasks lg @ [Task_resolver]\<rparr> else lg) in
         if \<not> re_python_reply E then (False, lg)
         else (case reply_addr E rep of
             None \<Rightarrow> (True, lg)
           | Some r_addr \<Rightarrow>
              (let (q_name, r_addr) = final_addr E qstate q_type q_name r_addr in
               (False, lg\<lparr>lg_reply := lg_reply lg @
                 [reply_line E timestamp m_type o_type q_type (row_ttl m_type rep now) q_name q_ip r_addr]\<rparr>))))))"

definition qinfo_of :: "qstate \<Rightarrow> query_info" where
  "qinfo_of q = \<lparr>qi_qname = qs_qname q, qi_qtype_str = qs_qtype_str q\<rparr>"

text \<open>The callbacks Unbound fires when it sends a reply, by the kind they are registered for.\<close>

definition callback_type :: "string \<Rightarrow> string option" where
  "callback_type kind = map_of [(''reply'', ''reply-x''), (''reply_cache'', ''cache''), (''reply_local'', ''local''),
     (''reply_servfail'', ''servfail'')] kind"

definition fire_reply_callback ::
  "reply_env \<Rightarrow> string \<Rightarrow> int \<Rightarrow> string \<Rightarrow> query_info option \<Rightarrow> qstate option \<Rightarrow> reply option \<Rightarrow> string \<Rightarrow> logs \<Rightarrow> logs" where
  "fire_reply_callback E timestamp now kind qinfo qstate rep addr lg = (case callback_type kind of
       None \<Rightarrow> lg
     | Some m_type \<Rightarrow> snd (get_details_reply E timestamp now m_type qinfo qstate rep addr lg))"

subsection \<open>Upstream blocks\<close>

definition client_ip_from_qstate :: "qstate \<Rightarrow> string" where
  "client_ip_from_qstate q = (case qs_addrs q of
       Some ip # _ \<Rightarrow> if ip \<noteq> [] then ip else ''127.0.0.1''
     | _ \<Rightarrow> ''127.0.0.1'')"

text \<open>\<open>strip_text\<close> and \<open>decode_utf8\<close> are those of the classifier; \<open>flags\<close> is \<open>None\<close> for a response without.\<close>

definition inplace_cb_query_response ::
  "(nat list \<Rightarrow> nat list) \<Rightarrow> (bytes \<Rightarrow> nat list) \<Rightarrow> reply_env \<Rightarrow> string \<Rightarrow> qstate \<Rightarrow> (nat \<times> bytes) list \<Rightarrow> 16 word option
     \<Rightarrow> logs \<Rightarrow> logs" where
  "inplace_cb_query_response strip_text decode_utf8 E timestamp q opts flags lg =
    (if \<not> re_forwarding E then lg
     else (case flags of
         None \<Rightarrow> lg
       | Some f \<Rightarrow>
          (case classify_upstream_block strip_text (unat (f AND 0xF)) (f AND 0x0080 \<noteq> 0) (f AND 0x0400 \<noteq> 0)
              (parse_ede_options decode_utf8 opts) of
             None \<Rightarrow> lg
           | Some result \<Rightarrow> log_upstream_block E timestamp (get_q_name_qstate q) (client_ip_from_qstate q) result
               (reply_q_type (Some q) None) lg)))"

subsection \<open>The reply log without a module\<close>

text \<open>\<open>ReplyLog._log\<close>, whose exceptions \<open>__call__\<close> swallows; one error line is written for the first.\<close>

record reply_log =
  rl_logs :: logs
  rl_failed :: bool
  rl_errors :: nat

definition note_failure :: "reply_log \<Rightarrow> reply_log" where
  "note_failure rl = (if rl_failed rl then rl else rl\<lparr>rl_failed := True, rl_errors := rl_errors rl + 1\<rparr>)"

definition log_forwarded ::
  "reply_env \<Rightarrow> string \<Rightarrow> int \<Rightarrow> Message \<Rightarrow> string \<Rightarrow> bytes option \<Rightarrow> reply_log \<Rightarrow> reply_log" where
  "log_forwarded E timestamp now query client reply rl =
    (let question = hd (ms_questions query); q = module_qstate question client;
         fire = (\<lambda>q rep lg. fire_reply_callback E timestamp now ''reply_servfail'' (Some (qinfo_of q)) (Some q) rep client lg) in
     case reply of
       None \<Rightarrow> rl\<lparr>rl_logs := fire (q\<lparr>qs_return_rcode := rcode_servfail\<rparr>) None (rl_logs rl)\<rparr>
     | Some data \<Rightarrow>
        (case parse_message data of
           Inl e \<Rightarrow> note_failure rl
         | Inr parsed \<Rightarrow>
            (let rc = base_rcode parsed; msg = from_message (next_ref q) parsed question;
                 q = q\<lparr>qs_return_msg := Some msg, qs_return_rcode := rc\<rparr>;
                 (raised, lg) = get_details_reply E timestamp now ''reply'' None (Some q) (Some (rm_rep msg)) client (rl_logs rl);
                 rl = rl\<lparr>rl_logs := lg\<rparr> in
             if raised then note_failure rl
             else if rc = rcode_servfail then rl\<lparr>rl_logs := fire q (Some (rm_rep msg)) (rl_logs rl)\<rparr>
             else rl)))"

subsection \<open>Properties\<close>

lemma fold_clean: "cr \<notin> set s \<Longrightarrow> lf \<notin> set s \<Longrightarrow> fold_breaks s = s"
proof -
  have "breaks s b = s" if "cr \<notin> set s" "lf \<notin> set s" for b using that by (induction s arbitrary: b) auto
  then show "cr \<notin> set s \<Longrightarrow> lf \<notin> set s \<Longrightarrow> fold_breaks s = s" by (simp add: fold_breaks_def)
qed

text \<open>A line of the reply log: one physical line of ten columns, the first of which is its tag.\<close>

definition reply_line_ok :: "cps \<Rightarrow> bool" where
  "reply_line_ok line \<longleftrightarrow> length (csv_read line) = 10 \<and> hd (csv_read line) = codes ''DNS-reply'' \<and> set line \<inter> {cr, lf} = {}"

lemma reply_line_fields:
  "csv_read (reply_line E ts m_type o_type q_type ttl q_name q_ip r_addr) = map fold_breaks
     [codes ''DNS-reply'', codes ts, codes m_type, codes o_type, codes q_type, codes ttl, log_text (codes q_name),
      codes q_ip, log_text (codes r_addr), codes (iso_code E r_addr)]"
  "set (reply_line E ts m_type o_type q_type ttl q_name q_ip r_addr) \<inter> {cr, lf} = {}"
  using csv_row_back unfolding reply_line_def by blast+

lemma reply_line_shape: "reply_line_ok (reply_line E ts m_type o_type q_type ttl q_name q_ip r_addr)"
proof -
  have "fold_breaks (codes ''DNS-reply'') = codes ''DNS-reply''"
    by (rule fold_clean) (simp_all add: codes_def code_pt_def cr_def lf_def)
  then show ?thesis using reply_line_fields by (simp add: reply_line_ok_def)
qed

text \<open>The shape of the function: filtered, not asked for, raised, or one line after the resolver task.\<close>

definition details_run :: "reply_env \<Rightarrow> string \<Rightarrow> string \<Rightarrow> qstate option \<Rightarrow> reply option \<Rightarrow> logs \<Rightarrow> bool \<times> logs \<Rightarrow> bool" where
  "details_run E ts m_type qstate rep lg result \<longleftrightarrow> (\<exists>q_name q_ip m o_type q_type quiet lg2 ttl.
     result = (if quiet then (False, lg)
       else if \<not> re_python_reply E then (False, lg2)
       else (case reply_addr E rep of
           None \<Rightarrow> (True, lg2)
         | Some r_addr \<Rightarrow>
            (case final_addr E qstate q_type q_name r_addr of (n, r) \<Rightarrow>
              (False, lg2\<lparr>lg_reply := lg_reply lg2 @ [reply_line E ts m o_type q_type ttl n q_ip r]\<rparr>))))
     \<and> lg_reply lg2 = lg_reply lg \<and> lg_dnsbl lg2 = lg_dnsbl lg \<and> (quiet \<longrightarrow> m_type = ''reply-x''))"

lemma details_step:
  assumes "\<not> (qstate = None \<and> qinfo = None)"
  shows "details_run E ts m_type qstate rep lg (get_details_reply E ts now m_type qinfo qstate rep addr lg)"
proof -
  have task: "lg_reply (if b then lg\<lparr>lg_tasks := t\<rparr> else lg) = lg_reply lg"
    "lg_dnsbl (if b then lg\<lparr>lg_tasks := t\<rparr> else lg) = lg_dnsbl lg" for b t by simp_all
  have strip: "(case (qstate, qinfo) of (None, None) \<Rightarrow> (False, lg) | _ \<Rightarrow> body) = body" for body
    using assms by (cases qstate; cases qinfo) simp_all
  show ?thesis unfolding get_details_reply_def Let_def details_run_def strip
    by (intro exI conjI, rule refl) (rule task, rule task, auto split: if_splits)
qed

text \<open>\<open>get_details_reply\<close> touches no other log and adds at most one line, whatever the client asked and the
  upstream answered, raised or not: one physical line of ten columns that a CSV reader splits as it was written.\<close>

theorem reply_row_columns:
  "case get_details_reply E ts now m_type qinfo qstate rep addr lg of (raised, lg') \<Rightarrow>
     lg_dnsbl lg' = lg_dnsbl lg
     \<and> (\<exists>rows. lg_reply lg' = lg_reply lg @ rows \<and> length rows \<le> 1 \<and> list_all reply_line_ok rows
        \<and> (if re_python_reply E then (if raised then rows = [] else True) else rows = []))"
proof (cases "qstate = None \<and> qinfo = None")
  case True
  then show ?thesis by (simp add: get_details_reply_def)
next
  case False
  then obtain q_name q_ip m o_type q_type quiet lg2 ttl where
    step: "get_details_reply E ts now m_type qinfo qstate rep addr lg =
      (if quiet then (False, lg)
       else if \<not> re_python_reply E then (False, lg2)
       else (case reply_addr E rep of
           None \<Rightarrow> (True, lg2)
         | Some r_addr \<Rightarrow>
            (case final_addr E qstate q_type q_name r_addr of (n, r) \<Rightarrow>
              (False, lg2\<lparr>lg_reply := lg_reply lg2 @ [reply_line E ts m o_type q_type ttl n q_ip r]\<rparr>))))"
    and kept: "lg_reply lg2 = lg_reply lg" "lg_dnsbl lg2 = lg_dnsbl lg"
    using details_step [OF False, of E ts m_type rep lg now addr] unfolding details_run_def by blast
  show ?thesis
  proof (cases "quiet \<or> \<not> re_python_reply E")
    case True
    then show ?thesis using kept by (auto simp: step)
  next
    case False
    then show ?thesis using kept reply_line_shape
      by (cases "reply_addr E rep") (auto simp: step split: prod.split)
  qed
qed


lemma details_count:
  assumes "\<not> (qstate = None \<and> qinfo = None)" and "m_type \<noteq> ''reply-x''"
  shows "fst (get_details_reply E ts now m_type qinfo qstate rep addr lg) = (re_python_reply E \<and> reply_addr E rep = None)"
    and "length (lg_reply (snd (get_details_reply E ts now m_type qinfo qstate rep addr lg))) =
      length (lg_reply lg) + (if re_python_reply E \<and> reply_addr E rep \<noteq> None then 1 else 0)"
proof -
  have "details_run E ts m_type qstate rep lg r \<Longrightarrow> fst r = (re_python_reply E \<and> reply_addr E rep = None)
      \<and> length (lg_reply (snd r)) = length (lg_reply lg) + (if re_python_reply E \<and> reply_addr E rep \<noteq> None then 1 else 0)" for r
    using assms(2) unfolding details_run_def by (cases "reply_addr E rep") (auto split: prod.splits if_splits)
  from this [OF details_step [OF assms(1), of E ts m_type rep lg now addr]]
  show "fst (get_details_reply E ts now m_type qinfo qstate rep addr lg) = (re_python_reply E \<and> reply_addr E rep = None)"
    and "length (lg_reply (snd (get_details_reply E ts now m_type qinfo qstate rep addr lg))) =
      length (lg_reply lg) + (if re_python_reply E \<and> reply_addr E rep \<noteq> None then 1 else 0)" by simp_all
qed

text \<open>The rows a forwarded query leaves in the reply log: one when the upstream is silent, none for bytes that are
  not a message or an address record too short to read, two for SERVFAIL (the answer and its failure), one otherwise.\<close>

theorem forwarded_rows:
  "length (lg_reply (rl_logs (log_forwarded E ts now query client reply rl))) = length (lg_reply (rl_logs rl)) +
    (if \<not> re_python_reply E then 0
     else (case reply of
         None \<Rightarrow> 1
       | Some data \<Rightarrow>
          (case parse_message data of
             Inl e \<Rightarrow> 0
           | Inr parsed \<Rightarrow>
              (let question = hd (ms_questions query);
                   msg = from_message (next_ref (module_qstate question client)) parsed question in
               if reply_addr E (Some (rm_rep msg)) = None then 0
               else if base_rcode parsed = rcode_servfail then 2 else 1))))"
proof -
  have kind: "callback_type ''reply_servfail'' = Some ''servfail''" by (simp add: callback_type_def)
  have none: "reply_addr E None = Some []" by (simp add: reply_addr_def)
  show ?thesis
  proof (cases reply)
    case None
    then show ?thesis by (simp add: log_forwarded_def Let_def fire_reply_callback_def kind details_count none)
  next
    case (Some data)
    show ?thesis
    proof (cases "parse_message data")
      case (Inl e)
      then show ?thesis using Some by (simp add: log_forwarded_def Let_def note_failure_def)
    next
      case (Inr parsed)
      then show ?thesis using Some
        by (simp add: log_forwarded_def Let_def fire_reply_callback_def kind details_count note_failure_def split_def)
    qed
  qed
qed

end
