(* ===== verification/Observer.thy ===== *)
theory Observer
  imports Json Reply
begin

text \<open>
  Upstream-block reports: \<open>pfb_upstream_observer.py\<close>, which runs inside Unbound and sends each raw
  upstream response as one JSON datagram, and the decider's side, which checks a datagram and fires
  the module's own callback on it.  Whether the socket is there and takes the datagram is an input.
\<close>

subsection \<open>Hex\<close>

definition to_hex :: "bytes \<Rightarrow> string" where
  "to_hex bs = concat (map (\<lambda>b. hex2 (unat b)) bs)"

text \<open>\<open>bytes.fromhex\<close>, which skips white space between the bytes.\<close>

definition hex_space :: "char \<Rightarrow> bool" where
  "hex_space c \<longleftrightarrow> (let n = code_pt c in n = 32 \<or> 9 \<le> n \<and> n \<le> 13)"

fun from_hex :: "string \<Rightarrow> bytes option" where
  "from_hex [] = Some []"
| "from_hex [a] = (if hex_space a then Some [] else None)"
| "from_hex (a # b # s) =
    (if hex_space a then from_hex (b # s)
     else (case (hex_val a, hex_val b) of
         (Some h, Some l) \<Rightarrow> map_option (Cons (word_of_nat (16 * h + l))) (from_hex s)
       | _ \<Rightarrow> None))"

subsection \<open>The observer\<close>

definition max_report_bytes :: nat where "max_report_bytes = 2048"
definition max_report_options :: nat where "max_report_options = 8"
definition max_report_option_hex :: nat where "max_report_option_hex = 1024"
definition max_report_qname :: nat where "max_report_qname = 1024"
definition ede_option :: nat where "ede_option = 15"

record report =
  rt_client :: string
  rt_qname :: "string option"
  rt_qtype :: "nat option"
  rt_flags :: nat
  rt_opts :: "(nat \<times> string) list"

definition option_value :: "nat \<times> string \<Rightarrow> jvalue" where
  "option_value = (\<lambda>(code, data). V_list [V_int (int code), V_str data])"

definition report_value :: "report \<Rightarrow> (nat \<times> string) list \<Rightarrow> jvalue" where
  "report_value r opts = V_dict [(''client'', V_str (rt_client r)),
     (''qname'', case rt_qname r of None \<Rightarrow> V_null | Some n \<Rightarrow> V_str n),
     (''qtype'', case rt_qtype r of None \<Rightarrow> V_null | Some t \<Rightarrow> V_int (int t)),
     (''flags'', V_int (int (rt_flags r))), (''opts'', V_list (map option_value opts))]"

definition encoded :: "report \<Rightarrow> (nat \<times> string) list \<Rightarrow> string" where
  "encoded r opts = dumps (report_value r opts)"

fun keep_options :: "report \<Rightarrow> (nat \<times> string) list \<Rightarrow> (nat \<times> string) list \<Rightarrow> (nat \<times> string) list option" where
  "keep_options r [] kept = Some kept"
| "keep_options r ((code, data) # opts) kept =
    (if length kept < max_report_options \<and> length data \<le> max_report_option_hex
       \<and> length (encoded r (kept @ [(code, data)])) \<le> max_report_bytes
     then keep_options r opts (kept @ [(code, data)])
     else if code = ede_option then None
     else keep_options r opts kept)"

text \<open>\<open>sorted\<close> by whether the option is not an Extended DNS Error, which is stable.\<close>

definition ede_first :: "(nat \<times> string) list \<Rightarrow> (nat \<times> string) list" where
  "ede_first opts = filter (\<lambda>(code, data). code = ede_option) opts @ filter (\<lambda>(code, data). code \<noteq> ede_option) opts"

definition datagram :: "report \<Rightarrow> string option" where
  "datagram r = (case keep_options r (ede_first (rt_opts r)) [] of
       None \<Rightarrow> None
     | Some kept \<Rightarrow> if length (encoded r kept) \<le> max_report_bytes then Some (encoded r kept) else None)"

text \<open>The facts of a response; \<open>None\<close> where the client's entry is missing and reading its address raises.\<close>

definition report_of :: "qstate \<Rightarrow> (nat \<times> bytes) list \<Rightarrow> 16 word \<Rightarrow> report option" where
  "report_of q opts flags =
    (let report = (\<lambda>client. \<lparr>rt_client = client, rt_qname = qs_qname q, rt_qtype = qs_qtype q, rt_flags = unat flags,
           rt_opts = map (apsnd to_hex) opts\<rparr>) in
     case qs_addrs q of [] \<Rightarrow> Some (report []) | Some ip # _ \<Rightarrow> Some (report ip) | None # _ \<Rightarrow> None)"

record observer =
  ob_warned :: bool
  ob_lost :: nat
  ob_losing :: bool
  ob_warnings :: "string list"
  ob_sent :: "string list"

definition report_lost :: "string \<Rightarrow> observer \<Rightarrow> observer" where
  "report_lost reason s =
    (let s = s\<lparr>ob_lost := ob_lost s + 1\<rparr> in
     if ob_losing s then s
     else s\<lparr>ob_losing := True, ob_warnings := ob_warnings s @ [''pfb_upstream_observer: upstream report lost (''
       @ reason @ ''); '' @ nat_text (ob_lost s) @ '' lost so far'']\<rparr>)"

text \<open>\<open>exists\<close>: the socket file is there; \<open>sock\<close>: the script has a socket; \<open>failure\<close>: the \<open>OSError\<close> of sending.\<close>

definition relay_upstream_response ::
  "bool \<Rightarrow> bool \<Rightarrow> string option \<Rightarrow> qstate \<Rightarrow> (nat \<times> bytes) list \<Rightarrow> 16 word \<Rightarrow> observer \<Rightarrow> observer" where
  "relay_upstream_response exists sock failure q opts flags s =
    (if \<not> exists then s
     else (case report_of q opts flags of
         None \<Rightarrow> if ob_warned s then s
           else s\<lparr>ob_warned := True, ob_warnings := ob_warnings s @ [''pfb_upstream_observer: cannot report an upstream response'']\<rparr>
       | Some r \<Rightarrow>
          if \<not> sock then s
          else (case datagram r of
              None \<Rightarrow> report_lost (''does not fit a datagram of 2048 bytes'') s
            | Some d \<Rightarrow>
               (case failure of
                  Some e \<Rightarrow> report_lost e s
                | None \<Rightarrow> s\<lparr>ob_sent := ob_sent s @ [d], ob_losing := False\<rparr>))))"

text \<open>The script is otherwise transparent: \<open>operate\<close> passes every event on.\<close>

definition observer_operate :: "nat \<Rightarrow> nat" where
  "observer_operate event =
    (if event = event_new \<or> event = event_pass then module_wait_module
     else if event = event_moddone then module_finished else module_error)"

subsection \<open>The decider\<close>

fun is_u16 :: "jvalue \<Rightarrow> bool" where
  "is_u16 (V_int i) = (0 \<le> i \<and> i \<le> 0xFFFF)"
| "is_u16 v = False"

fun json_u16 :: "jvalue \<Rightarrow> nat" where
  "json_u16 (V_int i) = nat i"
| "json_u16 v = 0"

definition read_option :: "jvalue \<Rightarrow> py_error + nat \<times> bytes" where
  "read_option v = (case v of
       V_list [code, data] \<Rightarrow>
        if \<not> is_u16 code then Inl (ValueError ''option is not [code, hex data]'')
        else (case data of
            V_str hex \<Rightarrow>
             if length hex > max_report_option_hex then Inl (ValueError ''option data is not hex of a sane size'')
             else (case from_hex hex of
                 None \<Rightarrow> Inl (ValueError ''non-hexadecimal number found in fromhex() arg'')
               | Some bs \<Rightarrow> Inr (json_u16 code, bs))
          | _ \<Rightarrow> Inl (ValueError ''option data is not hex of a sane size''))
     | _ \<Rightarrow> Inl (ValueError ''option is not [code, hex data]''))"

fun read_options :: "jvalue list \<Rightarrow> py_error + (nat \<times> bytes) list" where
  "read_options [] = Inr []"
| "read_options (v # vs) = (case read_option v of
       Inl e \<Rightarrow> Inl e
     | Inr opt \<Rightarrow> (case read_options vs of Inl e \<Rightarrow> Inl e | Inr opts \<Rightarrow> Inr (opt # opts)))"

text \<open>\<open>valid_ip\<close> is that \<open>ipaddress.ip_address\<close> accepts the text.\<close>

definition upstream_report :: "(string \<Rightarrow> bool) \<Rightarrow> string \<Rightarrow> py_error + qstate \<times> (nat \<times> bytes) list \<times> 16 word" where
  "upstream_report valid_ip data =
    (if length data > max_report_bytes then
       Inl (ValueError (nat_text (length data) @ '' bytes: a report is one datagram of at most 2048''))
     else (case loads data of
         Some (V_dict d) \<Rightarrow>
          (case (map_of d ''client'', map_of d ''qname'', map_of d ''qtype'', map_of d ''flags'', map_of d ''opts'') of
             (Some client, Some qname, Some qtype, Some flags, Some opts) \<Rightarrow>
              (case (qname, is_u16 qtype \<and> is_u16 flags) of
                 (V_str n, True) \<Rightarrow>
                  if n = [] \<or> length n > max_report_qname then Inl (ValueError ''qname, qtype or flags is not valid'')
                  else (case (client, opts) of
                      (V_str ip, V_list vs) \<Rightarrow>
                       if length vs > max_report_options then Inl (ValueError ''client or opts is not valid'')
                       else if ip \<noteq> [] \<and> \<not> valid_ip ip then
                         Inl (ValueError (ip @ '' does not appear to be an IPv4 or IPv6 address''))
                       else (case read_options vs of
                           Inl e \<Rightarrow> Inl e
                         | Inr os \<Rightarrow> Inr (module_qstate
                             \<lparr>qn_name = n, qn_type = word_of_nat (json_u16 qtype), qn_class = 1\<rparr> ip,
                             os, word_of_nat (json_u16 flags)))
                    | _ \<Rightarrow> Inl (ValueError ''client or opts is not valid''))
               | _ \<Rightarrow> Inl (ValueError ''qname, qtype or flags is not valid''))
           | _ \<Rightarrow> Inl (ValueError ''not a report''))
       | _ \<Rightarrow> Inl (ValueError ''not a report'')))"

text \<open>The decider's handler: the callback on a well-formed report, one warning for the first that is not.\<close>

record report_sink =
  de_malformed :: bool
  de_warnings :: "string list"
  de_logs :: logs

definition relay_report ::
  "(string \<Rightarrow> bool) \<Rightarrow> (nat list \<Rightarrow> nat list) \<Rightarrow> (bytes \<Rightarrow> nat list) \<Rightarrow> reply_env \<Rightarrow> string \<Rightarrow> string \<Rightarrow> report_sink \<Rightarrow> report_sink" where
  "relay_report valid_ip strip_text decode_utf8 E timestamp data s =
    (case upstream_report valid_ip data of
       Inl e \<Rightarrow> if de_malformed s then s
         else s\<lparr>de_malformed := True, de_warnings := de_warnings s @ [''malformed upstream report from the observer, ''
           @ ''ignored (further ones silently): '' @ error_text e]\<rparr>
     | Inr (q, opts, flags) \<Rightarrow>
        s\<lparr>de_logs := inplace_cb_query_response strip_text decode_utf8 E timestamp q opts (Some flags) (de_logs s)\<rparr>)"

end
