(* ===== verification/ObserverLaws.thy ===== *)
theory ObserverLaws
  imports Observer
begin

text \<open>
  The report is faithful: every datagram the observer sends is one the decider accepts, and the
  decider logs for it what the module would have logged on the raw response inside Unbound.
\<close>

subsection \<open>Hex\<close>

lemma hex_digit_val [simp]: "n < 16 \<Longrightarrow> hex_val (hex_digit n) = Some n"
  by (rule hex_val_digit)

lemma hex_digit_no_space: "n < 16 \<Longrightarrow> \<not> hex_space (hex_digit n)"
  by (auto simp: hex_space_def hex_digit_def Let_def)

lemma from_to_hex: "from_hex (to_hex bs) = Some bs"
proof (induction bs)
  case Nil
  then show ?case by (simp add: to_hex_def)
next
  case (Cons b bs)
  have b: "unat b < 256" using unsigned_less [of b] by simp
  then have "unat b div 16 < 16" "unat b mod 16 < 16" by auto
  moreover have "word_of_nat (16 * (unat b div 16) + unat b mod 16) = b" by simp
  ultimately show ?case using Cons hex_digit_no_space by (simp add: to_hex_def hex2_def)
qed

subsection \<open>The options kept\<close>

definition is_ede :: "nat \<times> 'a \<Rightarrow> bool" where
  "is_ede opt \<longleftrightarrow> fst opt = ede_option"

lemma keep_options_run:
  "keep_options r opts kept = Some kept' \<Longrightarrow> length kept \<le> max_report_options \<Longrightarrow>
    \<forall>opt \<in> set kept. length (snd opt) \<le> max_report_option_hex \<Longrightarrow>
    filter is_ede kept' = filter is_ede kept @ filter is_ede opts \<and> length kept' \<le> max_report_options
    \<and> (\<forall>opt \<in> set kept'. length (snd opt) \<le> max_report_option_hex) \<and> set kept' \<subseteq> set kept \<union> set opts"
proof (induction opts arbitrary: kept)
  case (Cons opt opts)
  obtain code data where opt: "opt = (code, data)" by fastforce
  show ?case
  proof (cases "length kept < max_report_options \<and> length data \<le> max_report_option_hex
       \<and> length (encoded r (kept @ [(code, data)])) \<le> max_report_bytes")
    case True
    then have "keep_options r opts (kept @ [(code, data)]) = Some kept'" using Cons.prems(1) opt by simp
    from Cons.IH [OF this] show ?thesis using True Cons.prems(3) opt by auto
  next
    case False
    then have "code \<noteq> ede_option" "keep_options r opts kept = Some kept'"
      using Cons.prems(1) opt by (auto split: if_splits)
    then show ?thesis using Cons.IH [of kept] Cons.prems(2,3) opt by (auto simp: is_ede_def)
  qed
qed simp

lemma keep_options_laws:
  assumes "keep_options r opts [] = Some kept"
  shows "filter is_ede kept = filter is_ede opts" and "length kept \<le> max_report_options"
    and "\<forall>opt \<in> set kept. length (snd opt) \<le> max_report_option_hex" and "set kept \<subseteq> set opts"
  using keep_options_run [OF assms] by auto

lemma ede_first_split: "ede_first opts = filter is_ede opts @ filter (\<lambda>opt. \<not> is_ede opt) opts"
proof -
  have "(\<lambda>(code, data :: string). code = ede_option) = is_ede" "(\<lambda>(code, data :: string). code \<noteq> ede_option) = (\<lambda>opt. \<not> is_ede opt)"
    by (simp_all add: fun_eq_iff is_ede_def)
  then show ?thesis by (simp only: ede_first_def)
qed

lemma ede_first_ede: "filter is_ede (ede_first opts) = filter is_ede opts"
  by (simp add: ede_first_split)

lemma parse_ede_only: "parse_ede_options dec opts = parse_ede_options dec (filter is_ede opts)"
  by (induction opts) (auto simp: parse_ede_options_def List.map_filter_def is_ede_def ede_option_def edns_opt_code_ede_def)

lemma map_filter_ede: "filter is_ede (map (apsnd f) opts) = map (apsnd f) (filter is_ede opts)"
  by (induction opts) (auto simp: is_ede_def)

subsection \<open>The datagram\<close>

lemma plain_u16: "n < 65536 \<Longrightarrow> plain (V_int (int n))"
  using nat_text_length [of n 5] by simp

lemma report_plain:
  assumes "rt_qname r = Some n" and "rt_qtype r = Some t" and "t < 65536" and "rt_flags r < 65536"
    and "\<forall>opt \<in> set opts. fst opt < 65536"
  shows "plain (report_value r opts)"
proof -
  have "plain (option_value opt)" if "opt \<in> set opts" for opt
    using assms(5) that plain_u16 [of "fst opt"] by (cases opt) (auto simp: option_value_def)
  then show ?thesis using assms(1,2) plain_u16 [OF assms(3)] plain_u16 [OF assms(4)]
    by (simp add: report_value_def list_all_iff)
qed

lemma read_option_back:
  assumes "fst opt < 65536" and "length (to_hex (snd opt)) \<le> max_report_option_hex"
  shows "read_option (option_value (apsnd to_hex opt)) = Inr opt"
  using assms from_to_hex by (cases opt) (simp add: read_option_def option_value_def)

lemma read_options_back:
  assumes "\<forall>opt \<in> set opts. fst opt < 65536 \<and> length (to_hex (snd opt)) \<le> max_report_option_hex"
  shows "read_options (map (option_value \<circ> apsnd to_hex) opts) = Inr opts"
  using assms by (induction opts) (simp_all add: read_option_back)

lemma apsnd_image:
  assumes "set kept \<subseteq> set (map (apsnd f) opts)"
  obtains os where "kept = map (apsnd f) os" and "set os \<subseteq> set opts"
proof -
  have "\<exists>os. kept = map (apsnd f) os \<and> set os \<subseteq> set opts"
    using assms
  proof (induction kept)
    case (Cons p kept)
    then obtain os o1 where "kept = map (apsnd f) os \<and> set os \<subseteq> set opts" "o1 \<in> set opts" "p = apsnd f o1" by auto
    then show ?case by (intro exI [of _ "o1 # os"]) auto
  qed simp
  then show thesis using that by blast
qed

text \<open>The decider accepts what the observer sends, and with it every Extended DNS Error of the response.\<close>

lemma datagram_accepted:
  assumes "report_of q opts flags = Some r" and "datagram r = Some d"
    and "qs_qname q = Some n" and "n \<noteq> []" and "length n \<le> max_report_qname"
    and "qs_qtype q = Some t" and "t < 65536" and "rt_client r = [] \<or> valid_ip (rt_client r)"
    and "\<forall>opt \<in> set opts. fst opt < 65536"
  obtains os where "upstream_report valid_ip d =
      Inr (module_qstate \<lparr>qn_name = n, qn_type = word_of_nat t, qn_class = 1\<rparr> (rt_client r), os, flags)"
    and "filter is_ede os = filter is_ede opts"
proof -
  have r: "rt_qname r = Some n" "rt_qtype r = Some t" "rt_flags r = unat flags" "rt_opts r = map (apsnd to_hex) opts"
    using assms(1,3,6) by (auto simp: report_of_def Let_def split: list.splits option.splits)
  have fl: "unat flags < 65536" using unsigned_less [of flags] by simp
  have fi: "uint flags \<le> 65535" proof -
    have "uint flags = int (unat flags)" by simp
    then show ?thesis using fl by linarith
  qed
  obtain kept where k: "keep_options r (ede_first (rt_opts r)) [] = Some kept" "d = encoded r kept" "length d \<le> max_report_bytes"
    using assms(2) by (auto simp: datagram_def split: option.splits if_splits)
  note laws = keep_options_laws [OF k(1)]
  have sub: "set kept \<subseteq> set (map (apsnd to_hex) opts)" using laws(4) r(4) by (auto simp: ede_first_def)
  obtain os where os: "kept = map (apsnd to_hex) os" "set os \<subseteq> set opts" by (rule apsnd_image [OF sub])
  have "map (apsnd to_hex) (filter is_ede os) = map (apsnd to_hex) (filter is_ede opts)"
    using laws(1) os(1) r(4) by (simp add: ede_first_ede map_filter_ede)
  moreover have "inj (apsnd to_hex :: nat \<times> bytes \<Rightarrow> _)"
    by (rule injI) (metis apsnd_conv from_to_hex option.inject prod.collapse prod.inject)
  ultimately have ede: "filter is_ede os = filter is_ede opts" by (simp add: inj_map_eq_map)
  have codes: "\<forall>opt \<in> set os. fst opt < 65536" using os(2) assms(9) by auto
  have sizes: "\<forall>opt \<in> set os. length (to_hex (snd opt)) \<le> max_report_option_hex" using laws(3) os(1) by auto
  have "\<forall>opt \<in> set kept. fst opt < 65536" using codes os(1) by auto
  then have "plain (report_value r kept)" using r assms(7) fl by (intro report_plain) auto
  then have "loads d = Some (report_value r kept)"
    using plain_reads skip_starts(1) [OF dumps_starts, of "report_value r kept" "[]"] k(2)
    by (simp add: encoded_def loads_def reads_def ends_def skip_ws_def del: read_steps)
  moreover have "read_options (map option_value kept) = Inr os"
    using read_options_back [of os] codes sizes os(1) by simp
  moreover have "length kept \<le> max_report_options" using laws(2) .
  ultimately have "upstream_report valid_ip d =
      Inr (module_qstate \<lparr>qn_name = n, qn_type = word_of_nat t, qn_class = 1\<rparr> (rt_client r), os, flags)"
    using k(3) r assms(4,5,7,8) fl fi by (auto simp: upstream_report_def report_value_def)
  with ede show thesis using that by blast
qed

text \<open>C36. Between the processes nothing is lost that decides a block: for a response whose facts are in range, the decider logs
  for the observer's datagram exactly what the module would have logged on the raw response inside Unbound.\<close>

theorem observed_block_logged:
  assumes "qs_addrs q = [] \<or> (\<exists>ip more. qs_addrs q = Some ip # more \<and> valid_ip ip)"
    and "qs_qname q = Some n" and "strip n \<noteq> []" and "length n \<le> max_report_qname"
    and "qs_qtype q = Some t" and "t < 65536" and "qs_qtype_str q = type_str (word_of_nat t)"
    and "\<forall>opt \<in> set opts. fst opt < 65536"
  shows "\<exists>r. report_of q opts flags = Some r \<and> (case datagram r of
       None \<Rightarrow> True
     | Some d \<Rightarrow> de_logs (relay_report valid_ip strip_text decode E ts d s) =
         inplace_cb_query_response strip_text decode E ts q opts (Some flags) (de_logs s))"
proof -
  obtain r where r: "report_of q opts flags = Some r" and c: "rt_client r = [] \<or> valid_ip (rt_client r)"
    and client: "client_ip_from_qstate q = (if rt_client r \<noteq> [] then rt_client r else ''127.0.0.1'')"
    using assms(1) by (auto simp: report_of_def Let_def client_ip_from_qstate_def)
  have ne: "n \<noteq> []" using assms(3) by auto
  have "de_logs (relay_report valid_ip strip_text decode E ts d s) =
      inplace_cb_query_response strip_text decode E ts q opts (Some flags) (de_logs s)" if d: "datagram r = Some d" for d
  proof -
    obtain os where u: "upstream_report valid_ip d =
        Inr (module_qstate \<lparr>qn_name = n, qn_type = word_of_nat t, qn_class = 1\<rparr> (rt_client r), os, flags)"
      and ede: "filter is_ede os = filter is_ede opts"
      by (rule datagram_accepted [where valid_ip = valid_ip, OF r d assms(2) ne assms(4,5,6) c assms(8)])
    let ?q = "module_qstate \<lparr>qn_name = n, qn_type = word_of_nat t, qn_class = 1\<rparr> (rt_client r)"
    have "parse_ede_options decode os = parse_ede_options decode opts"
      using parse_ede_only [of decode os] parse_ede_only [of decode opts] ede by simp
    moreover have "get_q_name_qstate ?q = get_q_name_qstate q"
      using assms(2,3) by (simp add: get_q_name_qstate_def module_qstate_def)
    moreover have "client_ip_from_qstate ?q = client_ip_from_qstate q"
      using client by (simp add: client_ip_from_qstate_def module_qstate_def)
    moreover have "reply_q_type (Some ?q) None = reply_q_type (Some q) None"
      using assms(7) by (simp add: reply_q_type_def module_qstate_def)
    ultimately show ?thesis by (simp add: relay_report_def u inplace_cb_query_response_def cong: option.case_cong)
  qed
  then show ?thesis using r by (auto split: option.split)
qed

definition sample_upstream :: qstate where
  "sample_upstream = \<lparr>qs_qname = Some ''bad.org.'', qs_qtype = Some 1, qs_qtype_str = ''A'',
     qs_qname_list = None, qs_addrs = [Some ''10.0.0.2''], qs_return_msg = None, qs_return_rcode = 0, qs_ext_state = 0,
     qs_no_cache_store = False\<rparr>"

theorem observed_block_logged_witness:
  "\<exists>r d. report_of sample_upstream [(10, [1, 2]), (15, [0, 15, 65])] 3 = Some r \<and> datagram r = Some d
     \<and> (\<forall>E ts s. de_logs (relay_report (\<lambda>ip. ip = ''10.0.0.2'') (\<lambda>s. s) (map unat) E ts d s) =
       inplace_cb_query_response (\<lambda>s. s) (map unat) E ts sample_upstream [(10, [1, 2]), (15, [0, 15, 65])] (Some 3) (de_logs s))"
proof -
  have h: "qs_addrs sample_upstream = [] \<or> (\<exists>ip more. qs_addrs sample_upstream = Some ip # more \<and> ip = ''10.0.0.2'')"
    "qs_qname sample_upstream = Some ''bad.org.''" "qs_qtype sample_upstream = Some 1"
    by (simp_all add: sample_upstream_def)
  have n: "strip ''bad.org.'' \<noteq> []" "length ''bad.org.'' \<le> max_report_qname" by code_simp+
  have t: "qs_qtype_str sample_upstream = type_str (word_of_nat 1)" by code_simp
  have o: "\<forall>opt \<in> set [(10, [1, 2]), (15, [0, 15, 65])] :: (nat \<times> bytes) set. fst opt < 65536" by simp
  let ?r = "\<lparr>rt_client = ''10.0.0.2'', rt_qname = Some ''bad.org.'', rt_qtype = Some 1, rt_flags = 3,
      rt_opts = [(10, ''0102''), (15, ''000f41'')]\<rparr>"
  have r: "report_of sample_upstream [(10, [1, 2]), (15, [0, 15, 65])] 3 = Some ?r" by code_simp
  have first: "ede_first (rt_opts ?r) = [(15, ''000f41''), (10, ''0102'')]" by code_simp
  have "length (encoded ?r [(15, ''000f41'')]) = 93" by code_simp
  moreover have "length (encoded ?r [(15, ''000f41''), (10, ''0102'')]) = 107" by code_simp
  ultimately have "datagram (the (report_of sample_upstream [(10, [1, 2]), (15, [0, 15, 65])] 3)) \<noteq> None"
    unfolding r option.sel datagram_def first
    by (simp add: max_report_options_def max_report_option_hex_def max_report_bytes_def)
  then obtain d where d: "datagram (the (report_of sample_upstream [(10, [1, 2]), (15, [0, 15, 65])] 3)) = Some d" by blast
  have "de_logs (relay_report (\<lambda>ip. ip = ''10.0.0.2'') (\<lambda>s. s) (map unat) E ts d s) =
      inplace_cb_query_response (\<lambda>s. s) (map unat) E ts sample_upstream [(10, [1, 2]), (15, [0, 15, 65])] (Some 3) (de_logs s)"
    for E ts s
    using observed_block_logged [where valid_ip = "\<lambda>ip. ip = ''10.0.0.2''", OF h(1,2) n h(3) _ t o,
        where flags = 3 and strip_text = "\<lambda>s. s" and decode = "map unat" and E = E and ts = ts and s = s] d
    by (simp add: r)
  then show ?thesis using r d by (intro exI [of _ ?r] exI [of _ d]) simp
qed

end
