(* ===== verification/Ledger.thy ===== *)
theory Ledger
  imports Swap Json
begin

text \<open>
  Python's status ledger (\<open>pfb_py_status_open\<close>, \<open>pfb_py_status_close\<close>): a JSON file of entries keyed by
  facility, item and stage.  A JSON value is what \<open>json.load\<close> returns; the module's lock makes each
  call one step.
\<close>

subsection \<open>The file\<close>

text \<open>The configured path, and what is parsed from the file: \<open>None\<close> when it is absent, unreadable or not JSON.\<close>

record ledger =
  le_path :: "string option"
  le_content :: "jvalue option"

definition py_status_read_all :: "ledger \<Rightarrow> (string \<times> jvalue) list list" where
  "py_status_read_all L =
    (case le_path L of
       None \<Rightarrow> []
     | Some p \<Rightarrow>
        if p = [] then []
        else (case le_content L of Some (V_list vs) \<Rightarrow> List.map_filter dict_of vs | _ \<Rightarrow> []))"

text \<open>\<open>ok\<close> is whether the temporary file and the rename succeed.\<close>

definition py_status_write_all :: "bool \<Rightarrow> (string \<times> jvalue) list list \<Rightarrow> ledger \<Rightarrow> ledger" where
  "py_status_write_all ok entries L =
    (case le_path L of
       None \<Rightarrow> L
     | Some p \<Rightarrow> if p = [] \<or> \<not> ok then L else L\<lparr>le_content := Some (V_list (map V_dict entries))\<rparr>)"

subsection \<open>Entries\<close>

definition entry_is :: "string \<Rightarrow> string \<Rightarrow> string \<Rightarrow> (string \<times> jvalue) list \<Rightarrow> bool" where
  "entry_is facility item stage e \<longleftrightarrow> map_of e ''facility'' = Some (V_str facility)
     \<and> map_of e ''item'' = Some (V_str item) \<and> map_of e ''stage'' = Some (V_str stage)"

definition refresh_entry :: "string \<Rightarrow> int \<Rightarrow> (string \<times> jvalue) list \<Rightarrow> (string \<times> jvalue) list" where
  "refresh_entry message now e = AList.update ''last_seen'' (V_int now) (AList.update ''message'' (V_str message) e)"

text \<open>The loop of \<open>pfb_py_status_open\<close>: the first entry of the key is refreshed.\<close>

fun refresh_first ::
  "((string \<times> jvalue) list \<Rightarrow> bool) \<Rightarrow> string \<Rightarrow> int \<Rightarrow> (string \<times> jvalue) list list \<Rightarrow> (string \<times> jvalue) list list option" where
  "refresh_first P message now [] = None"
| "refresh_first P message now (e # es) =
    (if P e then Some (refresh_entry message now e # es)
     else map_option (Cons e) (refresh_first P message now es))"

definition new_entry :: "string \<Rightarrow> string \<Rightarrow> string \<Rightarrow> string \<Rightarrow> int \<Rightarrow> (string \<times> jvalue) list" where
  "new_entry facility item stage message now = [(''facility'', V_str facility), (''item'', V_str item),
     (''stage'', V_str stage), (''message'', V_str message), (''first_seen'', V_int now), (''last_seen'', V_int now)]"

definition py_status_open ::
  "bool \<Rightarrow> int \<Rightarrow> string \<Rightarrow> string \<Rightarrow> string \<Rightarrow> string \<Rightarrow> ledger \<Rightarrow> ledger" where
  "py_status_open ok now facility item stage message L =
    (let entries = py_status_read_all L in
     case refresh_first (entry_is facility item stage) message now entries of
       Some refreshed \<Rightarrow> py_status_write_all ok refreshed L
     | None \<Rightarrow> py_status_write_all ok (entries @ [new_entry facility item stage message now]) L)"

definition py_status_close :: "bool \<Rightarrow> string \<Rightarrow> string \<Rightarrow> string \<Rightarrow> ledger \<Rightarrow> ledger" where
  "py_status_close ok facility item stage L =
    (let entries = py_status_read_all L; kept = filter (\<lambda>e. \<not> entry_is facility item stage e) entries in
     if length kept = length entries then L else py_status_write_all ok kept L)"

subsection \<open>Laws\<close>

definition writable :: "ledger \<Rightarrow> bool" where
  "writable L \<longleftrightarrow> (case le_path L of None \<Rightarrow> False | Some p \<Rightarrow> p \<noteq> [])"

definition status_open_for :: "string \<Rightarrow> string \<Rightarrow> string \<Rightarrow> ledger \<Rightarrow> bool" where
  "status_open_for facility item stage L \<longleftrightarrow> list_ex (entry_is facility item stage) (py_status_read_all L)"

lemma map_filter_dicts [simp]: "List.map_filter dict_of (map V_dict es) = es"
  by (induction es) (simp_all add: List.map_filter_simps)

lemma read_written:
  "writable L \<Longrightarrow> py_status_read_all (py_status_write_all True es L) = es"
  by (auto simp: writable_def py_status_read_all_def py_status_write_all_def split: option.splits)

lemma writable_written [simp]: "writable (py_status_write_all ok es L) = writable L"
  by (auto simp: writable_def py_status_write_all_def split: option.split)

lemma entry_is_refresh [simp]: "entry_is f i s (refresh_entry m now e) = entry_is f i s e"
  by (simp add: entry_is_def refresh_entry_def update_conv')

lemma entry_is_new [simp]: "entry_is f i s (new_entry f' i' s' m now) = (f' = f \<and> i' = i \<and> s' = s)"
  by (auto simp: entry_is_def new_entry_def)

lemma first_seen_refresh [simp]: "map_of (refresh_entry m now e) ''first_seen'' = map_of e ''first_seen''"
  by (simp add: refresh_entry_def update_conv')

lemma refresh_first_None: "refresh_first P m now es = None \<longleftrightarrow> \<not> list_ex P es"
  by (induction es) auto

lemma refresh_first_Some:
  assumes "refresh_first P m now es = Some es'" and "\<And>e. P (refresh_entry m now e) = P e"
  shows "filter (\<lambda>e. \<not> P e) es' = filter (\<lambda>e. \<not> P e) es"
    and "length es' = length es"
    and "map (\<lambda>e. map_of e ''first_seen'') es' = map (\<lambda>e. map_of e ''first_seen'') es"
    and "list_ex P es'"
    and "map P es' = map P es"
  using assms by (induction es arbitrary: es') (auto split: if_splits)

text \<open>A ledger that can be written follows the calls: \<open>open\<close> leaves exactly one more entry or refreshes the one
  there, keeping when each entry was first seen; \<open>close\<close> removes all entries of the key; neither
  touches an entry of another key.\<close>

theorem ledger_follows:
  assumes "writable L"
  shows "let key = entry_is facility item stage; seen = map (\<lambda>e. map_of e ''first_seen'');
       es = py_status_read_all L; es1 = py_status_read_all (py_status_open True now facility item stage message L);
       es2 = py_status_read_all (py_status_close True facility item stage L) in
     filter (\<lambda>e. \<not> key e) es1 = filter (\<lambda>e. \<not> key e) es
     \<and> length (filter key es1) = max 1 (length (filter key es))
     \<and> prefix (seen es) (seen es1)
     \<and> es2 = filter (\<lambda>e. \<not> key e) es"
proof -
  define key where "key = entry_is facility item stage"
  let ?es = "py_status_read_all L"
  let ?L1 = "py_status_open True now facility item stage message L" and ?L2 = "py_status_close True facility item stage L"
  have closed: "py_status_read_all ?L2 = filter (\<lambda>e. \<not> key e) ?es"
  proof (cases "length (filter (\<lambda>e. \<not> key e) ?es) = length ?es")
    case True
    then have "filter (\<lambda>e. \<not> key e) ?es = ?es" by (metis length_filter_less less_irrefl filter_True)
    then show ?thesis using True by (simp add: py_status_close_def Let_def key_def [symmetric])
  next
    case False
    then show ?thesis using read_written [OF assms(1)] by (simp add: py_status_close_def Let_def key_def [symmetric])
  qed
  show ?thesis
  proof (cases "refresh_first key message now ?es")
    case None
    then have "\<not> list_ex key ?es" by (simp add: refresh_first_None)
    then have "filter key ?es = []" by (simp add: filter_empty_conv list_ex_iff)
    moreover have "key (new_entry facility item stage message now)" by (simp add: key_def)
    ultimately show ?thesis using None closed read_written [OF assms(1)]
      by (simp add: py_status_open_def Let_def key_def [symmetric])
  next
    case (Some es')
    have same: "key (refresh_entry message now e) = key e" for e by (simp add: key_def)
    note r = refresh_first_Some [OF Some same]
    have "length (filter key es') = length (filter key ?es)"
      using r(5) by (metis filter_map length_map id_comp filter_cong)
    moreover have "length (filter key es') \<ge> 1" using r(4) by (cases "filter key es'") (auto simp: filter_empty_conv list_ex_iff)
    ultimately show ?thesis using Some closed r read_written [OF assms(1)]
      by (simp add: py_status_open_def Let_def key_def [symmetric])
  qed
qed

definition sample_ledger :: ledger where
  "sample_ledger = \<lparr>le_path = Some ''pfb_py_status.json'',
     le_content = Some (V_list [V_null, V_dict (new_entry ''dnsbl'' ''a'' ''parse'' ''old'' 1)])\<rparr>"

theorem ledger_follows_witness:
  "py_status_read_all (py_status_open True 5 ''dnsbl'' ''a'' ''parse'' ''new'' sample_ledger)
     = [[(''facility'', V_str ''dnsbl''), (''item'', V_str ''a''), (''stage'', V_str ''parse''),
         (''message'', V_str ''new''), (''first_seen'', V_int 1), (''last_seen'', V_int 5)]]
   \<and> py_status_read_all (py_status_close True ''dnsbl'' ''a'' ''parse'' sample_ledger) = []"
proof -
  have w: "writable sample_ledger" by (simp add: writable_def sample_ledger_def)
  have "py_status_read_all (py_status_close True ''dnsbl'' ''a'' ''parse'' sample_ledger) = []"
    using ledger_follows [OF w, of "''dnsbl''" "''a''" "''parse''"]
    by (simp add: Let_def sample_ledger_def py_status_read_all_def List.map_filter_simps)
  then show ?thesis
    by (simp add: sample_ledger_def py_status_open_def py_status_read_all_def py_status_write_all_def
        List.map_filter_simps refresh_entry_def new_entry_def entry_is_def)
qed

end
