(* ===== verification/Manifest.thy ===== *)
theory Manifest
  imports Ledger
begin

text \<open>
  From the manifest on disk to the structure-set (\<open>dnsbl_build_from_manifest\<close>): the validation of the
  JSON, the containment of the raw feeds in the manifest's directory, the feed reader, the TOP1M
  sidecar, the public-suffix authority and the configuration of \<open>build\<close>.  What the file system
  answers is a record; an exception keeps its class and text.
\<close>

subsection \<open>The file system\<close>

text \<open>\<open>bx_open\<close> is what opening and reading a feed gives: the decoded text up to the error that ended it, if any.
  A \<open>psl_file\<close> is the result of the stat, the access check, the read and the decoding.\<close>

record psl_file =
  pf_regular :: bool
  pf_readable :: bool
  pf_text :: "py_error + string"

record file_stat =
  fs_dev :: int
  fs_ino :: int
  fs_mode :: int
  fs_size :: int
  fs_mtime :: int
  fs_ctime :: int
  fs_nlink :: int

text \<open>What the two digest passes and the line pass over the sidecar read, byte texts, and the final stats.\<close>

record reading =
  rg_expected :: string
  rg_content :: string
  rg_position :: int
  rg_finished :: file_stat
  rg_final :: string
  rg_pathname :: file_stat

record sidecar =
  sc_nofollow :: bool
  sc_path_stat :: "py_error + file_stat"
  sc_open :: "py_error option"
  sc_opened :: "py_error + file_stat"
  sc_reading :: "py_error + reading"

record box =
  bx_isfile :: "string \<Rightarrow> bool"
  bx_abspath :: "string \<Rightarrow> string"
  bx_realpath :: "string \<Rightarrow> string"
  bx_open :: "string \<Rightarrow> py_error + string \<times> py_error option"
  bx_json :: "py_error + jvalue"
  bx_psl :: "py_error + psl_file"
  bx_sidecar :: sidecar
  bx_md5 :: "string \<Rightarrow> string"
  bx_utf8 :: "string \<Rightarrow> string option"
  bx_status_ok :: bool
  bx_now :: int

subsection \<open>Paths\<close>

abbreviation slash :: char where "slash \<equiv> CHR ''/''"

definition is_abs :: "string \<Rightarrow> bool" where
  "is_abs p = (case p of [] \<Rightarrow> False | c # r \<Rightarrow> c = slash)"

definition path_join :: "string \<Rightarrow> string \<Rightarrow> string" where
  "path_join a b = (if is_abs b then b else if a = [] \<or> last a = slash then a @ b else a @ slash # b)"

definition path_dirname :: "string \<Rightarrow> string" where
  "path_dirname p = (let head = rev (dropWhile (\<lambda>c. c \<noteq> slash) (rev p)) in
     if list_all (\<lambda>c. c = slash) head then head else rstrip_of (\<lambda>c. c = slash) head)"

definition path_parts :: "string \<Rightarrow> string list" where
  "path_parts p = filter (\<lambda>c. c \<noteq> [] \<and> c \<noteq> ''.'') (split_on slash p)"

fun common_parts :: "string list \<Rightarrow> string list \<Rightarrow> string list" where
  "common_parts (x # xs) (y # ys) = (if x = y then x # common_parts xs ys else [])"
| "common_parts xs ys = []"

text \<open>\<open>os.path.commonpath\<close> of two paths; \<open>None\<close> is its \<open>ValueError\<close> on an absolute and a relative one.\<close>

definition commonpath :: "string \<Rightarrow> string \<Rightarrow> string option" where
  "commonpath a b =
    (if is_abs a \<noteq> is_abs b then None
     else Some ((if is_abs a then [slash] else []) @ join_with slash (common_parts (path_parts a) (path_parts b))))"

definition dnsbl_path_within_base :: "box \<Rightarrow> string \<Rightarrow> string \<Rightarrow> bool" where
  "dnsbl_path_within_base B path base_dir \<longleftrightarrow>
     commonpath (bx_realpath B base_dir) (bx_realpath B path) = Some (bx_realpath B base_dir)"

definition feed_path :: "string \<Rightarrow> string \<Rightarrow> string" where
  "feed_path base_dir raw = (if is_abs raw then raw else path_join base_dir raw)"

subsection \<open>Validation\<close>

fun is_str :: "jvalue \<Rightarrow> bool" where
  "is_str (V_str s) = True"
| "is_str v = False"

fun is_bool :: "jvalue \<Rightarrow> bool" where
  "is_bool (V_bool b) = True"
| "is_bool v = False"

fun is_str_list :: "jvalue \<Rightarrow> bool" where
  "is_str_list (V_list vs) = list_all is_str vs"
| "is_str_list v = False"

fun one_of :: "string list \<Rightarrow> jvalue \<Rightarrow> bool" where
  "one_of xs (V_str s) = (s \<in> set xs)"
| "one_of xs v = False"

fun nonempty :: "jvalue \<Rightarrow> bool" where
  "nonempty (V_str s) = (s \<noteq> [])"
| "nonempty v = False"

text \<open>The messages of the exceptions; the first check that fails raises.\<close>

fun first_fault :: "string option list \<Rightarrow> string option" where
  "first_fault [] = None"
| "first_fault (None # fs) = first_fault fs"
| "first_fault (Some f # fs) = Some f"

definition unless :: "bool \<Rightarrow> string \<Rightarrow> string option" where
  "unless ok msg = (if ok then None else Some msg)"

text \<open>A key that may be absent.\<close>

definition optional :: "(jvalue \<Rightarrow> bool) \<Rightarrow> jvalue option \<Rightarrow> bool" where
  "optional P v = (case v of None \<Rightarrow> True | Some x \<Rightarrow> P x)"

definition required :: "(jvalue \<Rightarrow> bool) \<Rightarrow> jvalue option \<Rightarrow> bool" where
  "required P v = (case v of None \<Rightarrow> False | Some x \<Rightarrow> P x)"

definition list_fields :: "string list" where
  "list_fields = [''tld_wildcard_blacklist'', ''tld_wildcard_exclusion'', ''user_whitelist'', ''user_unlock'', ''top1m_list'']"

definition config_fault :: "jvalue \<Rightarrow> string option" where
  "config_fault config = first_fault
    (map (\<lambda>k. unless (optional is_str_list (vget k config))
        (''DNSBL manifest/v1 config.'' @ k @ '' must be list[str]'')) list_fields
     @ map (\<lambda>k. unless (optional is_bool (vget k config))
        (''DNSBL manifest/v1 config.'' @ k @ '' must be bool'')) [''top1m_enabled'', ''regex_cap'']
     @ [unless (optional (one_of [''0'', ''1'', ''2'', ''3'', ''4'', ''5'', ''6'']) (vget ''builtin_log_flag'' config))
          ''DNSBL manifest/v1 config.builtin_log_flag must be one of \"0\"..\"6\"''])"

definition feed_label :: "nat \<Rightarrow> string" where
  "feed_label i = ''DNSBL manifest/v1 feeds['' @ nat_text i @ '']''"

definition feed_fault :: "nat \<times> jvalue \<Rightarrow> string option" where
  "feed_fault = (\<lambda>(i, feed). first_fault
    ([unless (dict_of feed \<noteq> None) (feed_label i @ '' must be an object'')]
     @ map (\<lambda>k. unless (required is_str (vget k feed)) (feed_label i @ ''.'' @ k @ '' must be a string''))
         [''raw'', ''feed'', ''group'', ''log_flag'']
     @ map (\<lambda>k. unless (required nonempty (vget k feed)) (feed_label i @ ''.'' @ k @ '' must be a non-empty string''))
         [''raw'', ''feed'']
     @ [unless (optional (one_of [''feed'', ''user'']) (vget ''provenance'' feed)) (feed_label i @ ''.provenance must be feed or user''),
        unless (optional (one_of [''deny'', ''permit'']) (vget ''mode'' feed)) (feed_label i @ ''.mode must be deny or permit''),
        unless (optional is_bool (vget ''top1m'' feed)) (feed_label i @ ''.top1m must be bool'')]))"

fun text_of :: "jvalue option \<Rightarrow> string" where
  "text_of (Some (V_str s)) = s"
| "text_of v = []"

definition quoted :: "string \<Rightarrow> string" where
  "quoted s = CHR 0x27 # s @ [CHR 0x27]"

definition raw_fault :: "box \<Rightarrow> string \<Rightarrow> nat \<times> jvalue \<Rightarrow> string option" where
  "raw_fault B base_dir = (\<lambda>(i, feed).
    (let path = feed_path base_dir (text_of (vget ''raw'' feed)) in first_fault
      [unless (dnsbl_path_within_base B path base_dir)
         (feed_label i @ ''.raw resolves outside manifest base: '' @ quoted path),
       unless (bx_isfile B path) (feed_label i @ ''.raw is missing or not a regular file: '' @ quoted path)]))"

definition manifest_fault :: "box \<Rightarrow> jvalue \<Rightarrow> string \<Rightarrow> string option" where
  "manifest_fault B manifest base_dir =
    (if dict_of manifest = None then Some ''DNSBL manifest/v1 root must be an object''
     else if vget ''version'' manifest \<noteq> Some (V_int 1) then Some ''DNSBL manifest/v1 version must be integer 1''
     else (case vget ''config'' manifest of
         Some (V_dict c) \<Rightarrow>
          (case config_fault (V_dict c) of
             Some f \<Rightarrow> Some f
           | None \<Rightarrow>
              (case vget ''feeds'' manifest of
                 Some (V_list feeds) \<Rightarrow>
                  first_fault (map feed_fault (List.enumerate 0 feeds) @ map (raw_fault B base_dir) (List.enumerate 0 feeds))
               | _ \<Rightarrow> Some ''DNSBL manifest/v1 feeds must be a list''))
       | _ \<Rightarrow> Some ''DNSBL manifest/v1 config must be an object''))"

definition dnsbl_validate_manifest_raws :: "box \<Rightarrow> jvalue \<Rightarrow> string \<Rightarrow> py_error option" where
  "dnsbl_validate_manifest_raws B manifest base_dir = map_option GenerationError (manifest_fault B manifest base_dir)"

subsection \<open>Feeds\<close>

text \<open>The lines of a file: LF ends one, and a last line may lack it.\<close>

definition file_lines :: "string \<Rightarrow> string list" where
  "file_lines s = (let ls = split_on (CHR 0x0A) s in if last ls = [] then butlast ls else ls)"

text \<open>The reader: the lines it yields, the exception of the fail-closed one, and what it writes to stderr.\<close>

definition dnsbl_file_line_reader ::
  "box \<Rightarrow> string \<Rightarrow> bool \<Rightarrow> string \<Rightarrow> string list \<times> py_error option \<times> string list" where
  "dnsbl_file_line_reader B base_dir fail_closed raw =
    (let path = feed_path base_dir raw;
         refuse = (\<lambda>ls message. (ls, if fail_closed then Some (GenerationError message) else None,
            [''[pfBlockerNG]: '' @ message])) in
     if \<not> dnsbl_path_within_base B path base_dir then refuse [] (''Refusing DNSBL feed outside base dir: '' @ quoted path)
     else (case bx_open B path of
         Inl e \<Rightarrow> refuse [] (''Failed to read DNSBL feed '' @ quoted path @ '': '' @ error_text e)
       | Inr (content, ended) \<Rightarrow>
          (let ls = map (filter (\<lambda>c. c \<noteq> CHR 0x0D)) (file_lines content) in
           case ended of
             None \<Rightarrow> (ls, None, [])
           | Some e \<Rightarrow> refuse ls (''Failed while reading DNSBL feed '' @ quoted path @ '': '' @ error_text e))))"

text \<open>\<open>build\<close> consumes a reader to its end or is ended by its exception.\<close>

definition fail_closed_reader :: "box \<Rightarrow> string \<Rightarrow> string \<Rightarrow> py_error + string list" where
  "fail_closed_reader B base_dir raw = (case dnsbl_file_line_reader B base_dir True raw of
       (ls, Some e, out) \<Rightarrow> Inl e | (ls, None, out) \<Rightarrow> Inr ls)"

definition is_regular :: "file_stat \<Rightarrow> bool" where
  "is_regular st \<longleftrightarrow> fs_mode st div 4096 mod 16 = 8"

definition same_file :: "file_stat \<Rightarrow> file_stat \<Rightarrow> bool" where
  "same_file a b \<longleftrightarrow> (fs_dev a, fs_ino a, fs_mode a, fs_size a, fs_mtime a) = (fs_dev b, fs_ino b, fs_mode b, fs_size b, fs_mtime b)"

text \<open>The checks after the lines were yielded.\<close>

definition sidecar_stable :: "box \<Rightarrow> file_stat \<Rightarrow> reading \<Rightarrow> bool" where
  "sidecar_stable B opened r =
    (let fin = rg_finished r; pathname = rg_pathname r;
         pathname_same = (is_regular pathname \<and> (fs_dev pathname, fs_ino pathname) = (fs_dev opened, fs_ino opened));
         pathname_replaced = (is_regular pathname \<and> \<not> pathname_same \<and> fs_nlink fin < fs_nlink opened);
         fd_metadata_changed = ((fs_ctime fin, fs_nlink fin) \<noteq> (fs_ctime opened, fs_nlink opened)) in
     rg_position r = fs_size fin \<and> same_file opened fin
     \<and> bx_md5 B (rg_content r) = bx_md5 B (rg_expected r) \<and> bx_md5 B (rg_final r) = bx_md5 B (rg_expected r)
     \<and> (pathname_same \<or> pathname_replaced) \<and> (fd_metadata_changed \<longrightarrow> pathname_replaced))"

definition dnsbl_fixed_top1m_lines :: "box \<Rightarrow> string \<Rightarrow> py_error + string list" where
  "dnsbl_fixed_top1m_lines B base_dir =
    (let path = path_join base_dir ''pfb_py_top1m.txt''; sc = bx_sidecar B;
         fault = (\<lambda>msg. Inl (GenerationError (''TOP1M sidecar '' @ msg @ '': '' @ quoted path))) in
     if \<not> sc_nofollow sc then fault ''cannot be opened without symlink protection''
     else (case sc_path_stat sc of
         Inl e \<Rightarrow> fault ''unavailable''
       | Inr path_stat \<Rightarrow>
          if \<not> is_regular path_stat then fault ''is not a regular file''
          else if sc_open sc \<noteq> None then fault ''unavailable''
          else (case sc_opened sc of
              Inl e \<Rightarrow> fault ''read failed''
            | Inr opened \<Rightarrow>
               if \<not> is_regular opened then fault ''is not a regular file''
               else if \<not> same_file path_stat opened then fault ''changed before reading''
               else (case sc_reading sc of
                   Inl e \<Rightarrow> fault ''read failed''
                 | Inr r \<Rightarrow>
                    (let decoded = map (bx_utf8 B) (file_lines (rg_content r)) in
                     if None \<in> set decoded then fault ''read failed''
                     else if \<not> sidecar_stable B opened r then fault ''changed while reading''
                     else Inr (map (strip \<circ> the) decoded))))))"

subsection \<open>Configuration\<close>

definition load_psl_authority :: "unicode_env \<Rightarrow> box \<Rightarrow> string \<Rightarrow> bool \<Rightarrow> py_error + PslRules" where
  "load_psl_authority U B path enabled =
    (let failed = (\<lambda>e. Inl (ValueError (''PSL authority '' @ quoted path @ '': '' @ error_text e))) in
     if \<not> enabled then Inr empty_rules
     else (case bx_psl B of
         Inl e \<Rightarrow> failed e
       | Inr f \<Rightarrow>
          if \<not> pf_regular f \<or> \<not> pf_readable f then failed (ValueError ''authority is not a readable regular file'')
          else (case pf_text f of
              Inl e \<Rightarrow> failed e
            | Inr text_ \<Rightarrow>
               if CHR 0x00 \<in> set text_ then failed (ValueError ''authority contains NUL'')
               else (case parse_psl_rules U text_ of Inl e \<Rightarrow> failed e | Inr rules \<Rightarrow> Inr rules))))"

text \<open>The settings of \<open>pfb\<close> that only the loader reads.\<close>

record loader =
  ld_pfb :: pfb
  ld_py_psl :: string
  ld_tld_wildcard :: bool

fun texts_of :: "jvalue option \<Rightarrow> string list" where
  "texts_of (Some (V_list vs)) = map (\<lambda>v. text_of (Some v)) vs"
| "texts_of v = []"

fun flag_of :: "bool \<Rightarrow> jvalue option \<Rightarrow> bool" where
  "flag_of b (Some (V_bool v)) = v"
| "flag_of b v = b"

definition dnsbl_config_from_manifest :: "unicode_env \<Rightarrow> box \<Rightarrow> loader \<Rightarrow> jvalue \<Rightarrow> py_error + build_config" where
  "dnsbl_config_from_manifest U B S manifest =
    (let config = dict_get (vget ''config'' manifest) (V_dict []); p = ld_pfb S;
         private_policy = dict_get (p_private_policy p) ''honor''; icann_policy = dict_get (p_icann_policy p) ''honor'' in
     case load_psl_authority U B (ld_py_psl S)
        (ld_tld_wildcard S \<or> p_tld_allow p \<or> private_policy \<noteq> ''honor'' \<or> icann_policy \<noteq> ''honor'') of
       Inl e \<Rightarrow> Inl e
     | Inr rules \<Rightarrow> Inr
        \<lparr>bc_blacklist = Some (texts_of (vget ''tld_wildcard_blacklist'' config)),
          bc_exclusion = Some (texts_of (vget ''tld_wildcard_exclusion'' config)),
          bc_regex_cap = Some (flag_of (p_regex_cap p) (vget ''regex_cap'' config)),
          bc_psl_rules = Some rules,
          bc_psl_wildcard_enabled = Some (ld_tld_wildcard S),
          bc_private_policy = Some private_policy,
          bc_icann_policy = Some icann_policy,
          bc_psl_include_private = Some (dict_get (p_psl_include_private p) True),
          bc_builtin_log_flag = Some (text_of (Some (dict_get (vget ''builtin_log_flag'' config) (V_str ''0'')))),
          bc_user_whitelist = Some (texts_of (vget ''user_whitelist'' config)),
          bc_user_unlock = Some (texts_of (vget ''user_unlock'' config))\<rparr>)"

text \<open>A row of the validated manifest as \<open>build\<close> reads it.\<close>

definition opt_text :: "jvalue option \<Rightarrow> string option" where
  "opt_text v = map_option (\<lambda>x. text_of (Some x)) v"

definition feed_row_of :: "jvalue \<Rightarrow> feed_row" where
  "feed_row_of j = \<lparr>fr_raw = text_of (vget ''raw'' j), fr_feed = text_of (vget ''feed'' j),
     fr_group = text_of (vget ''group'' j), fr_log_flag = text_of (vget ''log_flag'' j),
     fr_mode = opt_text (vget ''mode'' j), fr_provenance = opt_text (vget ''provenance'' j),
     fr_top1m = map_option (\<lambda>x. flag_of False (Some x)) (vget ''top1m'' j)\<rparr>"

fun items_of :: "jvalue option \<Rightarrow> jvalue list" where
  "items_of (Some (V_list vs)) = vs"
| "items_of v = []"

subsection \<open>The build\<close>

text \<open>The inner \<open>try\<close>: the exception that ends it, or the result; with what it wrote to stderr.\<close>

definition legacy_warning :: "string \<Rightarrow> bool \<Rightarrow> string" where
  "legacy_warning manifest_path top1m_enabled = ''[pfBlockerNG]: DNSBL manifest '' @ quoted manifest_path
     @ '' still carries the retired config.top1m_list -- ''
     @ (if top1m_enabled then ''reading TOP1M from it'' else ''ignoring it (TOP1M is disabled)'')
     @ '' until the next full update rewrites the manifest''"

definition manifest_build ::
  "unicode_env \<Rightarrow> re_env \<Rightarrow> box \<Rightarrow> loader \<Rightarrow> string \<Rightarrow> jvalue \<Rightarrow> diag \<Rightarrow> (py_error + BuildResult) \<times> diag" where
  "manifest_build U E B S manifest_path manifest d =
    (let base_dir = path_dirname (bx_abspath B manifest_path) in
     case dnsbl_validate_manifest_raws B manifest base_dir of
       Some e \<Rightarrow> (Inl e, d)
     | None \<Rightarrow>
        (case dnsbl_config_from_manifest U B S manifest of
           Inl e \<Rightarrow> (Inl e, d)
         | Inr config \<Rightarrow>
            (let mc = dict_get (vget ''config'' manifest) (V_dict []);
                 top1m_enabled = flag_of False (vget ''top1m_enabled'' mc);
                 legacy = vget ''top1m_list'' mc;
                 d = (if legacy = None then d else write_line (legacy_warning manifest_path top1m_enabled) d);
                 top1m_lines = (if \<not> top1m_enabled then Inr []
                   else if legacy \<noteq> None then Inr (texts_of legacy) else dnsbl_fixed_top1m_lines B base_dir) in
             case top1m_lines of
               Inl e \<Rightarrow> (Inl e, d)
             | Inr ls \<Rightarrow>
                (case build U E (map feed_row_of (items_of (vget ''feeds'' manifest))) config
                    (fail_closed_reader B base_dir) top1m_enabled ls d of
                   Inl e \<Rightarrow> (Inl e, d)
                 | Inr (result, d) \<Rightarrow> (Inr result, d)))))"

definition dnsbl_build_from_manifest ::
  "unicode_env \<Rightarrow> re_env \<Rightarrow> box \<Rightarrow> loader \<Rightarrow> string \<Rightarrow> diag \<Rightarrow> ledger \<Rightarrow> BuildResult option \<times> diag \<times> ledger" where
  "dnsbl_build_from_manifest U E B S manifest_path d L =
    (let raise = (\<lambda>message. py_status_open (bx_status_ok B) (bx_now B) ''dnsbl'' manifest_path ''parse'' message L) in
     if \<not> bx_isfile B manifest_path then
       (None, d, raise (''DNSBL manifest absent: '' @ manifest_path @ '' -- DNSBL not loaded''))
     else (case bx_json B of
         Inl e \<Rightarrow>
          (let message = ''Failed to load DNSBL manifest '' @ quoted manifest_path @ '': '' @ error_text e;
               d = write_line (''[pfBlockerNG]: '' @ message) d in (None, d, raise message))
       | Inr manifest \<Rightarrow>
          (case manifest_build U E B S manifest_path manifest d of
             (Inl e, d) \<Rightarrow>
              (let message = ''Failed to build DNSBL structures from raw: '' @ error_text e;
                   d = write_line (''[pfBlockerNG]: '' @ message) d in (None, d, raise message))
           | (Inr result, d) \<Rightarrow> (Some result, d, py_status_close (bx_status_ok B) ''dnsbl'' manifest_path ''parse'' L))))"

subsection \<open>Published counts\<close>

text \<open>The rows of \<open>dnsbl_emit_reject_stats\<close>: one per feed and group with a count, in the order of the keys; the
  suffix counts only where they are not zero.\<close>

definition count_of :: "(bucket \<times> nat) list \<Rightarrow> bucket \<Rightarrow> nat" where
  "count_of counts b = dict_get (map_of counts b) 0"

definition reject_row :: "(string \<times> string) \<times> (bucket \<times> nat) list \<Rightarrow> (string \<times> jvalue) list option" where
  "reject_row = (\<lambda>((feed, grp), counts).
    (let suffix_rows = (\<lambda>k b. if count_of counts b > 0 then [(k, V_int (int (count_of counts b)))] else []);
         extra = suffix_rows ''suffix_drop'' Suffix_drop @ suffix_rows ''suffix_demote'' Suffix_demote in
     if count_of counts Shape > 0 \<or> count_of counts Wire_cap > 0 \<or> extra \<noteq> []
     then Some ([(''feed'', V_str feed), (''group'', V_str grp), (''shape'', V_int (int (count_of counts Shape))),
        (''wire_cap'', V_int (int (count_of counts Wire_cap)))] @ extra)
     else None))"

definition reject_rows :: "reject_tally \<Rightarrow> jvalue" where
  "reject_rows tally = V_list (map V_dict (List.map_filter reject_row (sort_key fst tally)))"

text \<open>Both writers: the file's new content, or \<open>None\<close> with the error line when the write fails; the count is written
  in place, the tally through a temporary file.\<close>

definition dnsbl_emit_count :: "string \<Rightarrow> py_error option \<Rightarrow> nat \<Rightarrow> diag \<Rightarrow> string option \<times> diag" where
  "dnsbl_emit_count count_path failure n d = (case failure of
       None \<Rightarrow> (Some (nat_text n @ [CHR 0x0A]), d)
     | Some e \<Rightarrow> (None, write_line (''[pfBlockerNG]: Failed to write DNSBL count '' @ quoted count_path @ '': '' @ error_text e) d))"

definition dnsbl_emit_reject_stats :: "string \<Rightarrow> py_error option \<Rightarrow> reject_tally \<Rightarrow> diag \<Rightarrow> jvalue option \<times> diag" where
  "dnsbl_emit_reject_stats stats_path failure tally d = (case failure of
       None \<Rightarrow> (Some (reject_rows tally), d)
     | Some e \<Rightarrow> (None, write_line (''[pfBlockerNG]: Failed to write DNSBL reject stats '' @ quoted stats_path @ '': '' @ error_text e) d))"

end
