(* ===== verification/ManifestPolicy.thy ===== *)
theory ManifestPolicy
  imports Manifest SwapPolicy
begin

text \<open>
  What the loader guarantees: a manifest that validates has the types \<open>build\<close> reads, no byte of a file
  outside the manifest's directory reaches the structures, and every outcome shows in the ledger and
  leaves a snapshot in place.
\<close>

subsection \<open>Containment\<close>

text \<open>A path as \<open>os.path.realpath\<close> returns one: absolute, without empty or dot components.\<close>

definition canonical :: "string \<Rightarrow> bool" where
  "canonical p \<longleftrightarrow> is_abs p \<and> join_with slash (path_parts p) = tl p"

lemma canonical_join: "canonical p \<Longrightarrow> p = slash # join_with slash (path_parts p)"
  by (cases p) (auto simp: canonical_def is_abs_def)

lemma common_parts_prefix: "common_parts xs ys = xs \<longleftrightarrow> prefix xs ys"
  by (induction xs ys rule: common_parts.induct) auto

lemma common_parts_is_prefix: "prefix (common_parts xs ys) xs"
  by (induction xs ys rule: common_parts.induct) auto

lemma path_parts_join:
  assumes "\<forall>c \<in> set cs. c \<noteq> [] \<and> c \<noteq> ''.'' \<and> slash \<notin> set c"
  shows "path_parts (join_with slash cs) = cs"
proof (cases cs)
  case Nil
  then show ?thesis by (simp add: path_parts_def)
next
  case Cons
  then have "split_on slash (join_with slash cs) = cs" using assms by (intro split_join) auto
  then show ?thesis using assms by (auto simp: path_parts_def filter_id_conv)
qed

lemma path_parts_clean: "c \<in> set (path_parts p) \<Longrightarrow> c \<noteq> [] \<and> c \<noteq> ''.'' \<and> slash \<notin> set c"
  using split_on_no_sep by (auto simp: path_parts_def)

lemma commonpath_base:
  assumes "canonical a" and "canonical b"
  shows "commonpath a b = Some a \<longleftrightarrow> prefix (path_parts a) (path_parts b)"
proof -
  let ?c = "common_parts (path_parts a) (path_parts b)"
  have abs: "is_abs a" "is_abs b" using assms by (simp_all add: canonical_def)
  have "set ?c \<subseteq> set (path_parts a)" using common_parts_is_prefix set_mono_prefix by blast
  then have clean: "path_parts (join_with slash ?c) = ?c" 
    using path_parts_clean by (intro path_parts_join) blast
  have "commonpath a b = Some (slash # join_with slash ?c)" using abs by (simp add: commonpath_def)
  then have "commonpath a b = Some a \<longleftrightarrow> slash # join_with slash ?c = slash # join_with slash (path_parts a)"
    using canonical_join [OF assms(1)] by simp
  also have "\<dots> \<longleftrightarrow> ?c = path_parts a"
  proof -
    have "path_parts (join_with slash (path_parts a)) = path_parts a"
      using path_parts_clean by (intro path_parts_join) blast
    then show ?thesis using clean by (metis list.inject)
  qed
  finally show ?thesis by (simp add: common_parts_prefix)
qed

subsection \<open>Validation\<close>

lemma first_fault_None: "first_fault fs = None \<longleftrightarrow> list_all (\<lambda>f. f = None) fs"
  by (induction fs rule: first_fault.induct) auto

lemma unless_None [simp]: "unless ok m = None \<longleftrightarrow> ok"
  by (simp add: unless_def)

lemma required_text: "required is_str v \<Longrightarrow> v = Some (V_str (text_of v))"
  by (cases v; cases "the v") (auto simp: required_def)

lemma optional_text: "optional (one_of xs) v \<Longrightarrow> v = map_option V_str (opt_text v)"
  by (cases v; cases "the v") (auto simp: optional_def opt_text_def)

lemma optional_flag: "optional is_bool v \<Longrightarrow> v = map_option V_bool (map_option (\<lambda>x. flag_of False (Some x)) v)"
  by (cases v; cases "the v") (auto simp: optional_def)

lemma feed_fault_typed:
  assumes "feed_fault (i, j) = None"
  shows "vget ''raw'' j = Some (V_str (fr_raw (feed_row_of j))) \<and> vget ''feed'' j = Some (V_str (fr_feed (feed_row_of j)))
    \<and> vget ''group'' j = Some (V_str (fr_group (feed_row_of j))) \<and> vget ''log_flag'' j = Some (V_str (fr_log_flag (feed_row_of j)))
    \<and> vget ''mode'' j = map_option V_str (fr_mode (feed_row_of j))
    \<and> vget ''provenance'' j = map_option V_str (fr_provenance (feed_row_of j))
    \<and> vget ''top1m'' j = map_option V_bool (fr_top1m (feed_row_of j))
    \<and> fr_raw (feed_row_of j) \<noteq> [] \<and> fr_feed (feed_row_of j) \<noteq> []"
proof -
  have r: "required is_str (vget ''raw'' j)" "required is_str (vget ''feed'' j)" "required is_str (vget ''group'' j)"
    "required is_str (vget ''log_flag'' j)" "required nonempty (vget ''raw'' j)" "required nonempty (vget ''feed'' j)"
    "optional (one_of [''feed'', ''user'']) (vget ''provenance'' j)" "optional (one_of [''deny'', ''permit'']) (vget ''mode'' j)"
    "optional is_bool (vget ''top1m'' j)"
    using assms by (simp_all add: feed_fault_def first_fault_None)
  have n: "text_of v \<noteq> []" if "required nonempty v" for v
    using that by (cases v; cases "the v") (auto simp: required_def)
  show ?thesis
    using r(1-4)[THEN required_text] r(7,8)[THEN optional_text] optional_flag [OF r(9)] n [OF r(5)] n [OF r(6)]
    by (simp add: feed_row_of_def)
qed

lemma manifest_fault_feeds:
  assumes "manifest_fault B m base = None"
  obtains feeds where "vget ''feeds'' m = Some (V_list feeds)"
    and "\<And>i. i < length feeds \<Longrightarrow> feed_fault (i, feeds ! i) = None \<and> raw_fault B base (i, feeds ! i) = None"
proof -
  obtain c where c: "vget ''config'' m = Some (V_dict c)" "config_fault (V_dict c) = None"
    using assms by (auto simp: manifest_fault_def split: if_splits option.splits jvalue.splits)
  then obtain feeds where f: "vget ''feeds'' m = Some (V_list feeds)"
    and all: "first_fault (map feed_fault (List.enumerate 0 feeds) @ map (raw_fault B base) (List.enumerate 0 feeds)) = None"
    using assms by (auto simp: manifest_fault_def split: if_splits option.splits jvalue.splits)
  have "feed_fault (i, feeds ! i) = None \<and> raw_fault B base (i, feeds ! i) = None" if "i < length feeds" for i
  proof -
    have "(i, feeds ! i) \<in> set (List.enumerate 0 feeds)" using that by (auto simp: in_set_enumerate_eq)
    then show ?thesis using all by (auto simp: first_fault_None list_all_iff)
  qed
  with f show ?thesis by (rule that)
qed

text \<open>C37. A manifest that validates is one \<open>build\<close> can read: every row has the four texts and the optional keys it reads,
  each of its type, and its raw file is a regular file under the manifest's own directory, links resolved.\<close>

theorem manifest_rows_typed:
  assumes "manifest_fault B m base = None" and "\<And>p. canonical (bx_realpath B p)"
    and "j \<in> set (items_of (vget ''feeds'' m))"
  shows "let row = feed_row_of j; path = feed_path base (fr_raw row) in
     vget ''raw'' j = Some (V_str (fr_raw row)) \<and> vget ''feed'' j = Some (V_str (fr_feed row))
     \<and> vget ''group'' j = Some (V_str (fr_group row)) \<and> vget ''log_flag'' j = Some (V_str (fr_log_flag row))
     \<and> vget ''mode'' j = map_option V_str (fr_mode row) \<and> vget ''provenance'' j = map_option V_str (fr_provenance row)
     \<and> vget ''top1m'' j = map_option V_bool (fr_top1m row)
     \<and> bx_isfile B path \<and> prefix (path_parts (bx_realpath B base)) (path_parts (bx_realpath B path))"
proof -
  obtain feeds where f: "vget ''feeds'' m = Some (V_list feeds)"
    and ok: "\<And>i. i < length feeds \<Longrightarrow> feed_fault (i, feeds ! i) = None \<and> raw_fault B base (i, feeds ! i) = None"
    using manifest_fault_feeds [OF assms(1)] by blast
  obtain i where i: "i < length feeds" "j = feeds ! i" using assms(3) f by (auto simp: in_set_conv_nth)
  note typed = feed_fault_typed [of i j]
  have "dnsbl_path_within_base B (feed_path base (text_of (vget ''raw'' j))) base \<and> bx_isfile B (feed_path base (text_of (vget ''raw'' j)))"
    using ok [OF i(1)] i(2) by (simp add: raw_fault_def Let_def first_fault_None)
  moreover have "text_of (vget ''raw'' j) = fr_raw (feed_row_of j)" by (simp add: feed_row_of_def)
  ultimately show ?thesis
    using typed ok [OF i(1)] i(2) commonpath_base [OF assms(2) assms(2)] by (simp add: Let_def dnsbl_path_within_base_def)
qed

subsection \<open>Nothing else is read\<close>

definition reads_elsewhere :: "(string \<Rightarrow> py_error + string \<times> py_error option) \<Rightarrow> string \<Rightarrow> box \<Rightarrow> box" where
  "reads_elsewhere f base B = B\<lparr>bx_open := (\<lambda>p. if dnsbl_path_within_base B p base then bx_open B p else f p)\<rparr>"

lemma reader_elsewhere: "fail_closed_reader (reads_elsewhere f base B) base = fail_closed_reader B base"
proof
  fix raw
  show "fail_closed_reader (reads_elsewhere f base B) base raw = fail_closed_reader B base raw"
  proof (cases "dnsbl_path_within_base B (feed_path base raw) base")
    case True
    then show ?thesis by (simp add: fail_closed_reader_def dnsbl_file_line_reader_def Let_def reads_elsewhere_def
        dnsbl_path_within_base_def)
  next
    case False
    then show ?thesis by (simp add: fail_closed_reader_def dnsbl_file_line_reader_def Let_def reads_elsewhere_def
        dnsbl_path_within_base_def)
  qed
qed

lemma elsewhere_rest:
  "manifest_fault (reads_elsewhere f base B) m b = manifest_fault B m b"
  "dnsbl_config_from_manifest U (reads_elsewhere f base B) S m = dnsbl_config_from_manifest U B S m"
  "dnsbl_fixed_top1m_lines (reads_elsewhere f base B) b = dnsbl_fixed_top1m_lines B b"
proof -
  have "raw_fault (reads_elsewhere f base B) b = raw_fault B b"
    by (simp add: raw_fault_def reads_elsewhere_def dnsbl_path_within_base_def fun_eq_iff)
  then show "manifest_fault (reads_elsewhere f base B) m b = manifest_fault B m b"
    by (simp only: manifest_fault_def)
  have "bx_psl (reads_elsewhere f base B) = bx_psl B" by (simp add: reads_elsewhere_def)
  then have "load_psl_authority U (reads_elsewhere f base B) p e = load_psl_authority U B p e" for p e
    by (simp only: load_psl_authority_def)
  then show "dnsbl_config_from_manifest U (reads_elsewhere f base B) S m = dnsbl_config_from_manifest U B S m"
    by (simp only: dnsbl_config_from_manifest_def)
  have "sidecar_stable (reads_elsewhere f base B) st r = sidecar_stable B st r" for st r
    by (simp add: sidecar_stable_def reads_elsewhere_def)
  moreover have "bx_sidecar (reads_elsewhere f base B) = bx_sidecar B" "bx_utf8 (reads_elsewhere f base B) = bx_utf8 B"
    by (simp_all add: reads_elsewhere_def)
  ultimately show "dnsbl_fixed_top1m_lines (reads_elsewhere f base B) b = dnsbl_fixed_top1m_lines B b"
    by (simp only: dnsbl_fixed_top1m_lines_def)
qed


subsection \<open>Outcomes\<close>

lemma build_from_manifest_cases:
  obtains (failed) d' message where
      "dnsbl_build_from_manifest U E B S path d L = (None, d', py_status_open (bx_status_ok B) (bx_now B) ''dnsbl'' path ''parse'' message L)"
    | (built) d' result where
      "dnsbl_build_from_manifest U E B S path d L = (Some result, d', py_status_close (bx_status_ok B) ''dnsbl'' path ''parse'' L)"
proof (cases "bx_isfile B path")
  case False
  then show ?thesis by (auto simp: dnsbl_build_from_manifest_def intro: failed)
next
  case True
  show ?thesis
  proof (cases "bx_json B")
    case (Inl e)
    then show ?thesis using True by (auto simp: dnsbl_build_from_manifest_def Let_def intro: failed)
  next
    case (Inr m)
    then show ?thesis using True
      by (cases "manifest_build U E B S path m d"; cases "fst (manifest_build U E B S path m d)")
        (auto simp: dnsbl_build_from_manifest_def Let_def intro: failed built)
  qed
qed

lemma status_after:
  assumes "writable L"
  shows "status_open_for f i s (py_status_open True now f i s message L)"
    and "\<not> status_open_for f i s (py_status_close True f i s L)"
proof -
  show "status_open_for f i s (py_status_open True now f i s message L)"
  proof (cases "refresh_first (entry_is f i s) message now (py_status_read_all L)")
    case None
    then show ?thesis using read_written [OF assms]
      by (simp add: py_status_open_def Let_def status_open_for_def)
  next
    case (Some es)
    then show ?thesis using read_written [OF assms] refresh_first_Some(4) [OF Some]
      by (simp add: py_status_open_def Let_def status_open_for_def)
  qed
  show "\<not> status_open_for f i s (py_status_close True f i s L)"
  proof (cases "length (filter (\<lambda>e. \<not> entry_is f i s e) (py_status_read_all L)) = length (py_status_read_all L)")
    case True
    then have "filter (\<lambda>e. \<not> entry_is f i s e) (py_status_read_all L) = py_status_read_all L"
      by (metis length_filter_less less_irrefl filter_True)
    then have "\<forall>e \<in> set (py_status_read_all L). \<not> entry_is f i s e" by (simp only: filter_id_conv)
    then show ?thesis using True by (auto simp: py_status_close_def Let_def status_open_for_def list_ex_iff)
  next
    case False
    then show ?thesis using read_written [OF assms]
      by (simp add: py_status_close_def Let_def status_open_for_def list_ex_iff)
  qed
qed

text \<open>C39. Every outcome of a reload shows: a manifest that is missing, is not JSON, does not validate or does not build
  leaves the state as it was and its entry open in the ledger; one that builds is installed and closes the entry.\<close>

theorem reload_outcome_shows:
  assumes "writable L" and "bx_status_ok B"
  shows "let (result, d, L') = dnsbl_build_from_manifest U E B S path (es_diag (st_eval s)) L;
       s0 = s\<lparr>st_eval := (st_eval s)\<lparr>es_diag := d\<rparr>\<rparr>;
       (ok, s') = rebuild_and_swap opened (reload_builder E disk result) counts s0 in
     ok = (result \<noteq> None) \<and> status_open_for ''dnsbl'' path ''parse'' L' = (\<not> ok)
     \<and> (if ok then \<exists>snap. st_snapshot s' = Some snap \<and> sn_gen snap = st_next_gen s else s' = s0)"
proof (cases rule: build_from_manifest_cases [of U E B S path "es_diag (st_eval s)" L])
  case (failed d' message)
  have kept: "rebuild_and_swap opened (reload_builder E disk None) counts s0 = (False, s0)" for s0
    by (simp add: rebuild_and_swap_def reload_builder_def build_swap_snapshot_def)
  have raised: "status_open_for ''dnsbl'' path ''parse'' (py_status_open (bx_status_ok B) (bx_now B) ''dnsbl'' path ''parse'' message L)"
    using status_after(1) [OF assms(1)] assms(2) by (simp only: simp_thms)
  show ?thesis unfolding failed Let_def prod.case kept if_False by (intro conjI refl) (simp_all only: raised simp_thms)
next
  case (built d' r)
  let ?s = "s\<lparr>st_eval := (st_eval s)\<lparr>es_diag := d'\<rparr>\<rparr>"
  obtain snap0 s1 where b: "build_swap_snapshot E disk (Some r) ?s = (snap0, s1)" by fastforce
  obtain snap where snap: "snap0 = Some snap" "sn_gen snap = st_next_gen ?s" using built_frame(2) [OF b] by blast
  obtain ok s' where sw: "rebuild_and_swap opened (reload_builder E disk (Some r)) counts ?s = (ok, s')" by fastforce
  note f = swap_frame [OF b [unfolded snap(1)] sw]
  have closed: "\<not> status_open_for ''dnsbl'' path ''parse'' (py_status_close (bx_status_ok B) ''dnsbl'' path ''parse'' L)"
    using status_after(2) [OF assms(1)] assms(2) by (simp only: simp_thms)
  show ?thesis using f(1,2) snap(2) closed unfolding built Let_def prod.case sw by simp
qed

subsection \<open>Samples\<close>

definition sample_manifest :: jvalue where
  "sample_manifest = V_dict [(''version'', V_int 1), (''config'', V_dict [(''top1m_enabled'', V_bool False)]),
     (''feeds'', V_list [V_dict [(''raw'', V_str ''a.txt''), (''feed'', V_str ''f''), (''group'', V_str ''g''),
       (''log_flag'', V_str ''1''), (''mode'', V_str ''permit'')]])]"

definition sample_box :: box where
  "sample_box = \<lparr>bx_isfile = (\<lambda>p. p = ''/db/a.txt''), bx_abspath = (\<lambda>p. p),
     bx_realpath = (\<lambda>p. slash # join_with slash (path_parts p)), bx_open = (\<lambda>p. Inr (''bad.org'', None)),
     bx_json = Inr sample_manifest, bx_psl = Inl (OSError ''absent''),
     bx_sidecar = \<lparr>sc_nofollow = False, sc_path_stat = Inl (OSError ''absent''), sc_open = None,
       sc_opened = Inl (OSError ''absent''), sc_reading = Inl (OSError ''absent'')\<rparr>,
     bx_md5 = (\<lambda>s. s), bx_utf8 = Some, bx_status_ok = True, bx_now = 7\<rparr>"

lemma sample_canonical: "canonical (bx_realpath sample_box p)"
proof -
  have "path_parts (join_with slash (path_parts p)) = path_parts p"
    using path_parts_clean by (intro path_parts_join) blast
  then have "path_parts (slash # join_with slash (path_parts p)) = path_parts p" by (simp add: path_parts_def)
  then show ?thesis by (simp add: sample_box_def canonical_def is_abs_def)
qed

theorem manifest_rows_typed_witness:
  "manifest_fault sample_box sample_manifest ''/db'' = None
   \<and> fr_mode (feed_row_of (hd (items_of (vget ''feeds'' sample_manifest)))) = Some ''permit''
   \<and> prefix (path_parts (bx_realpath sample_box ''/db'')) (path_parts (bx_realpath sample_box ''/db/a.txt''))"
proof -
  have ok: "manifest_fault sample_box sample_manifest ''/db'' = None" by code_simp
  let ?j = "hd (items_of (vget ''feeds'' sample_manifest))"
  have j: "?j \<in> set (items_of (vget ''feeds'' sample_manifest))" by (simp add: sample_manifest_def)
  have "fr_raw (feed_row_of ?j) = ''a.txt''" "fr_mode (feed_row_of ?j) = Some ''permit''"
    by (simp_all add: sample_manifest_def feed_row_of_def opt_text_def)
  moreover have "feed_path ''/db'' ''a.txt'' = ''/db/a.txt''" by (simp add: feed_path_def is_abs_def path_join_def)
  ultimately show ?thesis using ok manifest_rows_typed [OF ok sample_canonical j] by (simp add: Let_def)
qed

definition sample_loader :: loader where
  "sample_loader = \<lparr>ld_pfb = sample_pfb, ld_py_psl = ''psl'', ld_tld_wildcard = False\<rparr>"

theorem reload_outcome_shows_witness:
  "status_open_for ''dnsbl'' ''m.json'' ''parse'' (snd (snd (dnsbl_build_from_manifest plain_unicode sample_env sample_box
     sample_loader ''m.json'' (es_diag (st_eval sample_state)) sample_ledger)))"
proof -
  have w: "writable sample_ledger" "bx_status_ok sample_box"
    by (simp_all add: writable_def sample_ledger_def sample_box_def)
  obtain d L' where b: "dnsbl_build_from_manifest plain_unicode sample_env sample_box sample_loader ''m.json''
      (es_diag (st_eval sample_state)) sample_ledger = (None, d, L')"
    by (simp add: dnsbl_build_from_manifest_def sample_box_def)
  obtain ok s' where sw: "rebuild_and_swap False (reload_builder sample_env sample_disk None) True
      (sample_state\<lparr>st_eval := (st_eval sample_state)\<lparr>es_diag := d\<rparr>\<rparr>) = (ok, s')" by fastforce
  show ?thesis
    using reload_outcome_shows [OF w, where U = plain_unicode and E = sample_env and S = sample_loader and path = "''m.json''"
        and s = sample_state and disk = sample_disk and opened = False and counts = True]
    unfolding b Let_def prod.case sw by (simp add: b)
qed

end
