(* ===== verification/Stats.thy ===== *)
theory Stats
  imports Control
begin

text \<open>
  The statistics databases: the connection with its retries (\<open>_db_run\<close>), the two flushes, the recovery
  of a broken file, the bounded queue and the worker that batches counter increments
  (\<open>pfb_db_worker\<close>).  A transaction that faults is rolled back; which tries fault, and what
  arrives while the worker waits, are inputs.
\<close>

subsection \<open>Tables\<close>

record stat_row =
  sr_group :: string
  sr_stamp :: string
  sr_entries :: nat
  sr_counter :: nat

text \<open>\<open>None\<close>: there is no such table.  A row of \<open>resolver\<close> is its number, the total and the queries.\<close>

record stats =
  sd_resolver :: "(int \<times> nat \<times> nat) list option"
  sd_dnsbl :: "stat_row list option"

definition db_resolver :: nat where "db_resolver = 1"
definition db_dnsbl :: nat where "db_dnsbl = 2"

definition seed_upstream_row :: "string \<Rightarrow> stat_row list \<Rightarrow> stat_row list" where
  "seed_upstream_row time rows =
    (if list_ex (\<lambda>r. sr_group r = ''Upstream'') rows then rows
     else rows @ [\<lparr>sr_group = ''Upstream'', sr_stamp = time, sr_entries = 0, sr_counter = 0\<rparr>])"

definition db_create :: "nat \<Rightarrow> string \<Rightarrow> stats \<Rightarrow> stats" where
  "db_create db time s =
    (if db = db_resolver then
       s\<lparr>sd_resolver := Some (case sd_resolver s of None \<Rightarrow> [(0, 0, 0)] | Some rows \<Rightarrow> if rows = [] then [(0, 0, 0)] else rows)\<rparr>
     else if db = db_dnsbl then
       s\<lparr>sd_dnsbl := Some (seed_upstream_row time (case sd_dnsbl s of None \<Rightarrow> [] | Some rows \<Rightarrow> rows))\<rparr>
     else s)"

subsection \<open>Transactions\<close>

text \<open>One attempt: whether connecting works, whether the work and its commit do; \<open>so_open\<close> are the
  connections that are kept.\<close>

record attempt =
  at_connect :: bool
  at_commit :: bool
  at_stamp :: string

record store =
  so_stats :: stats
  so_open :: "nat list"
  so_failures :: nat

definition db_close :: "nat \<Rightarrow> store \<Rightarrow> store" where
  "db_close db s = s\<lparr>so_open := removeAll db (so_open s)\<rparr>"

definition db_connect :: "nat \<Rightarrow> string \<Rightarrow> store \<Rightarrow> store" where
  "db_connect db time s = s\<lparr>so_open := db # so_open s, so_stats := db_create db time (so_stats s)\<rparr>"

text \<open>\<open>work\<close> gives the tables after the statements, or \<open>None\<close> where one raises.\<close>

fun db_try :: "nat \<Rightarrow> (string \<Rightarrow> stats \<Rightarrow> stats option) \<Rightarrow> attempt list \<Rightarrow> store \<Rightarrow> bool \<times> store" where
  "db_try db work [] s = (False, s\<lparr>so_failures := so_failures s + 1\<rparr>)"
| "db_try db work (a # tries) s =
    (let connected = db \<in> set (so_open s) in
     if \<not> connected \<and> \<not> at_connect a then db_try db work tries (db_close db s)
     else
      (let s = (if connected then s else db_connect db (at_stamp a) s) in
       case (if at_commit a then work (at_stamp a) (so_stats s) else None) of
         Some t \<Rightarrow> (True, s\<lparr>so_stats := t\<rparr>)
       | None \<Rightarrow> db_try db work tries (db_close db s)))"

definition db_run :: "nat \<Rightarrow> (string \<Rightarrow> stats \<Rightarrow> stats option) \<Rightarrow> (nat \<Rightarrow> attempt) \<Rightarrow> store \<Rightarrow> bool \<times> store" where
  "db_run db work tries s = db_try db work (map tries [0..<4]) s"

definition update_resolver :: "nat \<Rightarrow> string \<Rightarrow> stats \<Rightarrow> stats option" where
  "update_resolver delta time s = map_option
    (\<lambda>rows. s\<lparr>sd_resolver := Some (map (\<lambda>(row, total, queries). (row, if row = 0 then total + delta else total, queries)) rows)\<rparr>)
    (sd_resolver s)"

definition add_counter :: "string \<times> nat \<Rightarrow> stat_row list \<Rightarrow> stat_row list" where
  "add_counter = (\<lambda>(g, delta). map (\<lambda>r. if sr_group r = g then r\<lparr>sr_counter := sr_counter r + delta\<rparr> else r))"

definition update_dnsbl :: "(string \<times> nat) list \<Rightarrow> string \<Rightarrow> stats \<Rightarrow> stats option" where
  "update_dnsbl deltas time s = map_option
    (\<lambda>rows. s\<lparr>sd_dnsbl := Some (fold add_counter deltas
       (if ''Upstream'' \<in> fst ` set deltas then seed_upstream_row time rows else rows))\<rparr>)
    (sd_dnsbl s)"

definition db_flush_resolver :: "bool \<Rightarrow> nat \<Rightarrow> (nat \<Rightarrow> attempt) \<Rightarrow> store \<Rightarrow> bool \<times> store" where
  "db_flush_resolver con delta tries s =
    (if delta = 0 \<or> \<not> con then (True, s) else db_run db_resolver (update_resolver delta) tries s)"

definition db_flush_dnsbl :: "bool \<Rightarrow> (string \<times> nat) list \<Rightarrow> (nat \<Rightarrow> attempt) \<Rightarrow> store \<Rightarrow> bool \<times> store" where
  "db_flush_dnsbl con deltas tries s =
    (if deltas = [] \<or> \<not> con then (True, s) else db_run db_dnsbl (update_dnsbl deltas) tries s)"

definition db_validate :: "nat \<Rightarrow> (nat \<Rightarrow> attempt) \<Rightarrow> store \<Rightarrow> bool \<times> store" where
  "db_validate db tries s = db_run db (\<lambda>time t. Some t) tries s"

text \<open>A database that does not open is removed and opened once more; \<open>removed\<close> is whether the file was.\<close>

definition drop_table :: "nat \<Rightarrow> stats \<Rightarrow> stats" where
  "drop_table db s =
    (if db = db_resolver then s\<lparr>sd_resolver := None\<rparr> else if db = db_dnsbl then s\<lparr>sd_dnsbl := None\<rparr> else s)"

definition validate_db_with_recovery :: "nat \<Rightarrow> bool \<Rightarrow> (nat \<Rightarrow> attempt) \<Rightarrow> (nat \<Rightarrow> attempt) \<Rightarrow> store \<Rightarrow> bool \<times> store" where
  "validate_db_with_recovery db removed first second s =
    (case db_validate db first s of
       (True, s) \<Rightarrow> (True, s)
     | (False, s) \<Rightarrow>
         db_validate db second (if removed then s\<lparr>so_stats := drop_table db (so_stats s)\<rparr> else s))"

subsection \<open>The queue and the worker\<close>

definition db_queue_maxsize :: nat where "db_queue_maxsize = 5000"
definition db_max_batch :: nat where "db_max_batch = 2000"

datatype queue_item = Q_task db_task | Q_stop

record stats_worker =
  wk_running :: bool
  wk_queue :: "queue_item list"
  wk_dropped :: nat
  wk_resolver :: nat
  wk_deltas :: "(string \<times> nat) list"
  wk_resolver_con :: bool
  wk_dnsbl_con :: bool
  wk_store :: store

definition db_apply :: "db_task \<Rightarrow> (nat \<Rightarrow> attempt) \<Rightarrow> stats_worker \<Rightarrow> stats_worker" where
  "db_apply task tries w = w\<lparr>wk_store := snd (case task of
       Task_resolver \<Rightarrow> db_flush_resolver (wk_resolver_con w) 1 tries (wk_store w)
     | Task_dnsbl g \<Rightarrow> db_flush_dnsbl (wk_dnsbl_con w) [(g, 1)] tries (wk_store w))\<rparr>"

definition db_enqueue :: "(nat \<Rightarrow> attempt) \<Rightarrow> db_task \<Rightarrow> stats_worker \<Rightarrow> stats_worker" where
  "db_enqueue tries task w =
    (if wk_running w then
       (if length (wk_queue w) < db_queue_maxsize then w\<lparr>wk_queue := wk_queue w @ [Q_task task]\<rparr>
        else w\<lparr>wk_dropped := wk_dropped w + 1\<rparr>)
     else db_apply task tries w)"

definition accumulate :: "db_task \<Rightarrow> stats_worker \<Rightarrow> stats_worker" where
  "accumulate task w = (case task of
       Task_resolver \<Rightarrow> w\<lparr>wk_resolver := wk_resolver w + 1\<rparr>
     | Task_dnsbl g \<Rightarrow> w\<lparr>wk_deltas := AList.update g (dict_get (map_of (wk_deltas w) g) 0 + 1) (wk_deltas w)\<rparr>)"

definition flush_queries :: "(nat \<Rightarrow> attempt) \<Rightarrow> stats_worker \<Rightarrow> stats_worker" where
  "flush_queries tries w =
    (if wk_resolver w = 0 then w
     else (case db_flush_resolver (wk_resolver_con w) (wk_resolver w) tries (wk_store w) of
         (ok, s) \<Rightarrow> w\<lparr>wk_store := s, wk_resolver := (if ok then 0 else wk_resolver w)\<rparr>))"

definition flush_groups :: "(nat \<Rightarrow> attempt) \<Rightarrow> stats_worker \<Rightarrow> stats_worker" where
  "flush_groups tries w =
    (if wk_deltas w = [] then w
     else (case db_flush_dnsbl (wk_dnsbl_con w) (wk_deltas w) tries (wk_store w) of
         (ok, s) \<Rightarrow> w\<lparr>wk_store := s, wk_deltas := (if ok then [] else wk_deltas w)\<rparr>))"

definition worker_flush :: "(nat \<Rightarrow> attempt) \<Rightarrow> (nat \<Rightarrow> attempt) \<Rightarrow> stats_worker \<Rightarrow> stats_worker" where
  "worker_flush tries1 tries2 w = flush_groups tries2 (flush_queries tries1 w)"

fun drain :: "queue_item list \<Rightarrow> stats_worker \<Rightarrow> stats_worker" where
  "drain [] w = w"
| "drain (Q_stop # items) w = drain items w"
| "drain (Q_task t # items) w = drain items (accumulate t w)"

text \<open>One turn: what is enqueued before the \<open>get\<close>, whether the flush interval has passed, and the tries of the flush.\<close>

record db_turn =
  dt_arrivals :: "db_task list"
  dt_elapsed :: bool
  dt_attempts1 :: "nat \<Rightarrow> attempt"
  dt_attempts2 :: "nat \<Rightarrow> attempt"

definition worker_turn :: "db_turn \<Rightarrow> stats_worker \<Rightarrow> bool \<times> stats_worker" where
  "worker_turn t w =
    (let w = fold (db_enqueue (dt_attempts1 t)) (dt_arrivals t) w;
         (stop, idle, w) = (case wk_queue w of
             [] \<Rightarrow> (False, True, w)
           | Q_task task # items \<Rightarrow> (False, False, accumulate task (w\<lparr>wk_queue := items\<rparr>))
           | Q_stop # items \<Rightarrow> (True, False, drain items (w\<lparr>wk_queue := []\<rparr>)));
         w = (if stop \<or> idle \<or> db_max_batch \<le> wk_resolver w + length (wk_deltas w) \<or> dt_elapsed t
              then worker_flush (dt_attempts1 t) (dt_attempts2 t) w else w) in
     (stop, w))"

text \<open>The loop over the turns the world grants it; the result says whether the worker stopped.\<close>

fun db_worker :: "db_turn list \<Rightarrow> stats_worker \<Rightarrow> bool \<times> stats_worker" where
  "db_worker [] w = (False, w)"
| "db_worker (t # ts) w = (case worker_turn t w of
       (True, w) \<Rightarrow> (True, w)
     | (False, w) \<Rightarrow> db_worker ts w)"

end
