(* ===== verification/StatsLaws.thy ===== *)
theory StatsLaws
  imports Stats
begin

text \<open>
  The counters are exact: whatever transactions fault, every increment that was accepted is stored
  once or still pending, and none is counted twice.
\<close>

subsection \<open>What is stored\<close>

definition stored :: "db_task \<Rightarrow> stats \<Rightarrow> nat" where
  "stored k s = (case k of
       Task_resolver \<Rightarrow> (case sd_resolver s of None \<Rightarrow> 0
         | Some rows \<Rightarrow> sum_list (map (\<lambda>(row, total, queries). if row = 0 then total else 0) rows))
     | Task_dnsbl g \<Rightarrow> (case sd_dnsbl s of None \<Rightarrow> 0
         | Some rows \<Rightarrow> sum_list (map (\<lambda>r. if sr_group r = g then sr_counter r else 0) rows)))"

text \<open>The table is there, with one row for the key.\<close>

definition ready :: "db_task \<Rightarrow> stats \<Rightarrow> bool" where
  "ready k s = (case k of
       Task_resolver \<Rightarrow> (case sd_resolver s of None \<Rightarrow> False | Some rows \<Rightarrow> length (filter (\<lambda>(row, t, q). row = 0) rows) = 1)
     | Task_dnsbl g \<Rightarrow> (case sd_dnsbl s of None \<Rightarrow> False | Some rows \<Rightarrow> length (filter (\<lambda>r. sr_group r = g) rows) = 1))"

definition adds :: "db_task \<Rightarrow> nat \<Rightarrow> stats \<Rightarrow> stats \<Rightarrow> bool" where
  "adds k d s s' \<longleftrightarrow> (ready k s \<longrightarrow> ready k s' \<and> stored k s' = stored k s + d)"

lemma adds_refl: "adds k 0 s s"
  by (simp add: adds_def)

lemma adds_trans: "adds k a s t \<Longrightarrow> adds k b t u \<Longrightarrow> adds k (a + b) s u"
  by (simp add: adds_def)

lemma seed_ready:
  assumes "length (filter (\<lambda>r. sr_group r = g) rows) = 1"
  shows "length (filter (\<lambda>r. sr_group r = g) (seed_upstream_row t rows)) = 1"
    and "sum_list (map (\<lambda>r. if sr_group r = g then sr_counter r else 0) (seed_upstream_row t rows)) =
      sum_list (map (\<lambda>r. if sr_group r = g then sr_counter r else 0) rows)"
proof -
  have "filter (\<lambda>r. sr_group r = g) rows \<noteq> []" using assms by auto
  then have "g = ''Upstream'' \<Longrightarrow> list_ex (\<lambda>r. sr_group r = ''Upstream'') rows" by (auto simp: list_ex_iff filter_empty_conv)
  then show "length (filter (\<lambda>r. sr_group r = g) (seed_upstream_row t rows)) = 1"
    "sum_list (map (\<lambda>r. if sr_group r = g then sr_counter r else 0) (seed_upstream_row t rows)) =
      sum_list (map (\<lambda>r. if sr_group r = g then sr_counter r else 0) rows)"
    using assms by (auto simp: seed_upstream_row_def)
qed

lemma create_adds: "adds k 0 s (db_create db t s)"
proof (cases k)
  case Task_resolver
  then show ?thesis by (auto simp: adds_def ready_def stored_def db_create_def db_resolver_def db_dnsbl_def split: option.split)
next
  case (Task_dnsbl g)
  show ?thesis
  proof (cases "sd_dnsbl s")
    case None
    then show ?thesis using Task_dnsbl by (simp add: adds_def ready_def)
  next
    case (Some rows)
    then show ?thesis using Task_dnsbl seed_ready [of g rows t]
      by (simp add: adds_def ready_def stored_def db_create_def)
  qed
qed

lemma resolver_adds:
  assumes "update_resolver delta t s = Some s'"
  shows "adds k (if k = Task_resolver then delta else 0) s s'"
proof (cases k)
  case Task_resolver
  obtain rows where r: "sd_resolver s = Some rows" using assms by (auto simp: update_resolver_def)
  have one: "length (filter (\<lambda>(row, t, q). row = 0) rows) = n \<Longrightarrow>
     length (filter (\<lambda>(row, t, q). row = 0) (map (\<lambda>(row, total, queries). (row, if row = 0 then total + delta else total, queries)) rows)) = n
     \<and> sum_list (map (\<lambda>(row, total, queries). if row = 0 then total else 0)
        (map (\<lambda>(row, total, queries). (row, if row = 0 then total + delta else total, queries)) rows)) =
      sum_list (map (\<lambda>(row, total, queries). if row = 0 then total else 0) rows) + n * delta" for n
    by (induction rows arbitrary: n) auto
  show ?thesis using assms one [of 1] r Task_resolver by (auto simp: update_resolver_def adds_def ready_def stored_def)
next
  case (Task_dnsbl g)
  then show ?thesis using assms by (auto simp: update_resolver_def adds_def ready_def stored_def)
qed

lemma add_counter_sum:
  "length (filter (\<lambda>r. sr_group r = g) (add_counter (g', d) rows)) = length (filter (\<lambda>r. sr_group r = g) rows)"
  "sum_list (map (\<lambda>r. if sr_group r = g then sr_counter r else 0) (add_counter (g', d) rows)) =
    sum_list (map (\<lambda>r. if sr_group r = g then sr_counter r else 0) rows)
      + (if g' = g then d * length (filter (\<lambda>r. sr_group r = g) rows) else 0)"
  by (induction rows) (auto simp: add_counter_def)

lemma add_counters_sum:
  assumes "distinct (map fst deltas)" and "length (filter (\<lambda>r. sr_group r = g) rows) = 1"
  shows "length (filter (\<lambda>r. sr_group r = g) (fold add_counter deltas rows)) = 1"
    and "sum_list (map (\<lambda>r. if sr_group r = g then sr_counter r else 0) (fold add_counter deltas rows)) =
      sum_list (map (\<lambda>r. if sr_group r = g then sr_counter r else 0) rows) + dict_get (map_of deltas g) 0"
proof -
  have "length (filter (\<lambda>r. sr_group r = g) (fold add_counter deltas rows)) = 1 \<and>
    sum_list (map (\<lambda>r. if sr_group r = g then sr_counter r else 0) (fold add_counter deltas rows)) =
      sum_list (map (\<lambda>r. if sr_group r = g then sr_counter r else 0) rows) + dict_get (map_of deltas g) 0"
    using assms
  proof (induction deltas arbitrary: rows)
    case Nil
    then show ?case by (simp add: dict_get_def)
  next
    case (Cons p deltas)
    obtain g' d where p: "p = (g', d)" by fastforce
    have "map_of deltas g = None" if "g' = g" using Cons.prems(1) p that by (simp add: map_of_eq_None_iff)
    then show ?case using Cons.IH [of "add_counter p rows"] Cons.prems p add_counter_sum [of g g' d rows]
      by (auto simp: dict_get_def)
  qed
  then show "length (filter (\<lambda>r. sr_group r = g) (fold add_counter deltas rows)) = 1"
    "sum_list (map (\<lambda>r. if sr_group r = g then sr_counter r else 0) (fold add_counter deltas rows)) =
      sum_list (map (\<lambda>r. if sr_group r = g then sr_counter r else 0) rows) + dict_get (map_of deltas g) 0" by auto
qed

lemma dnsbl_adds:
  assumes "update_dnsbl deltas t s = Some s'" and "distinct (map fst deltas)"
  shows "adds k (case k of Task_resolver \<Rightarrow> 0 | Task_dnsbl g \<Rightarrow> dict_get (map_of deltas g) 0) s s'"
proof (cases k)
  case Task_resolver
  then show ?thesis using assms(1) by (auto simp: update_dnsbl_def adds_def ready_def stored_def)
next
  case (Task_dnsbl g)
  obtain rows where r: "sd_dnsbl s = Some rows" using assms(1) by (auto simp: update_dnsbl_def)
  let ?rows = "if ''Upstream'' \<in> fst ` set deltas then seed_upstream_row t rows else rows"
  have e: "s\<lparr>sd_dnsbl := Some (fold add_counter deltas ?rows)\<rparr> = s'"
    using assms(1) r by (simp only: update_dnsbl_def option.map option.inject)
  have s': "sd_dnsbl s' = Some (fold add_counter deltas ?rows)"
    unfolding e [symmetric] by simp
  show ?thesis unfolding adds_def
  proof
    assume "ready k s"
    then have one: "length (filter (\<lambda>r. sr_group r = g) rows) = 1" using r Task_dnsbl by (simp add: ready_def)
    have "length (filter (\<lambda>r. sr_group r = g) ?rows) = 1"
      "sum_list (map (\<lambda>r. if sr_group r = g then sr_counter r else 0) ?rows) =
        sum_list (map (\<lambda>r. if sr_group r = g then sr_counter r else 0) rows)"
      using seed_ready [OF one, of t] one by simp_all
    then show "ready k s' \<and> stored k s' = stored k s + (case k of Task_resolver \<Rightarrow> 0 | Task_dnsbl g \<Rightarrow> dict_get (map_of deltas g) 0)"
      using add_counters_sum [OF assms(2), of g ?rows] s' r Task_dnsbl by (simp add: ready_def stored_def)
  qed
qed

subsection \<open>Transactions\<close>

lemma db_try_adds:
  assumes "db_try db work tries s = (ok, s')" and "\<And>t u u'. work t u = Some u' \<Longrightarrow> adds k d u u'"
  shows "adds k (if ok then d else 0) (so_stats s) (so_stats s')"
  using assms(1)
proof (induction tries arbitrary: s)
  case Nil
  then show ?case by (auto simp: adds_refl)
next
  case (Cons a tries)
  let ?in = "db \<in> set (so_open s)"
  define s1 where "s1 = (if ?in then s else db_connect db (at_stamp a) s)"
  have s1: "adds k 0 (so_stats s) (so_stats s1)"
    using create_adds [of k "so_stats s" db] adds_refl by (simp add: s1_def db_connect_def)
  have close: "so_stats (db_close db x) = so_stats x" for x by (simp add: db_close_def)
  have step: "db_try db work (a # tries) s =
      (if \<not> ?in \<and> \<not> at_connect a then db_try db work tries (db_close db s)
       else (case (if at_commit a then work (at_stamp a) (so_stats s1) else None) of
         Some t \<Rightarrow> (True, s1\<lparr>so_stats := t\<rparr>) | None \<Rightarrow> db_try db work tries (db_close db s1)))"
    by (simp only: db_try.simps s1_def Let_def)
  show ?case
  proof (cases "\<not> ?in \<and> \<not> at_connect a")
    case True
    then show ?thesis using Cons.IH [of "db_close db s"] Cons.prems step close by simp
  next
    case False
    show ?thesis
    proof (cases "if at_commit a then work (at_stamp a) (so_stats s1) else None")
      case None
      then have "db_try db work tries (db_close db s1) = (ok, s')" using Cons.prems step False by (simp del: db_try.simps)
      then have "adds k (if ok then d else 0) (so_stats s1) (so_stats s')" using Cons.IH close by metis
      then show ?thesis using adds_trans [OF s1] by fastforce
    next
      case (Some t)
      then have "adds k d (so_stats s1) t" using assms(2) by (cases "at_commit a") auto
      moreover have "ok" "so_stats s' = t" using Some Cons.prems step False by (auto simp del: db_try.simps)
      ultimately show ?thesis using adds_trans [OF s1] by fastforce
    qed
  qed
qed

definition delta_of :: "(string \<times> nat) list \<Rightarrow> db_task \<Rightarrow> nat" where
  "delta_of deltas k = (case k of Task_resolver \<Rightarrow> 0 | Task_dnsbl g \<Rightarrow> dict_get (map_of deltas g) 0)"

lemma flush_resolver_adds:
  assumes "db_flush_resolver True delta tries s = (ok, s')"
  shows "adds k (if ok \<and> k = Task_resolver then delta else 0) (so_stats s) (so_stats s')"
proof (cases "delta = 0")
  case True
  then show ?thesis using assms by (auto simp: db_flush_resolver_def adds_refl)
next
  case False
  then have "db_try db_resolver (update_resolver delta) (map tries [0..<4]) s = (ok, s')"
    using assms by (simp add: db_flush_resolver_def db_run_def)
  then have "adds k (if ok then if k = Task_resolver then delta else 0 else 0) (so_stats s) (so_stats s')"
    by (rule db_try_adds) (rule resolver_adds)
  then show ?thesis by (simp split: if_splits)
qed

lemma flush_dnsbl_adds:
  assumes "db_flush_dnsbl True deltas tries s = (ok, s')" and "distinct (map fst deltas)"
  shows "adds k (if ok then delta_of deltas k else 0) (so_stats s) (so_stats s')"
proof (cases "deltas = []")
  case True
  then show ?thesis using assms by (cases k) (auto simp: db_flush_dnsbl_def delta_of_def dict_get_def adds_refl)
next
  case False
  then have "db_try db_dnsbl (update_dnsbl deltas) (map tries [0..<4]) s = (ok, s')"
    using assms(1) by (simp add: db_flush_dnsbl_def db_run_def)
  then show ?thesis unfolding delta_of_def by (rule db_try_adds) (rule dnsbl_adds [OF _ assms(2)])
qed

subsection \<open>The worker\<close>

definition pending :: "db_task \<Rightarrow> stats_worker \<Rightarrow> nat" where
  "pending k w = (if k = Task_resolver then wk_resolver w else delta_of (wk_deltas w) k)"

definition queued :: "db_task \<Rightarrow> queue_item list \<Rightarrow> nat" where
  "queued k items = length (filter (\<lambda>i. i = Q_task k) items)"

text \<open>An increment is in the queue, pending or stored.\<close>

definition balance :: "db_task \<Rightarrow> stats_worker \<Rightarrow> nat" where
  "balance k w = queued k (wk_queue w) + pending k w + stored k (so_stats (wk_store w))"

definition counting :: "db_task \<Rightarrow> stats_worker \<Rightarrow> bool" where
  "counting k w \<longleftrightarrow> wk_running w \<and> wk_resolver_con w \<and> wk_dnsbl_con w \<and> distinct (map fst (wk_deltas w))
     \<and> ready k (so_stats (wk_store w))"

lemma delta_of_update:
  "delta_of (AList.update g (Suc (dict_get (map_of deltas g) 0)) deltas) k = delta_of deltas k + (if k = Task_dnsbl g then 1 else 0)"
  by (cases k) (auto simp: delta_of_def dict_get_def update_conv')

lemma accumulate_law:
  assumes "counting k w"
  shows "counting k (accumulate t w)" and "balance k (accumulate t w) = balance k w + (if t = k then 1 else 0)"
    and "wk_dropped (accumulate t w) = wk_dropped w" and "wk_queue (accumulate t w) = wk_queue w"
  using assms by (auto simp: counting_def accumulate_def balance_def pending_def delta_of_update distinct_update split: db_task.splits)

lemma drain_law:
  assumes "counting k w" and "wk_queue w = []"
  shows "counting k (drain items w) \<and> balance k (drain items w) = balance k w + queued k items
    \<and> wk_dropped (drain items w) = wk_dropped w \<and> wk_queue (drain items w) = []"
  using assms
proof (induction items w rule: drain.induct)
  case (3 t items w)
  then show ?case using accumulate_law [OF 3(2), of t] by (simp add: queued_def)
qed (simp_all add: queued_def)

lemma enqueue_law:
  assumes "counting k w"
  shows "counting k (db_enqueue tries t w)"
    and "balance k (db_enqueue tries t w) + (if t = k then wk_dropped (db_enqueue tries t w) - wk_dropped w else 0)
      = balance k w + (if t = k then 1 else 0)"
    and "wk_dropped w \<le> wk_dropped (db_enqueue tries t w)"
  using assms by (auto simp: counting_def db_enqueue_def balance_def pending_def queued_def)

lemma arrivals_law:
  assumes "counting k w"
  shows "counting k (fold (db_enqueue tries) ts w) \<and> wk_dropped w \<le> wk_dropped (fold (db_enqueue tries) ts w)
    \<and> balance k (fold (db_enqueue tries) ts w) \<le> balance k w + count_list ts k
    \<and> balance k w + count_list ts k \<le> balance k (fold (db_enqueue tries) ts w)
        + (wk_dropped (fold (db_enqueue tries) ts w) - wk_dropped w)"
  using assms
proof (induction ts arbitrary: w)
  case (Cons t ts)
  note e = enqueue_law [OF Cons.prems, of tries t]
  show ?case using Cons.IH [OF e(1)] e(2,3) by (auto split: if_splits)
qed simp

lemma flush_queries_law:
  assumes "counting k w"
  shows "counting k (flush_queries tries w) \<and> balance k (flush_queries tries w) = balance k w
    \<and> wk_dropped (flush_queries tries w) = wk_dropped w"
proof (cases "wk_resolver w = 0")
  case True
  then show ?thesis using assms by (simp add: flush_queries_def)
next
  case False
  obtain ok s where f: "db_flush_resolver True (wk_resolver w) tries (wk_store w) = (ok, s)" by fastforce
  have "delta_of (wk_deltas w) Task_resolver = 0" by (simp add: delta_of_def)
  then show ?thesis using flush_resolver_adds [OF f, of k] f False assms
    by (cases ok) (auto simp: flush_queries_def counting_def balance_def pending_def adds_def)
qed

lemma flush_groups_law:
  assumes "counting k w"
  shows "counting k (flush_groups tries w) \<and> balance k (flush_groups tries w) = balance k w
    \<and> wk_dropped (flush_groups tries w) = wk_dropped w"
proof (cases "wk_deltas w = []")
  case True
  then show ?thesis using assms by (simp add: flush_groups_def)
next
  case False
  obtain ok s where f: "db_flush_dnsbl True (wk_deltas w) tries (wk_store w) = (ok, s)" by fastforce
  have "delta_of [] k = 0" "delta_of (wk_deltas w) Task_resolver = 0"
    by (cases k; simp add: delta_of_def dict_get_def)+
  moreover have "distinct (map fst (wk_deltas w))" using assms by (simp add: counting_def)
  ultimately show ?thesis using flush_dnsbl_adds [OF f, of k] f False assms
    by (cases ok) (auto simp: flush_groups_def counting_def balance_def pending_def adds_def)
qed

lemma flush_law:
  assumes "counting k w"
  shows "counting k (worker_flush tries1 tries2 w) \<and> balance k (worker_flush tries1 tries2 w) = balance k w
    \<and> wk_dropped (worker_flush tries1 tries2 w) = wk_dropped w"
  using flush_queries_law [OF assms, of tries1] flush_groups_law [of k "flush_queries tries1 w" tries2]
  by (simp add: worker_flush_def)

lemma turn_law:
  assumes "counting k w" and "worker_turn t w = (stop, w')"
  shows "counting k w' \<and> wk_dropped w \<le> wk_dropped w' \<and> balance k w' \<le> balance k w + count_list (dt_arrivals t) k
    \<and> balance k w + count_list (dt_arrivals t) k \<le> balance k w' + (wk_dropped w' - wk_dropped w)"
proof -
  define w1 where "w1 = fold (db_enqueue (dt_attempts1 t)) (dt_arrivals t) w"
  define w2 where "w2 = (case wk_queue w1 of [] \<Rightarrow> w1
     | Q_task task # items \<Rightarrow> accumulate task (w1\<lparr>wk_queue := items\<rparr>)
     | Q_stop # items \<Rightarrow> drain items (w1\<lparr>wk_queue := []\<rparr>))"
  note a = arrivals_law [OF assms(1), of "dt_attempts1 t" "dt_arrivals t", folded w1_def]
  have two: "counting k w2 \<and> balance k w2 = balance k w1 \<and> wk_dropped w2 = wk_dropped w1"
  proof (cases "wk_queue w1")
    case Nil
    then show ?thesis using a by (simp add: w2_def)
  next
    case (Cons i items)
    have c: "counting k (w1\<lparr>wk_queue := is\<rparr>)" "balance k (w1\<lparr>wk_queue := is\<rparr>) + queued k (wk_queue w1) = balance k w1 + queued k is" for "is"
      using a by (auto simp: counting_def balance_def pending_def)
    show ?thesis
    proof (cases i)
      case (Q_task task)
      then show ?thesis using accumulate_law [OF c(1) [of items], of task] c(2) [of items] Cons
        by (simp add: w2_def queued_def split: if_splits)
    next
      case Q_stop
      then show ?thesis using drain_law [OF c(1) [of "[]"], of items] c(2) [of "[]"] Cons by (simp add: w2_def queued_def)
    qed
  qed
  have "w' = w2 \<or> w' = worker_flush (dt_attempts1 t) (dt_attempts2 t) w2"
    using assms(2) by (auto simp: worker_turn_def Let_def w1_def [symmetric] w2_def split: list.splits queue_item.splits if_splits)
  then show ?thesis using two a flush_law [of k w2] by auto
qed

text \<open>The turns that happen before the worker stops.\<close>

fun taken :: "db_turn list \<Rightarrow> stats_worker \<Rightarrow> db_turn list" where
  "taken [] w = []"
| "taken (t # ts) w = t # (case worker_turn t w of (True, w) \<Rightarrow> [] | (False, w) \<Rightarrow> taken ts w)"

text \<open>C40. The worker counts exactly: over any run, whatever transactions fault, what is stored, pending or queued for a key
  is what it was plus what was enqueued, never more, and less only by what the full queue dropped.\<close>

theorem worker_counts_exactly:
  assumes "counting k w"
  shows "let w' = snd (db_worker ts w); n = count_list (concat (map dt_arrivals (taken ts w))) k in
    balance k w' \<le> balance k w + n \<and> balance k w + n + wk_dropped w \<le> balance k w' + wk_dropped w'"
proof -
  have "counting k w \<Longrightarrow> wk_dropped w \<le> wk_dropped (snd (db_worker ts w)) \<and>
    balance k (snd (db_worker ts w)) \<le> balance k w + count_list (concat (map dt_arrivals (taken ts w))) k \<and>
    balance k w + count_list (concat (map dt_arrivals (taken ts w))) k \<le> balance k (snd (db_worker ts w))
      + (wk_dropped (snd (db_worker ts w)) - wk_dropped w)" for w
  proof (induction ts arbitrary: w)
    case (Cons t ts)
    obtain stop w1 where t: "worker_turn t w = (stop, w1)" by fastforce
    show ?case using turn_law [OF Cons.prems t] Cons.IH [of w1] t by (cases stop) auto
  qed simp
  from this [OF assms] show ?thesis unfolding Let_def by linarith
qed

definition sample_worker :: stats_worker where
  "sample_worker = \<lparr>wk_running = True, wk_queue = [Q_task (Task_dnsbl ''ads'')], wk_dropped = 0, wk_resolver = 1, wk_deltas = [],
     wk_resolver_con = True, wk_dnsbl_con = True, wk_store = \<lparr>so_stats = \<lparr>sd_resolver = None,
       sd_dnsbl = Some [\<lparr>sr_group = ''ads'', sr_stamp = [], sr_entries = 3, sr_counter = 7\<rparr>]\<rparr>, so_open = [], so_failures = 0\<rparr>\<rparr>"

text \<open>The first attempt connects but does not commit; the second does.\<close>

definition sample_turn :: db_turn where
  "sample_turn = \<lparr>dt_arrivals = [Task_dnsbl ''ads'', Task_resolver], dt_elapsed = True,
     dt_attempts1 = (\<lambda>i. \<lparr>at_connect = True, at_commit = True, at_stamp = []\<rparr>),
     dt_attempts2 = (\<lambda>i. \<lparr>at_connect = True, at_commit = 0 < i, at_stamp = []\<rparr>)\<rparr>"

theorem worker_counts_exactly_witness:
  "balance (Task_dnsbl ''ads'') sample_worker = 8
   \<and> balance (Task_dnsbl ''ads'') (snd (db_worker [sample_turn, sample_turn] sample_worker)) = 10
   \<and> stored (Task_dnsbl ''ads'') (so_stats (wk_store (snd (db_worker [sample_turn, sample_turn] sample_worker)))) = 9"
proof -
  have c: "counting (Task_dnsbl ''ads'') sample_worker" by code_simp
  have n: "count_list (concat (map dt_arrivals (taken [sample_turn, sample_turn] sample_worker))) (Task_dnsbl ''ads'') = 2"
    by code_simp
  have d: "wk_dropped (snd (db_worker [sample_turn, sample_turn] sample_worker)) = 0" by code_simp
  have s: "stored (Task_dnsbl ''ads'') (so_stats (wk_store (snd (db_worker [sample_turn, sample_turn] sample_worker)))) = 9"
    by code_simp
  have b: "balance (Task_dnsbl ''ads'') sample_worker = 8" "wk_dropped sample_worker = 0" by code_simp+
  show ?thesis using worker_counts_exactly [OF c, of "[sample_turn, sample_turn]"] n d s b by (simp add: Let_def)
qed

end
