(* ===== verification/QueryChannel.thy ===== *)
theory QueryChannel
  imports SwapPolicy Json
begin

text \<open>
  The query channel (\<open>pfb_query_watcher\<close>): a request record on disk is answered by the live matcher,
  once per content.  Whether the reply file can be written is an input.
\<close>

subsection \<open>Replies\<close>

text \<open>The keys of the reply besides the answer; a reply that cannot be written is logged.\<close>

record query_reply =
  qr_id :: string
  qr_answer :: query_answer

record query_world =
  qw_path :: "string option"
  qw_failure :: "py_error option"

record query_state =
  qy_st :: state
  qy_replies :: "query_reply list"
  qy_last :: "(string \<times> jvalue) list option"

definition write_query_reply :: "query_world \<Rightarrow> query_reply \<Rightarrow> query_state \<Rightarrow> query_state" where
  "write_query_reply W reply s = (case qw_path W of
       None \<Rightarrow> s
     | Some path \<Rightarrow>
        if path = [] then s
        else (case qw_failure W of
           None \<Rightarrow> s\<lparr>qy_replies := qy_replies s @ [reply]\<rparr>
         | Some e \<Rightarrow> s\<lparr>qy_st := stderr (''[pfBlockerNG]: failed to write query reply [ '' @ path @ '' ]: ''
             @ error_text e @ [CHR 0x0A]) (qy_st s)\<rparr>))"

text \<open>A request without an id has no reply; one without a domain gets a miss.  The exception of the matcher is
  the caller's.\<close>

definition answer_query_request ::
  "unicode_env \<Rightarrow> re_env \<Rightarrow> query_world \<Rightarrow> (string \<times> jvalue) list \<Rightarrow> query_state \<Rightarrow> py_error option \<times> query_state" where
  "answer_query_request U E W rec s = (case map_of rec ''id'' of
       Some (V_str req_id) \<Rightarrow>
        if req_id = [] then (None, s)
        else (case map_of rec ''domain'' of
           Some (V_str domain) \<Rightarrow>
            if strip (rstrip_dots domain) = [] then (None, write_query_reply W \<lparr>qr_id = req_id, qr_answer = miss_answer\<rparr> s)
            else (case dnsbl_query_answer U E domain (qy_st s) of
                Inl e \<Rightarrow> (Some e, s)
              | Inr (answer, st) \<Rightarrow> (None, write_query_reply W \<lparr>qr_id = req_id, qr_answer = answer\<rparr> (s\<lparr>qy_st := st\<rparr>)))
         | _ \<Rightarrow> (None, write_query_reply W \<lparr>qr_id = req_id, qr_answer = miss_answer\<rparr> s))
     | _ \<Rightarrow> (None, s))"

subsection \<open>The watcher\<close>

text \<open>Equality of records as \<open>==\<close> has it: the order of keys does not count, and a truth value is its number.\<close>

fun normal :: "jvalue \<Rightarrow> jvalue" where
  "normal (V_bool b) = V_int (if b then 1 else 0)"
| "normal (V_list vs) = V_list (map normal vs)"
| "normal (V_dict d) = V_dict (sort_key fst (map (\<lambda>(k, v). (k, normal v)) d))"
| "normal v = v"

definition same_record :: "(string \<times> jvalue) list \<Rightarrow> (string \<times> jvalue) list option \<Rightarrow> bool" where
  "same_record rec last_record = (case last_record of None \<Rightarrow> False | Some r \<Rightarrow> normal (V_dict rec) = normal (V_dict r))"

text \<open>One look at the channel: whether the watcher is stopped, the text of the file if it can be read, the world.\<close>

record query_turn =
  qt_stop :: bool
  qt_text :: "string option"
  qt_world :: query_world

definition control_read_record :: "string option \<Rightarrow> (string \<times> jvalue) list option" where
  "control_read_record raw = (case raw of
       None \<Rightarrow> None
     | Some t \<Rightarrow> if strip t = [] then None else (case loads t of Some v \<Rightarrow> dict_of v | None \<Rightarrow> None))"

fun query_drain :: "unicode_env \<Rightarrow> re_env \<Rightarrow> query_turn list \<Rightarrow> query_state \<Rightarrow> query_state" where
  "query_drain U E [] s = s"
| "query_drain U E (t # ts) s =
    (if qt_stop t then s
     else (case control_read_record (qt_text t) of
         None \<Rightarrow> s
       | Some rec \<Rightarrow>
          if same_record rec (qy_last s) then s
          else (case answer_query_request U E (qt_world t) rec (s\<lparr>qy_last := Some rec\<rparr>) of
              (None, s) \<Rightarrow> query_drain U E ts s
            | (Some e, s) \<Rightarrow> query_drain U E ts (s\<lparr>qy_st := stderr
                (''[pfBlockerNG]: query watcher failed to answer a request: '' @ error_text e @ [CHR 0x0A]) (qy_st s)\<rparr>))))"

definition query_watcher :: "unicode_env \<Rightarrow> re_env \<Rightarrow> query_turn list list \<Rightarrow> query_state \<Rightarrow> query_state" where
  "query_watcher U E wakes s = fold (query_drain U E) wakes s"

end
