(* ===== verification/Spec2Isabelle.thy ===== *)
theory Spec2Isabelle
  imports BuildPolicy FrontendLaws ServiceLaws ObserverLaws ManifestPolicy StatsLaws QueryChannel
begin

text \<open>
  The DNSBL core of pfBlockerNG: the Python module that runs inside Unbound and decides for every
  query whether a name is blocked, and the DNS proxy that hosts the same module in front of Unbound.

  \<^bold>\<open>The program.\<close>  \<open>src/src/usr/local/pkg/pfblockerng/pfb_unbound.py\<close> is loaded by Unbound.  It
  reads a manifest of feeds, builds from them one immutable snapshot of block and allow lists, answers
  queries from it with a per-name memo in front, and swaps a new snapshot in when a generation file
  advances; it writes log rows, counters in SQLite and a status ledger.  \<open>pfb_dnsbl_regex_rules.py\<close>
  decides which patterns of users and feeds are admitted.  \<open>dns_proxy/\<close> runs the module outside
  Unbound: \<open>pfb_dns_proxy.py\<close> answers a client from the module or forwards the query,
  \<open>unbound_shim.py\<close> gives the module the objects Unbound would, \<open>dnswire.py\<close> is the wire format,
  \<open>decision_service.py\<close> a framed protocol for other deciders, \<open>pfb_upstream_observer.py\<close> reports
  raw upstream responses, \<open>dns_reply_log.py\<close> writes the reply log.

  \<^bold>\<open>Data.\<close>  A \<open>str\<close> is a list of characters, its code points below 256; \<open>bytes\<close> of the wire are
  lists of \<open>8 word\<close>, header fields and types \<open>16 word\<close>, TTLs \<open>32 word\<close>; Python's integers are \<open>nat\<close> where
  the code only counts and \<open>int\<close> elsewhere.  A \<open>dict\<close> is an association list in insertion order, since
  iteration order is observable; an exception is the left value of a sum (\<open>py_error\<close>, \<open>wire_error\<close>).  A
  function that writes to \<open>sys.stderr\<close>, to files or to module globals returns the new state.  Clocks, files,
  sockets, thread schedules, the \<open>re\<close> engine, the Unicode tables and set iteration order are arguments.

  \<^bold>\<open>Theories and code.\<close>  Definitions carry the name of the function they translate, less a leading
  underscore; PROJECT.json maps each to its lines.
    \<^item> \<open>Prelude\<close>: the string methods of Python, dictionaries, errors, and the lemmas all theories share.
    \<^item> \<open>Psl\<close>: \<open>PslRules\<close>, the parser of the public-suffix file, \<open>_psl_build_index\<close> and
      \<open>resolve_public_suffix\<close>.  \<open>Domain\<close>: the shape gate of names.  \<open>Abp\<close>: \<open>parse_abp\<close>, its capture
      guard, and the hosts and plain parser.  \<open>Gate\<close>: the regex admission scan.
    \<^item> \<open>Reconcile\<close>: the second stage of a build (classification, suffix policy, regex reduction,
      \<open>$badfilter\<close>).  \<open>Build\<close>: \<open>build\<close> with its local functions as steps of a state \<open>build_state\<close>;
      \<open>BuildPolicy\<close> its properties.  \<open>Manifest\<close>: \<open>dnsbl_build_from_manifest\<close> and what it calls, with
      \<open>ManifestPolicy\<close>.  \<open>Ledger\<close>: the status ledger.  \<open>Json\<close>: \<open>json.dumps\<close> and \<open>json.loads\<close>.
    \<^item> \<open>Lookup\<close>, \<open>RegexList\<close>, \<open>Idn\<close>: the containers a query reads and the lookups over them.  \<open>Matcher\<close>:
      \<open>evaluate_domain\<close>; \<open>Verdict\<close> its properties.
    \<^item> \<open>Cache\<close>: \<open>_LruCache\<close>.  \<open>Swap\<close>: the module's state, \<open>_decision_for\<close>, \<open>rebuild_and_swap\<close> and the
      reload watcher; \<open>SwapPolicy\<close> its properties.  \<open>Workers\<close>: query threads, the reload thread and the
      control channel as an interleaving step relation on one memo.  \<open>Control\<close>: the control commands.
      \<open>QueryChannel\<close>: the request and reply records.  \<open>Stats\<close>, \<open>StatsLaws\<close>: the SQLite counters.
    \<^item> \<open>Operate\<close>: \<open>operate\<close>, stage by stage; \<open>OperatePolicy\<close> its properties.  \<open>LogText\<close>, \<open>Reply\<close>: the
      log rows and the reply callbacks.
    \<^item> \<open>Wire\<close>, \<open>WireNames\<close>, \<open>WireLaws\<close>: the codec, names as a relation, the laws.  \<open>Shim\<close>: the objects.
      \<open>Service\<close>, \<open>ServiceLaws\<close>: frames and sessions.  \<open>Frontend\<close>, \<open>FrontendLaws\<close>: the decider.
      \<open>Observer\<close>, \<open>ObserverLaws\<close>: upstream reports, from the datagram to the log row.

  \<^bold>\<open>What is shown.\<close>  The public-suffix resolver agrees with the plain reading of the rules; an ABP rule is
  dropped as a whole when any part of it is not understood; the admission gate ends and bounds what it
  admits; a build fails only with its reader, and its structures obey the bands, TOP1M and suffix policies.  A
  verdict is a function of the lists, its fast path is the numeric order of the bands, and a user's rule
  beats every feed.  A reload that fails keeps the lists, and a marker is only written for lists that are
  live.  The memo never serves a verdict of another generation and does serve the newest.  What is parsed
  from the wire is well formed, encodes again and reads back.  The proxy never forwards a blocked
  query and replies within the client's limits.  A log row reads back as its fields.  A counter is stored
  exactly once whatever transactions fail.  Each property names its claim before its theorem; a property with
  hypotheses is followed by a theorem that applies it to a concrete input.

  \<^bold>\<open>Interfaces.\<close>  Contracts between components are locales, interpreted on the model's definitions:
  \<open>suffix_resolver\<close> (Psl), \<open>prefilter\<close> (RegexList), \<open>loop_step\<close> (Build), \<open>emission\<close> (BuildPolicy) and
  \<open>memo_store\<close> (Cache).

  \<^bold>\<open>Bounds and fuel.\<close>  Loops are structural or carry a termination proof.  Fuel is used in three places:
  the JSON reader (\<open>2 * length + 2\<close>, enough by \<open>loads_fuel\<close>), the reader of compressed names (the 127
  pointers the code allows) and the retries of a database call (the code's four).  Limits of the code are kept at
  their values: 255 octets of a name, 4096 characters of a pattern, 5000 queued tasks, 2048 octets of a report.

  \<^bold>\<open>Not modelled.\<close>  A session write that fails with \<open>OSError\<close>; the offending text inside an exception
  message where the message is only logged; code points above 255; JSON numbers that are not integers, except
  by their text, and \<open>RecursionError\<close>; what a build that raises had already written to the log; sockets,
  privileges and the life cycle of the proxy process; opening the GeoIP database; \<open>install\<close> and
  \<open>uninstall\<close> of the shim, which patch builtins; the waiter on kernel events, which only decides when a
  watcher looks.  The release and packaging scripts under \<open>src/scripts\<close> and the retired tools under
  \<open>src/legacy\<close> are separate programs that no part of the resolver calls.
\<close>

end
